(* ===== verification/Sky10_Prelude.thy ===== *)
theory Sky10_Prelude
  imports
    Main
    "HOL-Library.Finite_Map"
    "HOL-Library.Char_ord"
    "HOL-Library.List_Lexorder"
    "HOL-Library.Sublist"
    "HOL-Library.Word"
begin

text \<open>
  The prelude of the development. It names the types every component shares (bytes, Go strings,
  \<open>uint64\<close> counters, Go maps), the collections the component proofs feed to the simplifier, the
  reading of a Go \<open>range\<close> over a map, the wrap-around of a signed 64-bit integer, and the generic
  lemmas on finite maps and on folds that the components use.

  A Go string is its sequence of bytes, so it is a \<^typ>\<open>string\<close> here, and the byte-wise
  comparison \<open><\<close> of Go strings is the lexicographic order of \<open>HOL-Library.List_Lexorder\<close> over
  the byte order of \<open>HOL-Library.Char_ord\<close>. A Go map is finite, so it is an \<open>fmap\<close>; a \<open>nil\<close> map
  and an empty map read alike in Go and are the same value here.
\<close>

section \<open>Names shared by the components\<close>

type_synonym byte = "8 word"
type_synonym bytes = "8 word list"
type_synonym u32 = "32 word"
type_synonym u64 = "64 word"
type_synonym ('k, 'v) gomap = "('k, 'v) fmap"

named_theorems sky10_defs "definitions unfolded by the component proofs"
named_theorems clock_simps "facts about last-writer-wins clocks"
named_theorems vv_simps "facts about version vectors"
named_theorems reg_simps "facts about the per-key registers of a snapshot"

section \<open>Signed 64-bit integers\<close>

text \<open>
  Go's \<open>int64\<close> (and \<open>int\<close> on the 64-bit targets) is represented by the integer it denotes. Values
  are only compared, except where the code increments them; there the two's-complement wrap-around
  is written out with \<open>int64_wrap\<close>.
\<close>

definition int64_wrap :: "int \<Rightarrow> int" where
  "int64_wrap x = (x + 2 ^ 63) mod 2 ^ 64 - 2 ^ 63"

definition int64_ok :: "int \<Rightarrow> bool" where
  "int64_ok x \<longleftrightarrow> - (2 ^ 63) \<le> x \<and> x < 2 ^ 63"

lemma int64_wrap_id: "int64_ok x \<Longrightarrow> int64_wrap x = x"
  by (simp add: int64_wrap_def int64_ok_def)

lemma int64_wrap_ok [simp]: "int64_ok (int64_wrap x)"
proof -
  have "0 \<le> (x + 2 ^ 63) mod 2 ^ 64" "(x + 2 ^ 63) mod 2 ^ 64 < 2 ^ 64"
    by simp_all
  then show ?thesis
    unfolding int64_wrap_def int64_ok_def by auto
qed

section \<open>Go maps\<close>

text \<open>
  \<open>fm_items m\<close> lists the pairs of a map by key. A Go \<open>range\<close> visits the same pairs in an
  unspecified order: \<open>range_order ks m\<close> says that \<open>ks\<close> is one such order of the keys. Where the
  order can matter the model takes it as an argument and the theorems hold for every
  \<open>range_order\<close>.
\<close>

definition fm_keys :: "('k::linorder, 'v) gomap \<Rightarrow> 'k list" where
  "fm_keys m = sorted_list_of_fset (fmdom m)"

definition fm_items :: "('k::linorder, 'v) gomap \<Rightarrow> ('k \<times> 'v) list" where
  "fm_items m = sorted_list_of_fmap m"

definition fm_size :: "('k, 'v) gomap \<Rightarrow> nat" where
  "fm_size m = fcard (fmdom m)"

definition range_order :: "'k list \<Rightarrow> ('k, 'v) gomap \<Rightarrow> bool" where
  "range_order ks m \<longleftrightarrow> distinct ks \<and> fset_of_list ks = fmdom m"

definition range_items :: "'k list \<Rightarrow> ('k, 'v) gomap \<Rightarrow> ('k \<times> 'v) list" where
  "range_items ks m = map (\<lambda>k. (k, the (fmlookup m k))) ks"

lemma set_fm_keys [simp]: "set (fm_keys m) = fmdom' m"
  by (simp add: fm_keys_def fmdom'_alt_def)

lemma distinct_fm_keys [simp]: "distinct (fm_keys m)"
  by (simp add: fm_keys_def sorted_list_of_fset.rep_eq)

lemma sorted_fm_keys [simp]: "sorted (fm_keys m)"
  by (simp add: fm_keys_def sorted_list_of_fset.rep_eq)

lemma fm_items_eq: "fm_items m = range_items (fm_keys m) m"
  by (simp add: fm_items_def range_items_def fm_keys_def sorted_list_of_fmap_def)

lemma range_order_fm_keys [simp]: "range_order (fm_keys m) m"
  unfolding range_order_def fm_keys_def
  by (metis distinct_sorted_list_of_set fset_of_list.abs_eq fset_inverse sorted_list_of_fset.rep_eq
      sorted_list_of_fset_simps(1))

lemma set_range_items:
  assumes "range_order ks m"
  shows "set (range_items ks m) = {(k, v). fmlookup m k = Some v}"
proof -
  have "set ks = fmdom' m"
    using assms by (metis fmdom'_alt_def fset_of_list.rep_eq range_order_def)
  then show ?thesis
    by (auto simp: range_items_def image_iff fmlookup_dom'_iff)
qed

lemma set_fm_items [simp]: "set (fm_items m) = {(k, v). fmlookup m k = Some v}"
  by (simp add: fm_items_eq set_range_items)

lemma fmlookup_fmmap_keys_case:
  "fmlookup (fmmap_keys f m) k = (case fmlookup m k of None \<Rightarrow> None | Some v \<Rightarrow> Some (f k v))"
  by (cases "fmlookup m k") auto

text \<open>Filtering a map by key and value, the shape of a Go loop that copies what it keeps.\<close>

definition fm_filter :: "('k \<Rightarrow> 'v \<Rightarrow> bool) \<Rightarrow> ('k, 'v) gomap \<Rightarrow> ('k, 'v) gomap" where
  "fm_filter P m = fmfilter (\<lambda>k. case fmlookup m k of None \<Rightarrow> False | Some v \<Rightarrow> P k v) m"

lemma fmlookup_fm_filter [simp]:
  "fmlookup (fm_filter P m) k =
     (case fmlookup m k of None \<Rightarrow> None | Some v \<Rightarrow> if P k v then Some v else None)"
  by (cases "fmlookup m k") (auto simp: fm_filter_def)

lemma fmdom_fm_filter_iff [simp]:
  "k |\<in>| fmdom (fm_filter P m) \<longleftrightarrow> (\<exists>v. fmlookup m k = Some v \<and> P k v)"
  by (cases "fmlookup m k") (auto simp: fmlookup_dom_iff)

section \<open>Optional values and folds\<close>

primrec option_list :: "'a option \<Rightarrow> 'a list" where
  "option_list None = []"
| "option_list (Some x) = [x]"

lemma set_option_list [simp]: "set (option_list x) = set_option x"
  by (cases x) simp_all

lemma fold_invariant_list:
  assumes "P s" and "\<And>x s. x \<in> set xs \<Longrightarrow> P s \<Longrightarrow> P (f x s)"
  shows "P (fold f xs s)"
  using assms by (induction xs arbitrary: s) auto

end
