(* ===== verification/Go_Std.thy ===== *)
theory Go_Std
  imports Sky10_Prelude "HOL-Library.Monad_Syntax"
begin

text \<open>
  The part of the Go standard library the sources use: \<open>strings\<close> (\<open>HasPrefix\<close>, \<open>TrimPrefix\<close>,
  \<open>HasSuffix\<close>, \<open>TrimSuffix\<close>, \<open>CutPrefix\<close>, \<open>Cut\<close>, \<open>TrimSpace\<close>), \<open>fmt\<close>'s \<open>%d\<close> and zero-padded
  \<open>%0nd\<close>, and the struct mapping of \<open>encoding/json\<close>: the field names and \<open>omitempty\<close> options of the
  struct tags, with a JSON document as a value of type \<open>json\<close>. The textual syntax of JSON is not
  modelled; a timestamp and a byte slice are scalars of their own (\<open>JTime\<close>, \<open>JBytes\<close>), because
  \<open>time.Time\<close> and \<open>[]byte\<close> have their own injective text forms.
\<close>

section \<open>Strings\<close>

definition HasPrefix :: "string \<Rightarrow> string \<Rightarrow> bool" where
  "HasPrefix s p \<longleftrightarrow> length p \<le> length s \<and> take (length p) s = p"

definition TrimPrefix :: "string \<Rightarrow> string \<Rightarrow> string" where
  "TrimPrefix s p = (if HasPrefix s p then drop (length p) s else s)"

definition CutPrefix :: "string \<Rightarrow> string \<Rightarrow> string option" where
  "CutPrefix s p = (if HasPrefix s p then Some (drop (length p) s) else None)"

definition HasSuffix :: "string \<Rightarrow> string \<Rightarrow> bool" where
  "HasSuffix s p \<longleftrightarrow> length p \<le> length s \<and> drop (length s - length p) s = p"

definition TrimSuffix :: "string \<Rightarrow> string \<Rightarrow> string" where
  "TrimSuffix s p = (if HasSuffix s p then take (length s - length p) s else s)"

text \<open>\<open>Cut\<close> at the first occurrence of a one-byte separator: the parts before and after it.\<close>

fun Cut :: "char \<Rightarrow> string \<Rightarrow> (string \<times> string) option" where
  "Cut c [] = None"
| "Cut c (x # xs) =
     (if x = c then Some ([], xs)
      else case Cut c xs of None \<Rightarrow> None | Some (a, b) \<Rightarrow> Some (x # a, b))"

text \<open>\<open>strings.Split\<close> on a one-byte separator and \<open>strings.Join\<close>.\<close>

fun Split :: "char \<Rightarrow> string \<Rightarrow> string list" where
  "Split c [] = [[]]"
| "Split c (x # xs) =
     (if x = c then [] # Split c xs
      else case Split c xs of [] \<Rightarrow> [[x]] | w # ws \<Rightarrow> (x # w) # ws)"

fun Join :: "char \<Rightarrow> string list \<Rightarrow> string" where
  "Join c [] = []"
| "Join c [w] = w"
| "Join c (w # ws) = w @ c # Join c ws"

text \<open>\<open>strings.SplitN\<close> on a one-byte separator.\<close>

fun SplitN :: "nat \<Rightarrow> char \<Rightarrow> string \<Rightarrow> string list" where
  "SplitN 0 c s = []"
| "SplitN (Suc 0) c s = [s]"
| "SplitN (Suc (Suc n)) c s = (case Cut c s of None \<Rightarrow> [s] | Some (a, b) \<Rightarrow> a # SplitN (Suc n) c b)"

text \<open>The ASCII white space \<open>strings.TrimSpace\<close> removes (other Unicode spaces are not modelled).\<close>

definition is_space :: "char \<Rightarrow> bool" where
  "is_space c \<longleftrightarrow> of_char c \<in> {9, 10, 11, 12, 13, 32 :: nat}"

definition TrimSpace :: "string \<Rightarrow> string" where
  "TrimSpace s = rev (dropWhile is_space (rev (dropWhile is_space s)))"

text \<open>\<open>strings.ToLower\<close> and \<open>strings.EqualFold\<close> on ASCII letters (other case folding is not modelled).\<close>

definition lower :: "char \<Rightarrow> char" where
  "lower c = (if (65 :: nat) \<le> of_char c \<and> of_char c \<le> (90 :: nat) then char_of (of_char c + (32 :: nat)) else c)"

definition ToLower :: "string \<Rightarrow> string" where
  "ToLower s = map lower s"

definition EqualFold :: "string \<Rightarrow> string \<Rightarrow> bool" where
  "EqualFold s t \<longleftrightarrow> ToLower s = ToLower t"

lemma HasPrefix_append [simp]: "HasPrefix (p @ s) p"
  by (simp add: HasPrefix_def)

lemma HasPrefix_iff_prefix: "HasPrefix s p \<longleftrightarrow> prefix p s"
  by (metis HasPrefix_def append_eq_conv_conj prefix_def prefix_length_le take_is_prefix)

lemma TrimPrefix_append [simp]: "TrimPrefix (p @ s) p = s"
  by (simp add: TrimPrefix_def)

lemma CutPrefix_append [simp]: "CutPrefix (p @ s) p = Some s"
  by (simp add: CutPrefix_def)

lemma CutPrefix_Some: "CutPrefix s p = Some r \<longleftrightarrow> s = p @ r"
  by (auto simp: CutPrefix_def HasPrefix_iff_prefix prefix_def)

lemma HasSuffix_append [simp]: "HasSuffix (s @ p) p"
  by (simp add: HasSuffix_def)

lemma TrimSuffix_append [simp]: "TrimSuffix (s @ p) p = s"
  by (simp add: TrimSuffix_def)

lemma Cut_append: "c \<notin> set a \<Longrightarrow> Cut c (a @ c # b) = Some (a, b)"
  by (induction a) auto

lemma Cut_Some: "Cut c s = Some (a, b) \<Longrightarrow> s = a @ c # b \<and> c \<notin> set a"
  by (induction s arbitrary: a b) (auto split: if_splits option.splits)

lemma Split_not_Nil [simp]: "Split c s \<noteq> []"
  by (induction s) (auto split: list.splits)

lemma Join_Cons: "ws \<noteq> [] \<Longrightarrow> Join c (w # ws) = w @ c # Join c ws"
  by (cases ws) auto

lemma Join_Split [simp]: "Join c (Split c s) = s"
proof (induction s)
  case (Cons x xs)
  then show ?case
    by (cases "Split c xs"; cases "tl (Split c xs)") (auto simp: Join_Cons)
qed simp

lemma Split_no_sep: "w \<in> set (Split c s) \<Longrightarrow> c \<notin> set w"
  by (induction s arbitrary: w) (auto split: if_splits list.splits)

section \<open>Decimal numbers\<close>

definition digit_char :: "nat \<Rightarrow> char" where
  "digit_char d = char_of (48 + d)"

definition is_digit :: "char \<Rightarrow> bool" where
  "is_digit c \<longleftrightarrow> (48 :: nat) \<le> of_char c \<and> of_char c \<le> (57 :: nat)"

definition digit_val :: "char \<Rightarrow> nat" where
  "digit_val c = of_char c - 48"

fun show_nat :: "nat \<Rightarrow> string" where
  "show_nat n = (if n < 10 then [digit_char n] else show_nat (n div 10) @ [digit_char (n mod 10)])"

declare show_nat.simps [simp del]

definition show_int :: "int \<Rightarrow> string" where
  "show_int i = (if i < 0 then CHR ''-'' # show_nat (nat (- i)) else show_nat (nat i))"

definition read_nat :: "string \<Rightarrow> nat" where
  "read_nat s = foldl (\<lambda>n c. 10 * n + digit_val c) 0 s"

text \<open>\<open>fmt\<close>'s \<open>%0wd\<close>: zeros after the sign up to the width.\<close>

definition pad0 :: "nat \<Rightarrow> int \<Rightarrow> string" where
  "pad0 w i = (if i < 0
     then CHR ''-'' # replicate (w - 1 - length (show_nat (nat (- i)))) (CHR ''0'') @ show_nat (nat (- i))
     else replicate (w - length (show_nat (nat i))) (CHR ''0'') @ show_nat (nat i))"

text \<open>\<open>strconv.ParseInt\<close> with base 10 and 64 bits: an optional sign, digits, and the \<open>int64\<close> range.\<close>

definition ParseInt64 :: "string \<Rightarrow> int option" where
  "ParseInt64 s =
     (let neg = HasPrefix s ''-''; ds = (if neg \<or> HasPrefix s ''+'' then tl s else s) in
      if ds = [] \<or> \<not> list_all is_digit ds then None
      else let i = (if neg then - int (read_nat ds) else int (read_nat ds)) in
        if int64_ok i then Some i else None)"

lemma digit_char_val [simp]: "d < 10 \<Longrightarrow> digit_val (digit_char d) = d"
  by (simp add: digit_val_def digit_char_def)

lemma is_digit_char [simp]: "d < 10 \<Longrightarrow> is_digit (digit_char d)"
  by (simp add: is_digit_def digit_char_def)

lemma digit_char_of_val [simp]: "is_digit c \<Longrightarrow> digit_char (digit_val c) = c"
  by (simp add: is_digit_def digit_val_def digit_char_def)

lemma digit_val_less: "is_digit c \<Longrightarrow> digit_val c < 10"
  unfolding is_digit_def digit_val_def by linarith

lemma digit_val_zero [simp]: "digit_val (CHR ''0'') = 0"
  by (simp add: digit_val_def)

lemma is_digit_zero [simp]: "is_digit (CHR ''0'')"
  by (simp add: is_digit_def)

lemma show_nat_digits: "c \<in> set (show_nat n) \<Longrightarrow> is_digit c"
  by (induction n rule: show_nat.induct) (subst (asm) (2) show_nat.simps, auto split: if_splits)

lemma show_nat_not_Nil [simp]: "show_nat n \<noteq> []"
  by (subst show_nat.simps) simp

lemma read_nat_snoc [simp]: "read_nat (s @ [c]) = 10 * read_nat s + digit_val c"
  by (simp add: read_nat_def)

lemma read_nat_Nil [simp]: "read_nat [] = 0"
  by (simp add: read_nat_def)

lemma read_show_nat [simp]: "read_nat (show_nat n) = n"
proof (induction n rule: show_nat.induct)
  case (1 n)
  then show ?case
    by (subst show_nat.simps) (auto simp: read_nat_def)
qed

lemma read_nat_append: "read_nat (s @ t) = read_nat s * 10 ^ length t + read_nat t"
  by (induction t rule: rev_induct) (auto simp: algebra_simps simp flip: append_assoc)

lemma read_nat_zeros [simp]: "read_nat (replicate k (CHR ''0'')) = 0"
  by (induction k) (auto simp: read_nat_def)

section \<open>UTF-8\<close>

text \<open>
  \<open>json.Marshal\<close> writes a Go string as UTF-8 text: every byte that is not part of a valid encoding
  becomes U+FFFD. \<open>utf8_len\<close> is the length of the valid encoding a string starts with, 0 if there is
  none (the table of \<open>unicode/utf8\<close>).
\<close>

definition byte_in :: "nat \<Rightarrow> nat \<Rightarrow> char \<Rightarrow> bool" where
  "byte_in lo hi c \<longleftrightarrow> lo \<le> of_char c \<and> of_char c \<le> hi"

fun tail_ok :: "(nat \<times> nat) list \<Rightarrow> string \<Rightarrow> bool" where
  "tail_ok [] cs = True"
| "tail_ok (b # bs) [] = False"
| "tail_ok ((lo, hi) # bs) (c # cs) = (byte_in lo hi c \<and> tail_ok bs cs)"

fun utf8_len :: "string \<Rightarrow> nat" where
  "utf8_len [] = 0"
| "utf8_len (c # cs) =
     (if byte_in 0 127 c then 1
      else if byte_in 194 223 c \<and> tail_ok [(128, 191)] cs then 2
      else if byte_in 224 224 c \<and> tail_ok [(160, 191), (128, 191)] cs then 3
      else if (byte_in 225 236 c \<or> byte_in 238 239 c) \<and> tail_ok [(128, 191), (128, 191)] cs then 3
      else if byte_in 237 237 c \<and> tail_ok [(128, 159), (128, 191)] cs then 3
      else if byte_in 240 240 c \<and> tail_ok [(144, 191), (128, 191), (128, 191)] cs then 4
      else if byte_in 241 243 c \<and> tail_ok [(128, 191), (128, 191), (128, 191)] cs then 4
      else if byte_in 244 244 c \<and> tail_ok [(128, 143), (128, 191), (128, 191)] cs then 4
      else 0)"

declare utf8_len.simps [simp del]

fun utf8_valid :: "string \<Rightarrow> bool" where
  "utf8_valid [] = True"
| "utf8_valid (c # cs) =
     (utf8_len (c # cs) \<noteq> 0 \<and> utf8_valid (drop (utf8_len (c # cs) - 1) cs))"

fun utf8_fix :: "string \<Rightarrow> string" where
  "utf8_fix [] = []"
| "utf8_fix (c # cs) =
     (if utf8_len (c # cs) = 0 then map char_of [239, 191, 189 :: nat] @ utf8_fix cs
      else c # take (utf8_len (c # cs) - 1) cs @ utf8_fix (drop (utf8_len (c # cs) - 1) cs))"

lemma utf8_fix_valid [simp]: "utf8_valid s \<Longrightarrow> utf8_fix s = s"
  by (induction s rule: utf8_fix.induct) auto

lemma utf8_ascii [simp]: "list_all (byte_in 0 127) s \<Longrightarrow> utf8_valid s"
  by (induction s) (simp_all add: utf8_len.simps)

declare utf8_valid.simps(2) [simp del]

text \<open>Evaluation: an ASCII character is told from its top bit.\<close>

lemma utf8_len_ascii: "\<not> digit7 c \<Longrightarrow> utf8_len (c # cs) = 1"
proof (cases c)
  case (Char b0 b1 b2 b3 b4 b5 b6 b7)
  assume "\<not> digit7 c"
  moreover have "of_bool b \<le> (1 :: nat)" for b by simp
  note this [of b0] this [of b1] this [of b2] this [of b3] this [of b4] this [of b5] this [of b6]
  ultimately have "of_char c \<le> (127 :: nat)" by (simp add: Char)
  then show ?thesis by (simp add: utf8_len.simps byte_in_def)
qed

lemma utf8_fix_code [code]:
  "utf8_fix [] = []"
  "utf8_fix (c # cs) = (if \<not> digit7 c then c # utf8_fix cs
     else if utf8_len (c # cs) = 0 then map char_of [239, 191, 189 :: nat] @ utf8_fix cs
     else c # take (utf8_len (c # cs) - 1) cs @ utf8_fix (drop (utf8_len (c # cs) - 1) cs))"
  by (simp_all add: utf8_len_ascii)

lemma utf8_valid_code [code]:
  "utf8_valid [] = True"
  "utf8_valid (c # cs) = (if \<not> digit7 c then utf8_valid cs
     else utf8_len (c # cs) \<noteq> 0 \<and> utf8_valid (drop (utf8_len (c # cs) - 1) cs))"
  by (simp_all add: utf8_len_ascii utf8_valid.simps(2))

section \<open>JSON documents and struct tags\<close>

datatype json =
    JNull
  | JInt int
  | JBool bool
  | JString string
  | JBytes bytes
  | JTime int
  | JArr "json list"
  | JObj "(string \<times> json) list"

definition jstr :: "string \<Rightarrow> json" where
  "jstr s = JString (utf8_fix s)"

lemma jstr_valid [simp]: "utf8_valid s \<Longrightarrow> jstr s = JString s"
  by (simp add: jstr_def)

text \<open>A field of an object; a later duplicate wins, as in \<open>json.Unmarshal\<close>.\<close>

definition jget :: "(string \<times> json) list \<Rightarrow> string \<Rightarrow> json option" where
  "jget obj f = map_of (rev obj) f"

text \<open>Fields written with \<open>omitempty\<close>: nothing for the zero value.\<close>

definition omit_string :: "string \<Rightarrow> string \<Rightarrow> (string \<times> json) list" where
  "omit_string f s = (if s = [] then [] else [(f, jstr s)])"

definition omit_int :: "string \<Rightarrow> int \<Rightarrow> (string \<times> json) list" where
  "omit_int f i = (if i = 0 then [] else [(f, JInt i)])"

definition omit_bytes :: "string \<Rightarrow> bytes \<Rightarrow> (string \<times> json) list" where
  "omit_bytes f b = (if b = [] then [] else [(f, JBytes b)])"

text \<open>Decoding a field: an absent or \<open>null\<close> field is the zero value, another kind is an error.\<close>

fun dec_string :: "json option \<Rightarrow> string option" where
  "dec_string None = Some []"
| "dec_string (Some JNull) = Some []"
| "dec_string (Some (JString s)) = Some s"
| "dec_string (Some _) = None"

fun dec_int :: "json option \<Rightarrow> int option" where
  "dec_int None = Some 0"
| "dec_int (Some JNull) = Some 0"
| "dec_int (Some (JInt i)) = (if int64_ok i then Some i else None)"
| "dec_int (Some _) = None"

fun dec_u64 :: "json option \<Rightarrow> u64 option" where
  "dec_u64 None = Some 0"
| "dec_u64 (Some JNull) = Some 0"
| "dec_u64 (Some (JInt i)) = (if 0 \<le> i \<and> i < 2 ^ 64 then Some (word_of_int i) else None)"
| "dec_u64 (Some _) = None"

fun dec_bytes :: "json option \<Rightarrow> bytes option" where
  "dec_bytes None = Some []"
| "dec_bytes (Some JNull) = Some []"
| "dec_bytes (Some (JBytes b)) = Some b"
| "dec_bytes (Some _) = None"

text \<open>A time is its Unix second; the zero \<open>time.Time\<close> is the start of the year 1.\<close>

definition zero_time :: int where
  "zero_time = - 62135596800"

text \<open>\<open>time.Time\<close> marshals in the years 0 to 9999 only.\<close>

definition time_json_ok :: "int \<Rightarrow> bool" where
  "time_json_ok t \<longleftrightarrow> - 62167219200 \<le> t \<and> t < 253402300800"

fun dec_time :: "json option \<Rightarrow> int option" where
  "dec_time None = Some zero_time"
| "dec_time (Some JNull) = Some zero_time"
| "dec_time (Some (JTime t)) = Some t"
| "dec_time (Some _) = None"

text \<open>A slice of strings: \<open>nil\<close> is \<open>None\<close>, so that \<open>nil\<close> and the empty slice stay apart.\<close>

definition enc_strings :: "string list option \<Rightarrow> json" where
  "enc_strings xs = (case xs of None \<Rightarrow> JNull | Some ys \<Rightarrow> JArr (map jstr ys))"

fun dec_strings :: "json option \<Rightarrow> string list option option" where
  "dec_strings None = Some None"
| "dec_strings (Some JNull) = Some None"
| "dec_strings (Some (JArr js)) = map_option Some (those (map (\<lambda>j. dec_string (Some j)) js))"
| "dec_strings (Some _) = None"

text \<open>A map with string keys: keys are written in order, a value that fails to decode fails the map.\<close>

definition enc_map :: "('v \<Rightarrow> json) \<Rightarrow> (string, 'v) gomap \<Rightarrow> json" where
  "enc_map f m = JObj (map (\<lambda>(k, v). (utf8_fix k, f v)) (fm_items m))"

definition keys_utf8 :: "(string, 'v) gomap \<Rightarrow> bool" where
  "keys_utf8 m \<longleftrightarrow> list_all utf8_valid (fm_keys m)"

definition omit_map :: "string \<Rightarrow> ('v \<Rightarrow> json) \<Rightarrow> (string, 'v) gomap \<Rightarrow> (string \<times> json) list" where
  "omit_map f g m = (if m = fmempty then [] else [(f, enc_map g m)])"

fun dec_pairs :: "(json \<Rightarrow> 'v option) \<Rightarrow> (string \<times> json) list \<Rightarrow> (string \<times> 'v) list option" where
  "dec_pairs g [] = Some []"
| "dec_pairs g ((k, j) # kvs) =
     (case g j of None \<Rightarrow> None | Some v \<Rightarrow> map_option ((#) (k, v)) (dec_pairs g kvs))"

fun dec_map :: "(json \<Rightarrow> 'v option) \<Rightarrow> json option \<Rightarrow> (string, 'v) gomap option" where
  "dec_map g None = Some fmempty"
| "dec_map g (Some JNull) = Some fmempty"
| "dec_map g (Some (JObj kvs)) = map_option (\<lambda>ps. fmap_of_list (rev ps)) (dec_pairs g kvs)"
| "dec_map g (Some _) = None"

text \<open>An optional pointer to a struct.\<close>

definition omit_ptr :: "string \<Rightarrow> ('v \<Rightarrow> json) \<Rightarrow> 'v option \<Rightarrow> (string \<times> json) list" where
  "omit_ptr f g p = (case p of None \<Rightarrow> [] | Some v \<Rightarrow> [(f, g v)])"

fun dec_ptr :: "(json \<Rightarrow> 'v option) \<Rightarrow> json option \<Rightarrow> 'v option option" where
  "dec_ptr g None = Some None"
| "dec_ptr g (Some JNull) = Some None"
| "dec_ptr g (Some j) = map_option Some (g j)"

lemmas omit_defs = omit_string_def omit_int_def omit_bytes_def omit_map_def omit_ptr_def

definition strings_utf8 :: "string list option \<Rightarrow> bool" where
  "strings_utf8 xs = (case xs of None \<Rightarrow> True | Some ys \<Rightarrow> list_all utf8_valid ys)"

lemma dec_enc_strings [simp]: "strings_utf8 xs \<Longrightarrow> dec_strings (Some (enc_strings xs)) = Some xs"
proof (cases xs)
  case (Some ys)
  assume "strings_utf8 xs"
  with Some have "list_all utf8_valid ys" by (simp add: strings_utf8_def)
  then have "those (map (\<lambda>j. dec_string (Some j)) (map jstr ys)) = Some ys"
    by (induction ys) auto
  with Some show ?thesis by (simp add: enc_strings_def)
qed (simp add: enc_strings_def)

lemma dec_pairs_map:
  assumes "\<And>k v. (k, v) \<in> set kvs \<Longrightarrow> utf8_valid k \<and> g (f v) = Some v"
  shows "dec_pairs g (map (\<lambda>(k, v). (utf8_fix k, f v)) kvs) = Some kvs"
  using assms
proof (induction kvs)
  case (Cons kv kvs)
  then have "utf8_valid (fst kv)" "g (f (snd kv)) = Some (snd kv)"
    by (metis list.set_intros(1) prod.collapse)+
  moreover have "dec_pairs g (map (\<lambda>(k, v). (utf8_fix k, f v)) kvs) = Some kvs"
    using Cons by auto
  ultimately show ?case by (cases kv) simp
qed simp

lemma fmap_of_list_rev_items: "fmap_of_list (rev (fm_items m)) = m"
proof (rule fmap_ext)
  fix k
  have d: "distinct (map fst (fm_items m))"
    by (simp add: fm_items_eq range_items_def comp_def)
  have "map_of (rev (fm_items m)) = map_of (fm_items m)"
    by (rule map_of_eqI) (simp_all add: d rev_map [symmetric])
  then show "fmlookup (fmap_of_list (rev (fm_items m))) k = fmlookup m k"
    by (simp add: fmap_of_list.rep_eq fm_items_def)
qed

lemma keys_utf8_iff: "keys_utf8 m \<longleftrightarrow> (\<forall>k v. fmlookup m k = Some v \<longrightarrow> utf8_valid k)"
  by (auto simp: keys_utf8_def list_all_iff fmlookup_dom'_iff)

lemma keys_utf8_empty [simp]: "keys_utf8 fmempty"
  by (simp add: keys_utf8_iff)

lemma dec_enc_map:
  assumes "keys_utf8 m" "\<And>k v. fmlookup m k = Some v \<Longrightarrow> g (f v) = Some v"
  shows "dec_map g (Some (enc_map f m)) = Some m"
  using dec_pairs_map [of "fm_items m" g f] assms
  by (simp add: enc_map_def keys_utf8_iff fmap_of_list_rev_items)

lemma jget_simps [simp]:
  "jget [] f = None"
  "jget ((g, j) # obj) f = (case jget obj f of None \<Rightarrow> if g = f then Some j else None | Some i \<Rightarrow> Some i)"
  "jget (xs @ ys) f = (case jget ys f of None \<Rightarrow> jget xs f | Some i \<Rightarrow> Some i)"
  by (auto simp: jget_def map_add_def split: option.split)

lemma case_option_Some_id [simp]: "(case x of None \<Rightarrow> None | Some i \<Rightarrow> Some i) = x"
  by (cases x) simp_all

lemma jget_omit [simp]:
  "jget (omit_string g s) f = (if g = f then if s = [] then None else Some (jstr s) else None)"
  "jget (omit_int g i) f = (if g = f then if i = 0 then None else Some (JInt i) else None)"
  "jget (omit_bytes g b) f = (if g = f then if b = [] then None else Some (JBytes b) else None)"
  "jget (omit_map g h m) f = (if g = f then if m = fmempty then None else Some (enc_map h m) else None)"
  "jget (omit_ptr g p q) f = (if g = f then map_option p q else None)"
  by (auto simp: omit_defs split: option.split)

lemma dec_u64_uint [simp]: "dec_u64 (Some (JInt (uint c))) = Some c"
  using uint_lt2p [of c] by simp

lemma uint_u64_bound [simp]: "uint (c :: u64) < 18446744073709551616"
  using uint_lt2p [of c] by simp

lemma uint_u64_eq_0 [simp]: "uint (c :: u64) = 0 \<longleftrightarrow> c = 0"
  by (simp add: word_uint_eq_iff)

lemma dec_omitted [simp]:
  "utf8_valid s \<Longrightarrow> dec_string (if s = [] then None else Some (jstr s)) = Some s"
  "dec_bytes (if b = [] then None else Some (JBytes b)) = Some b"
  "int64_ok i \<Longrightarrow> dec_int (if i = 0 then None else Some (JInt i)) = Some i"
  "dec_u64 (if c = 0 then None else Some (JInt (uint c))) = Some c"
  by (simp_all del: dec_u64.simps(3))

section \<open>JSON lines files\<close>

text \<open>
  A log file is a list of lines: a JSON document, an empty line, or bytes that do not parse. The
  failures of the file system calls around it are values of \<open>log_error\<close>.
\<close>

datatype line = JsonLine json | EmptyLine | CorruptLine

datatype log_error = OpenErr | MarshalErr | WriteErr | ReadErr | CreateErr | RenameErr

end
