(* ===== verification/Clocks.thy ===== *)
theory Clocks
  imports Go_Std
begin

text \<open>
  The last-writer-wins clock shared by the file log (\<open>pkg/fs/opslog\<close>) and the key-value log
  (\<open>pkg/kv\<close>): \<open>clockTuple\<close> with its comparison \<open>beats\<close>, the exported \<open>Clock\<close> with \<open>Beats\<close>, and
  \<open>clockCompare\<close>. The interface \<open>lww_order\<close> says what a replicated register needs of the relation
  that decides between two writes (a strict total order on the writes in play); inside it we prove
  once that folding the writes in any order, with repetitions, leaves the same winner.
\<close>

section \<open>The clock\<close>

record clockTuple =
  ct_ts :: int
  ct_device :: string
  ct_seq :: int

definition beats :: "clockTuple \<Rightarrow> clockTuple \<Rightarrow> bool" where
  "beats c other =
     (if ct_ts c \<noteq> ct_ts other then ct_ts c > ct_ts other
      else if ct_device c \<noteq> ct_device other then ct_device c > ct_device other
      else ct_seq c > ct_seq other)"

definition clockCompare :: "clockTuple \<Rightarrow> clockTuple \<Rightarrow> int" where
  "clockCompare a b = (if beats a b then 1 else if beats b a then - 1 else 0)"

lemma beats_irrefl [simp]: "\<not> beats c c"
  by (simp add: beats_def)

lemma beats_trans [trans]: "beats a b \<Longrightarrow> beats b c \<Longrightarrow> beats a c"
  unfolding beats_def by (auto split: if_splits)

lemma beats_total: "a \<noteq> b \<Longrightarrow> beats a b \<or> beats b a"
  unfolding beats_def by (auto intro: clockTuple.equality)

lemma beats_asym: "beats a b \<Longrightarrow> \<not> beats b a"
  using beats_irrefl beats_trans by blast

lemma not_beats_trans: "\<not> beats a b \<Longrightarrow> beats c b \<Longrightarrow> beats c a"
  by (metis beats_total beats_trans)

lemma not_beats_not_beats: "\<not> beats a b \<Longrightarrow> \<not> beats b c \<Longrightarrow> \<not> beats a c"
  by (metis beats_total beats_trans)

lemma clockCompare_pos [clock_simps]: "clockCompare a b > 0 \<longleftrightarrow> beats a b"
  by (simp add: clockCompare_def)

section \<open>Registers decided by a clock\<close>

definition lww_merge :: "('v \<Rightarrow> 'v \<Rightarrow> bool) \<Rightarrow> 'v option \<Rightarrow> 'v \<Rightarrow> 'v option" where
  "lww_merge bt cur new =
     (case cur of None \<Rightarrow> Some new | Some old \<Rightarrow> if bt new old then Some new else Some old)"

definition lww_fold :: "('v \<Rightarrow> 'v \<Rightarrow> bool) \<Rightarrow> 'v list \<Rightarrow> 'v option \<Rightarrow> 'v option" where
  "lww_fold bt vs cur = fold (\<lambda>v acc. lww_merge bt acc v) vs cur"

lemma lww_fold_simps [simp]:
  "lww_fold bt [] cur = cur"
  "lww_fold bt (v # vs) cur = lww_fold bt vs (lww_merge bt cur v)"
  by (simp_all add: lww_fold_def)

lemma lww_fold_append: "lww_fold bt (xs @ ys) cur = lww_fold bt ys (lww_fold bt xs cur)"
  by (simp add: lww_fold_def)

lemma lww_merge_not_None [simp]: "lww_merge bt cur v \<noteq> None"
  by (simp add: lww_merge_def split: option.split)

lemma lww_fold_None_iff: "lww_fold bt vs cur = None \<longleftrightarrow> vs = [] \<and> cur = None"
proof (induction vs arbitrary: cur)
  case (Cons v vs)
  then show ?case by (simp only: lww_fold_simps lww_merge_not_None) simp
qed simp

lemma lww_fold_mem:
  "lww_fold bt vs cur = Some w \<Longrightarrow> w \<in> set vs \<union> set_option cur"
proof (induction vs arbitrary: cur)
  case (Cons v vs)
  from Cons.IH [of "lww_merge bt cur v"] Cons.prems show ?case
    by (auto simp: lww_merge_def split: option.splits if_splits)
qed simp

locale lww_order =
  fixes bt :: "'v \<Rightarrow> 'v \<Rightarrow> bool" and V :: "'v set"
  assumes bt_irrefl: "x \<in> V \<Longrightarrow> \<not> bt x x"
    and bt_trans: "x \<in> V \<Longrightarrow> y \<in> V \<Longrightarrow> z \<in> V \<Longrightarrow> bt x y \<Longrightarrow> bt y z \<Longrightarrow> bt x z"
    and bt_total: "x \<in> V \<Longrightarrow> y \<in> V \<Longrightarrow> x \<noteq> y \<Longrightarrow> bt x y \<or> bt y x"
begin

lemma fold_winner:
  assumes "set vs \<union> set_option cur \<subseteq> V" and "lww_fold bt vs cur = Some w"
  shows "\<forall>x \<in> set vs \<union> set_option cur. x = w \<or> bt w x"
  using assms
proof (induction vs arbitrary: cur)
  case (Cons v vs)
  let ?cur = "lww_merge bt cur v"
  have sub: "set vs \<union> set_option ?cur \<subseteq> V"
    using Cons.prems(1) by (auto simp: lww_merge_def split: option.splits if_splits)
  have res: "lww_fold bt vs ?cur = Some w"
    using Cons.prems(2) by simp
  have IH: "\<forall>x \<in> set vs \<union> set_option ?cur. x = w \<or> bt w x"
    using Cons.IH [OF sub res] .
  have wV: "w \<in> V"
    using lww_fold_mem [OF res] sub by blast
  have "x = w \<or> bt w x" if x: "x \<in> {v} \<union> set_option cur" for x
  proof -
    have "\<exists>m. ?cur = Some m \<and> (x = m \<or> bt m x) \<and> m \<in> V \<and> x \<in> V"
      using x Cons.prems(1) bt_total [of v "the cur"]
      by (auto simp: lww_merge_def split: option.splits) blast
    then obtain m where m: "?cur = Some m" "x = m \<or> bt m x" "m \<in> V" "x \<in> V"
      by blast
    with IH have "m = w \<or> bt w m" by simp
    with m wV show ?thesis using bt_trans by blast
  qed
  with IH show ?case by auto
qed simp

theorem fold_set_cong:
  assumes "set xs \<union> set_option c = set ys \<union> set_option d" and "set xs \<union> set_option c \<subseteq> V"
  shows "lww_fold bt xs c = lww_fold bt ys d"
proof (cases "lww_fold bt xs c")
  case None
  then have "xs = []" "c = None" by (auto simp: lww_fold_None_iff)
  with assms(1) have "ys = []" "d = None" by (auto simp: set_empty_eq)
  with \<open>xs = []\<close> \<open>c = None\<close> show ?thesis by simp
next
  case (Some w)
  from lww_fold_mem [OF Some] have w: "w \<in> set ys \<union> set_option d"
    using assms(1) by simp
  then have "\<not> (ys = [] \<and> d = None)" by auto
  then obtain u where u: "lww_fold bt ys d = Some u"
    using lww_fold_None_iff by (metis option.exhaust)
  from lww_fold_mem [OF u] have u': "u \<in> set xs \<union> set_option c"
    using assms(1) by simp
  have "u = w \<or> bt w u"
    using fold_winner [OF assms(2) Some] u' by blast
  moreover have "w = u \<or> bt u w"
    using fold_winner [of ys d u] assms u w by auto
  moreover have "\<not> (bt w u \<and> bt u w)"
    using bt_irrefl bt_trans u' assms(2) w assms(1) by blast
  ultimately show ?thesis using Some u by auto
qed

end

text \<open>The clock comparison is such an order on all clocks.\<close>

interpretation clock: lww_order beats UNIV
  by unfold_locales (auto intro: beats_trans dest: beats_total)

end
