(* ===== verification/Kv_Causal.thy ===== *)
theory Kv_Causal
  imports Clocks
begin

text \<open>
  Version vectors and the causal comparison of \<open>pkg/kv/causal.go\<close>. A vector maps actors to
  \<open>uint64\<close> counters; an absent actor reads as 0, as a Go map does. We show that \<open>Dominates\<close> is the
  pointwise order on the readings, that \<open>Merge\<close> is the pointwise maximum whatever order the map is
  ranged in, and that \<open>compareCausal\<close> is the strict part of the vector order, so that it is
  antisymmetric and transitive where it decides.
\<close>

type_synonym VersionVector = "(string, u64) gomap"

definition vv_get :: "VersionVector \<Rightarrow> string \<Rightarrow> u64" where
  "vv_get v a = (case fmlookup v a of None \<Rightarrow> 0 | Some c \<Rightarrow> c)"

definition Clone :: "VersionVector \<Rightarrow> VersionVector" where
  "Clone v = fmap_of_list (fm_items v)"

definition Observe :: "VersionVector \<Rightarrow> string \<Rightarrow> u64 \<Rightarrow> VersionVector" where
  "Observe v actor counter =
     (if actor = [] \<or> counter = 0 then v
      else case fmlookup v actor of
          None \<Rightarrow> fmupd actor counter v
        | Some current \<Rightarrow> if counter > current then fmupd actor counter v else v)"

definition Merge_range :: "string list \<Rightarrow> VersionVector \<Rightarrow> VersionVector \<Rightarrow> VersionVector" where
  "Merge_range ks v other = fold (\<lambda>(a, c) v. Observe v a c) (range_items ks other) v"

definition Merge :: "VersionVector \<Rightarrow> VersionVector \<Rightarrow> VersionVector" where
  "Merge v other = Merge_range (fm_keys other) v other"

definition Dominates :: "VersionVector \<Rightarrow> VersionVector \<Rightarrow> bool" where
  "Dominates v other \<longleftrightarrow>
     list_all (\<lambda>(a, c). \<not> vv_get v a < c) (fm_items other) \<and>
     list_all (\<lambda>(a, c). \<not> vv_get other a > c) (fm_items v)"

definition CausalVersion :: "string \<Rightarrow> u64 \<Rightarrow> VersionVector \<Rightarrow> VersionVector" where
  "CausalVersion actor counter ctx = Observe (Clone ctx) actor counter"

definition compareCausal ::
  "string \<Rightarrow> u64 \<Rightarrow> VersionVector \<Rightarrow> string \<Rightarrow> u64 \<Rightarrow> VersionVector \<Rightarrow> int" where
  "compareCausal aActor aCounter aContext bActor bCounter bContext =
     (if aActor = [] \<or> aCounter = 0 \<or> bActor = [] \<or> bCounter = 0 then 0
      else
        let aFull = CausalVersion aActor aCounter aContext;
            bFull = CausalVersion bActor bCounter bContext;
            aDominates = Dominates aFull bFull;
            bDominates = Dominates bFull aFull
        in if aDominates \<and> \<not> bDominates then 1
           else if bDominates \<and> \<not> aDominates then - 1
           else 0)"

section \<open>Readings\<close>

lemma Clone_id [simp]: "Clone v = v"
proof (rule fmap_ext)
  fix k
  show "fmlookup (Clone v) k = fmlookup v k"
    by (simp add: Clone_def fmap_of_list.rep_eq fm_items_def)
qed

lemma vv_get_empty [simp]: "vv_get fmempty a = 0"
  by (simp add: vv_get_def)

lemma vv_get_upd [simp]: "vv_get (fmupd a c v) b = (if a = b then c else vv_get v b)"
  by (simp add: vv_get_def)

lemma vv_get_Observe [vv_simps]:
  "vv_get (Observe v a c) b = (if a \<noteq> [] \<and> b = a then max (vv_get v b) c else vv_get v b)"
  by (auto simp: Observe_def vv_get_def max_def split: option.splits)

text \<open>A stored entry has a named actor and a positive counter; \<open>Observe\<close> keeps it so.\<close>

definition vv_ok :: "VersionVector \<Rightarrow> bool" where
  "vv_ok v \<longleftrightarrow> list_all (\<lambda>(a, c). a \<noteq> [] \<and> c \<noteq> 0) (fm_items v)"

lemma vv_ok_iff: "vv_ok v \<longleftrightarrow> (\<forall>a c. fmlookup v a = Some c \<longrightarrow> a \<noteq> [] \<and> c \<noteq> 0)"
  by (auto simp: vv_ok_def list_all_iff)

lemma vv_ok_empty [simp]: "vv_ok fmempty"
  by (simp add: vv_ok_iff)

lemma vv_ok_Observe [simp]: "vv_ok v \<Longrightarrow> vv_ok (Observe v a c)"
  by (auto simp: vv_ok_iff Observe_def split: option.splits if_splits)

lemma vv_ok_get_Nil: "vv_ok v \<Longrightarrow> vv_get v [] = 0"
  unfolding vv_ok_iff vv_get_def by (cases "fmlookup v []") auto

lemma vv_leI:
  assumes "vv_ok v" and "\<And>a. a \<noteq> [] \<Longrightarrow> vv_get v a \<le> vv_get w a"
  shows "vv_get v a \<le> vv_get w a"
  using assms by (cases "a = []") (simp_all add: vv_ok_get_Nil)

lemma vv_eqI:
  assumes "vv_ok v" "vv_ok w" "\<And>a. vv_get v a = vv_get w a"
  shows "v = w"
proof (rule fmap_ext)
  fix a
  show "fmlookup v a = fmlookup w a"
    using assms(3) [of a] assms(1,2)
    by (auto simp: vv_get_def vv_ok_iff split: option.splits)
qed

lemma fold_Observe:
  "vv_get (fold (\<lambda>(a, c) v. Observe v a c) kvs v) b =
     fold max (map snd (filter (\<lambda>(a, c). a \<noteq> [] \<and> a = b) kvs)) (vv_get v b)"
  by (induction kvs arbitrary: v) (auto simp: vv_get_Observe max.commute split: if_splits)

lemma vv_ok_fold_Observe: "vv_ok v \<Longrightarrow> vv_ok (fold (\<lambda>(a, c) v. Observe v a c) kvs v)"
  by (induction kvs arbitrary: v) auto

lemma filter_range_items:
  assumes "range_order ks m"
  shows "filter (\<lambda>(a, c). a = b) (range_items ks m) =
           (case fmlookup m b of None \<Rightarrow> [] | Some c \<Rightarrow> [(b, c)])"
proof -
  have d: "distinct ks" and s: "set ks = fmdom' m"
    using assms by (auto simp: range_order_def fmdom'_alt_def simp flip: fset_of_list.rep_eq)
  have "filter (\<lambda>a. a = b) ks = (if b \<in> set ks then [b] else [])"
    using d by (induction ks) (auto simp: filter_empty_conv)
  then show ?thesis
    using s by (auto simp: range_items_def filter_map comp_def fmlookup_dom'_iff split: option.splits)
qed

lemma vv_get_Merge_range [vv_simps]:
  assumes "range_order ks w"
  shows "vv_get (Merge_range ks v w) b = (if b = [] then vv_get v b else max (vv_get v b) (vv_get w b))"
proof -
  have "filter (\<lambda>(a, c). a \<noteq> [] \<and> a = b) (range_items ks w) =
        (if b = [] then [] else filter (\<lambda>(a, c). a = b) (range_items ks w))"
    by (auto intro: filter_cong simp: filter_empty_conv)
  then show ?thesis
    by (cases "fmlookup w b")
      (auto simp: Merge_range_def fold_Observe filter_range_items [OF assms] vv_get_def [of w]
        max.commute)
qed

lemma vv_get_Merge [vv_simps]:
  "vv_get (Merge v w) b = (if b = [] then vv_get v b else max (vv_get v b) (vv_get w b))"
  by (simp add: Merge_def vv_get_Merge_range)

lemma vv_ok_Merge_range [simp]: "vv_ok v \<Longrightarrow> vv_ok (Merge_range ks v w)"
  by (simp add: Merge_range_def vv_ok_fold_Observe)

lemma vv_ok_Merge [simp]: "vv_ok v \<Longrightarrow> vv_ok (Merge v w)"
  by (simp add: Merge_def)

lemma Dominates_iff [vv_simps]: "Dominates v w \<longleftrightarrow> (\<forall>a. vv_get w a \<le> vv_get v a)"
proof
  assume dom: "Dominates v w"
  show "\<forall>a. vv_get w a \<le> vv_get v a"
  proof
    fix a
    show "vv_get w a \<le> vv_get v a"
    proof (cases "fmlookup w a")
      case (Some c)
      with dom have "\<not> vv_get v a < c"
        by (auto simp: Dominates_def list_all_iff)
      with Some show ?thesis by (simp add: vv_get_def)
    qed (simp add: vv_get_def)
  qed
next
  assume le: "\<forall>a. vv_get w a \<le> vv_get v a"
  then have "\<And>a c. fmlookup w a = Some c \<Longrightarrow> \<not> vv_get v a < c"
    by (metis not_less option.simps(5) vv_get_def)
  moreover have "\<And>a c. fmlookup v a = Some c \<Longrightarrow> \<not> vv_get w a > c"
    using le by (metis not_less option.simps(5) vv_get_def)
  ultimately show "Dominates v w"
    by (auto simp: Dominates_def list_all_iff)
qed

section \<open>The causal order\<close>

text \<open>A dot is an actor and a counter; it takes part in causal comparison only when both are set.\<close>

definition dot_ok :: "string \<Rightarrow> u64 \<Rightarrow> bool" where
  "dot_ok a c \<longleftrightarrow> a \<noteq> [] \<and> c \<noteq> 0"

lemma compareCausal_pos [vv_simps]:
  "compareCausal a c v b d w > 0 \<longleftrightarrow>
     dot_ok a c \<and> dot_ok b d \<and>
     Dominates (CausalVersion a c v) (CausalVersion b d w) \<and>
     \<not> Dominates (CausalVersion b d w) (CausalVersion a c v)"
  by (auto simp: compareCausal_def dot_ok_def Let_def)

lemma compareCausal_swap: "compareCausal b d w a c v = - compareCausal a c v b d w"
  by (auto simp: compareCausal_def Let_def)

lemma compareCausal_neg [vv_simps]:
  "compareCausal a c v b d w < 0 \<longleftrightarrow> compareCausal b d w a c v > 0"
  using compareCausal_swap [of b d w a c v] by linarith

lemma Dominates_refl [simp]: "Dominates v v"
  by (simp add: Dominates_iff)

lemma Dominates_trans: "Dominates u v \<Longrightarrow> Dominates v w \<Longrightarrow> Dominates u w"
  by (auto simp: Dominates_iff intro: order_trans)

lemma Dominates_antisym: "vv_ok v \<Longrightarrow> vv_ok w \<Longrightarrow> Dominates v w \<Longrightarrow> Dominates w v \<Longrightarrow> v = w"
  by (auto simp: Dominates_iff intro: vv_eqI antisym)

lemma Merge_upper: "Dominates (Merge v w) v" "vv_ok w \<Longrightarrow> Dominates (Merge v w) w"
  by (auto simp: Dominates_iff vv_get_Merge vv_ok_get_Nil)

lemma Merge_least: "Dominates u v \<Longrightarrow> Dominates u w \<Longrightarrow> Dominates u (Merge v w)"
  by (auto simp: Dominates_iff vv_get_Merge)

text \<open>
  C7. The vectors form a join semilattice: \<open>Dominates\<close> is a partial order on well-formed vectors,
  \<open>Merge\<close> is its least upper bound, and ranging over the argument of \<open>Merge\<close> in any order gives the
  same vector.
\<close>
theorem version_vector_join:
  assumes "vv_ok u" "vv_ok v" "vv_ok w" "range_order ks w"
  shows "Dominates v v \<and>
         (Dominates u v \<and> Dominates v w \<longrightarrow> Dominates u w) \<and>
         (Dominates v w \<and> Dominates w v \<longrightarrow> v = w) \<and>
         (Dominates u (Merge v w) \<longleftrightarrow> Dominates u v \<and> Dominates u w) \<and>
         Merge_range ks v w = Merge v w"
proof (intro conjI)
  show "Dominates u v \<and> Dominates v w \<longrightarrow> Dominates u w"
    using Dominates_trans by blast
  show "Dominates v w \<and> Dominates w v \<longrightarrow> v = w"
    using Dominates_antisym assms by blast
  show "Dominates u (Merge v w) \<longleftrightarrow> Dominates u v \<and> Dominates u w"
    using assms Merge_upper Dominates_trans Merge_least by blast
  show "Merge_range ks v w = Merge v w"
    using assms by (auto intro!: vv_eqI simp: vv_get_Merge_range vv_get_Merge)
qed simp

theorem version_vector_join_witness:
  "Dominates (Merge (fmap_of_list [(''a'', 2)]) (fmap_of_list [(''b'', 1)])) (fmap_of_list [(''b'', 1)])"
proof -
  have ok: "vv_ok (fmap_of_list [(''a'', 2)])" "vv_ok (fmap_of_list [(''b'', 1 :: u64)])"
    "range_order [''b''] (fmap_of_list [(''b'', 1 :: u64)])"
    by (simp_all add: vv_ok_iff range_order_def)
  show ?thesis
    using version_vector_join [OF vv_ok_Merge [OF ok(1), of "fmap_of_list [(''b'', 1)]"] ok] by simp
qed

text \<open>
  C8. Where it decides, the causal comparison is a strict order: swapping the arguments flips the
  sign, and \<open>happened after\<close> is transitive.
\<close>
theorem compareCausal_strict_order:
  "compareCausal b d w a c v = - compareCausal a c v b d w \<and>
   compareCausal a c v a c v = 0 \<and>
   (compareCausal a c v b d w > 0 \<and> compareCausal b d w e f x > 0 \<longrightarrow>
    compareCausal a c v e f x > 0)"
proof (intro conjI)
  show "compareCausal b d w a c v = - compareCausal a c v b d w"
    by (rule compareCausal_swap)
  show "compareCausal a c v b d w > 0 \<and> compareCausal b d w e f x > 0 \<longrightarrow>
        compareCausal a c v e f x > 0"
    unfolding compareCausal_pos using Dominates_trans by blast
qed (simp add: compareCausal_def Let_def)

theorem compareCausal_strict_order_witness:
  "compareCausal ''a'' 3 fmempty ''a'' 1 fmempty > 0"
proof -
  have "compareCausal ''a'' 3 fmempty ''a'' 2 fmempty > 0"
    "compareCausal ''a'' 2 fmempty ''a'' 1 fmempty > 0"
    by (auto simp: compareCausal_pos dot_ok_def Dominates_iff CausalVersion_def vv_get_Observe
        word_le_nat_alt split: if_splits)
  then show ?thesis
    using compareCausal_strict_order by blast
qed

end
