(* ===== verification/Kv_Convergence.thy ===== *)
theory Kv_Convergence
  imports Kv_Snapshot
begin

text \<open>
  What \<open>buildSnapshot\<close> of \<open>pkg/kv/snapshot.go\<close> guarantees: it refines one last-writer-wins register
  per key, keeps live and deleted keys apart, makes the snapshot's vector cover every write it
  holds, and converges (any order, any repetition of the entries) as long as the clocks of the
  writes to a key agree with their causality. Without that condition the result does depend on the
  order; the last section exhibits it.
\<close>

section \<open>Versions\<close>

lemma normalize_idem [simp]:
  "effectiveActor (effectiveActor a d) d = effectiveActor a d"
  "effectiveCounter (effectiveCounter c s) s = effectiveCounter c s"
  by (auto simp: effectiveActor_def effectiveCounter_def)

lemma ver_beats_cases [reg_simps]:
  "valueInfoBeats a b = ver_beats (VVal a) (VVal b)"
  "valueBeatsTombstone a t = ver_beats (VVal a) (VTomb t)"
  "tombstoneBeatsValue t a = ver_beats (VTomb t) (VVal a)"
  "tombstoneInfoBeats t u = ver_beats (VTomb t) (VTomb u)"
  by (simp_all add: valueInfoBeats_def valueBeatsTombstone_def tombstoneBeatsValue_def
      tombstoneInfoBeats_def ver_beats_def ver_causal_def clockCompare_pos Let_def)

lemma ver_causal_swap: "ver_causal b a = - ver_causal a b"
  unfolding ver_causal_def by (rule compareCausal_swap)

lemma ver_beats_irrefl [simp]: "\<not> ver_beats a a"
  by (simp add: ver_beats_def ver_causal_def compareCausal_def Let_def)

lemma ver_beats_asym: "ver_beats a b \<Longrightarrow> \<not> ver_beats b a"
  by (auto simp: ver_beats_def ver_causal_swap [of b a] dest: beats_asym split: if_splits)

lemma ver_beats_total: "ver_clock a \<noteq> ver_clock b \<Longrightarrow> ver_beats a b \<or> ver_beats b a"
  using ver_causal_swap [of b a] beats_total [of "ver_clock a" "ver_clock b"]
  by (auto simp: ver_beats_def)

text \<open>
  \<open>clocks_agree vs\<close>: among these writes a causal successor also has the later clock, and a clock
  identifies its write. Honest devices with synchronised clocks satisfy it.
\<close>

definition clocks_agree :: "version list \<Rightarrow> bool" where
  "clocks_agree vs \<longleftrightarrow>
     list_all (\<lambda>a. list_all (\<lambda>b.
       (ver_causal a b > 0 \<longrightarrow> beats (ver_clock a) (ver_clock b)) \<and>
       (ver_clock a = ver_clock b \<longrightarrow> a = b)) vs) vs"

lemma clocks_agree_beats:
  assumes "clocks_agree vs" "a \<in> set vs" "b \<in> set vs"
  shows "ver_beats a b \<longleftrightarrow> beats (ver_clock a) (ver_clock b)"
proof -
  have "ver_causal a b > 0 \<Longrightarrow> beats (ver_clock a) (ver_clock b)"
    "ver_causal b a > 0 \<Longrightarrow> beats (ver_clock b) (ver_clock a)"
    using assms by (auto simp: clocks_agree_def list_all_iff)
  then show ?thesis
    using ver_causal_swap [of b a] beats_asym [of "ver_clock a" "ver_clock b"]
    by (cases "ver_causal a b" "0 :: int" rule: linorder_cases) (auto simp: ver_beats_def)
qed

lemma clocks_agree_order:
  assumes "clocks_agree vs"
  shows "lww_order ver_beats (set vs)"
proof
  fix a b c
  assume "a \<in> set vs" "b \<in> set vs"
  show "\<not> ver_beats a a" by simp
  show "a \<noteq> b \<Longrightarrow> ver_beats a b \<or> ver_beats b a"
    using assms \<open>a \<in> set vs\<close> \<open>b \<in> set vs\<close> ver_beats_total [of a b]
    by (auto simp: clocks_agree_def list_all_iff)
  show "c \<in> set vs \<Longrightarrow> ver_beats a b \<Longrightarrow> ver_beats b c \<Longrightarrow> ver_beats a c"
    using assms \<open>a \<in> set vs\<close> \<open>b \<in> set vs\<close> clocks_agree_beats beats_trans by metis
qed

section \<open>Refinement: one register per key\<close>

lemma kv_disjoint_iff:
  "kv_disjoint s \<longleftrightarrow> (\<forall>k. fmlookup (ks_entries s) k = None \<or> fmlookup (ks_deleted s) k = None)"
proof -
  have "kv_disjoint s \<longleftrightarrow> (\<forall>k. k |\<notin>| fmdom (ks_entries s) \<or> k |\<notin>| fmdom (ks_deleted s))"
    by (auto simp: kv_disjoint_def)
  then show ?thesis
    by (simp add: fmlookup_dom_iff not_Some_eq [symmetric] del: not_Some_eq)
qed

lemma kv_disjoint_start: "(\<And>b. base = Some b \<Longrightarrow> kv_disjoint b) \<Longrightarrow> kv_disjoint (start_snapshot now base)"
  by (cases base) (auto simp: kv_disjoint_iff start_snapshot_def empty_snapshot_def)

lemma writes_Nil [simp]: "writes k [] = []"
  by (simp add: writes_def)

lemma writes_Cons [simp]: "writes k (e # es) = entry_writes k e @ writes k es"
  by (simp add: writes_def)

lemma set_writes: "set (writes k es) = (\<Union>e \<in> set es. set (entry_writes k e))"
  by (simp add: writes_def)

lemma normalizeEntry_sel [simp]:
  "ke_Key (normalizeEntry e) = ke_Key e" "ke_Type (normalizeEntry e) = ke_Type e"
  by (simp_all add: normalizeEntry_def)

lemma apply_entry_reg [reg_simps]:
  assumes "kv_disjoint s"
  shows "kv_reg (apply_entry e s) k =
    lww_fold ver_beats (entry_writes k e) (kv_reg s k)"
  using assms [unfolded kv_disjoint_iff, rule_format, of k]
  by (cases "ke_Type e"; cases "fmlookup (ks_entries s) k"; cases "fmlookup (ks_deleted s) k")
    (auto simp: apply_entry_def entry_writes_def entry_version_def kv_reg_def lww_merge_def
      ver_beats_cases Let_def)

lemma apply_entry_disjoint [simp]: "kv_disjoint s \<Longrightarrow> kv_disjoint (apply_entry e s)"
  by (auto simp: kv_disjoint_iff apply_entry_def Let_def split: EntryType.split option.splits)

lemma fold_apply_disjoint: "kv_disjoint s \<Longrightarrow> kv_disjoint (fold apply_entry es s)"
  by (rule fold_invariant_list) simp_all

lemma fold_apply_reg:
  "kv_disjoint s \<Longrightarrow> kv_reg (fold apply_entry es s) k = lww_fold ver_beats (writes k es) (kv_reg s k)"
proof (induction es arbitrary: s)
  case (Cons e es)
  from Cons.prems have "kv_disjoint (apply_entry e s)" by simp
  from Cons.IH [OF this] show ?case
    using Cons.prems by (simp add: apply_entry_reg lww_fold_append)
qed simp

definition base_reg :: "Snapshot option \<Rightarrow> string \<Rightarrow> version option" where
  "base_reg base k = (case base of None \<Rightarrow> None | Some b \<Rightarrow> kv_reg b k)"

definition base_ok :: "Snapshot option \<Rightarrow> bool" where
  "base_ok base = (case base of None \<Rightarrow> True | Some b \<Rightarrow> kv_disjoint b)"

lemma kv_reg_start: "kv_reg (start_snapshot now base) k = base_reg base k"
  by (cases base) (auto simp: start_snapshot_def empty_snapshot_def kv_reg_def base_reg_def
      option.map_ident split: option.splits)

lemma kv_reg_updated [simp]: "kv_reg (s\<lparr>ks_updated := t\<rparr>) k = kv_reg s k"
  by (simp add: kv_reg_def split: option.split)

lemma kv_disjoint_updated [simp]: "kv_disjoint (s\<lparr>ks_updated := t\<rparr>) = kv_disjoint s"
  by (simp add: kv_disjoint_def)

lemma base_ok_disjoint: "base_ok base \<Longrightarrow> kv_disjoint (start_snapshot now base)"
  by (rule kv_disjoint_start) (simp add: base_ok_def)

lemma buildSnapshot_reg:
  "base_ok base \<Longrightarrow> kv_reg (buildSnapshot now base es) k = lww_fold ver_beats (writes k es) (base_reg base k)"
  using base_ok_disjoint [of base now] by (simp add: buildSnapshot_def fold_apply_reg kv_reg_start)

lemma buildSnapshot_disjoint: "base_ok base \<Longrightarrow> kv_disjoint (buildSnapshot now base es)"
  using base_ok_disjoint [of base now] by (simp add: buildSnapshot_def fold_apply_disjoint)

lemma Lookup_reg: "Lookup s k = (case kv_reg s k of Some (VVal v) \<Rightarrow> Some v | _ \<Rightarrow> None)"
  by (auto simp: Lookup_def kv_reg_def split: option.split)

text \<open>
  C2. \<open>buildSnapshot\<close> implements one last-writer-wins register per key: after replaying any entries
  on any base whose live and deleted keys are disjoint, the register of a key is the base register
  merged with exactly the writes made to that key, in log order, and live and deleted keys are
  still disjoint.
\<close>
theorem buildSnapshot_refines_registers:
  assumes "base_ok base"
  shows "kv_disjoint (buildSnapshot now base es) \<and>
         kv_reg (buildSnapshot now base es) k =
           lww_fold ver_beats (writes k es) (base_reg base k)"
  using assms by (simp add: buildSnapshot_disjoint buildSnapshot_reg)

theorem buildSnapshot_refines_registers_witness:
  "kv_disjoint (buildSnapshot 7 None []) \<and> kv_reg (buildSnapshot 7 None []) ''k'' = None"
  using buildSnapshot_refines_registers [of None 7 "[]" "''k''"]
  by (simp add: base_ok_def base_reg_def)

section \<open>The vector covers the writes\<close>

definition entry_contrib :: "string \<Rightarrow> Entry \<Rightarrow> u64" where
  "entry_contrib b e = (let n = normalizeEntry e in
     if b = [] then 0
     else max (vv_get (ke_Context n) b) (if ke_Actor n = b then ke_Counter n else 0))"

lemma apply_entry_vector:
  "ks_vector (apply_entry e s) =
     (let n = normalizeEntry e in
      Observe (Merge (ks_vector s) (ke_Context n)) (ke_Actor n) (ke_Counter n))"
  by (simp add: apply_entry_def Let_def split: EntryType.split option.split)

lemma vv_get_apply_entry:
  "vv_get (ks_vector (apply_entry e s)) b = max (vv_get (ks_vector s) b) (entry_contrib b e)"
  by (auto simp: apply_entry_vector Let_def vv_get_Observe vv_get_Merge entry_contrib_def max.assoc)

lemma vv_get_fold_apply:
  "vv_get (ks_vector (fold apply_entry es s)) b = fold max (map (entry_contrib b) es) (vv_get (ks_vector s) b)"
  by (induction es arbitrary: s) (simp_all add: vv_get_apply_entry max.commute)

lemma vv_ok_apply_entry: "vv_ok (ks_vector s) \<Longrightarrow> vv_ok (ks_vector (apply_entry e s))"
  by (simp add: apply_entry_vector Let_def)

lemma vv_ok_fold_apply: "vv_ok (ks_vector s) \<Longrightarrow> vv_ok (ks_vector (fold apply_entry es s))"
  by (rule fold_invariant_list) (simp_all add: vv_ok_apply_entry)

lemma fold_max_set_cong:
  fixes x :: "'a::linorder"
  assumes "set xs = set ys"
  shows "fold max xs x = fold max ys x"
proof -
  have "fold max xs x = Max (insert x (set xs))"
    by (metis Max.set_eq_fold list.simps(15))
  also have "\<dots> = fold max ys x"
    by (metis Max.set_eq_fold assms list.simps(15))
  finally show ?thesis .
qed

text \<open>The invariant: every version held is below the vector, and the vector is well formed.\<close>

definition kv_covered :: "Snapshot \<Rightarrow> bool" where
  "kv_covered s \<longleftrightarrow> vv_ok (ks_vector s) \<and> kv_disjoint s \<and>
     (\<forall>k v. kv_reg s k = Some v \<longrightarrow> Dominates (ks_vector s) (ver_full v))"

lemma Dominates_apply_entry: "Dominates (ks_vector (apply_entry e s)) (ks_vector s)"
  by (simp add: Dominates_iff vv_get_apply_entry)

lemma entry_version_fields:
  assumes "entry_version e = Some v"
  shows "ver_actor v = ke_Actor (normalizeEntry e)" "ver_counter v = ke_Counter (normalizeEntry e)"
    "ver_context v = ke_Context (normalizeEntry e)"
  using assms
  by (auto simp: entry_version_def Let_def value_of_entry_def tombstone_of_entry_def
      normalizeEntry_def split: EntryType.splits)

lemma Dominates_entry_version:
  assumes "vv_ok (ke_Context e)" "entry_version e = Some v"
  shows "Dominates (ks_vector (apply_entry e s)) (ver_full v)"
proof -
  have "vv_get (ver_full v) b \<le> entry_contrib b e" for b
    using entry_version_fields [OF assms(2)] vv_ok_get_Nil [OF assms(1)]
    by (auto simp: ver_full_def CausalVersion_def vv_get_Observe entry_contrib_def Let_def normalizeEntry_def)
  then show ?thesis
    unfolding Dominates_iff vv_get_apply_entry by (simp add: max.coboundedI2)
qed

lemma apply_entry_covered:
  assumes "kv_covered s" "vv_ok (ke_Context e)"
  shows "kv_covered (apply_entry e s)"
  unfolding kv_covered_def
proof (intro conjI allI impI)
  show "vv_ok (ks_vector (apply_entry e s))" "kv_disjoint (apply_entry e s)"
    using assms by (simp_all add: kv_covered_def vv_ok_apply_entry)
  fix k v
  assume "kv_reg (apply_entry e s) k = Some v"
  then have "kv_reg s k = Some v \<or> entry_version e = Some v"
    using assms(1) lww_fold_mem [of ver_beats "entry_writes k e" "kv_reg s k" v]
    by (cases "ke_Key e = k") (auto simp: kv_covered_def apply_entry_reg entry_writes_def)
  then show "Dominates (ks_vector (apply_entry e s)) (ver_full v)"
    using assms Dominates_apply_entry Dominates_entry_version Dominates_trans
    unfolding kv_covered_def by blast
qed

lemma fold_apply_covered:
  "kv_covered s \<Longrightarrow> list_all (\<lambda>e. vv_ok (ke_Context e)) es \<Longrightarrow> kv_covered (fold apply_entry es s)"
  by (rule fold_invariant_list) (auto simp: apply_entry_covered list_all_iff)

lemma kv_covered_empty: "kv_covered (empty_snapshot now)"
  by (simp add: kv_covered_def empty_snapshot_def kv_disjoint_def kv_reg_def)

lemma kv_covered_updated [simp]: "kv_covered (s\<lparr>ks_updated := t\<rparr>) = kv_covered s"
  by (simp add: kv_covered_def)

lemma start_snapshot_vector: "ks_vector (start_snapshot now (Some b)) = ks_vector b"
  by (simp add: start_snapshot_def empty_snapshot_def)

lemma start_snapshot_covered:
  "(\<And>b. base = Some b \<Longrightarrow> kv_covered b) \<Longrightarrow> kv_covered (start_snapshot now base)"
proof (cases base)
  case None
  then show ?thesis by (simp add: start_snapshot_def kv_covered_empty)
next
  case (Some b)
  assume cov: "\<And>b. base = Some b \<Longrightarrow> kv_covered b"
  have b: "kv_covered b" using cov Some by simp
  then have "kv_disjoint (start_snapshot now (Some b))"
    by (simp add: base_ok_disjoint base_ok_def kv_covered_def)
  with b Some show ?thesis
    by (simp add: kv_covered_def kv_reg_start base_reg_def start_snapshot_vector)
qed

text \<open>
  C6. The snapshot's causal summary is sound: starting from nothing or from a covered base, if the
  contexts of the entries are well-formed vectors, then the vector of the built snapshot dominates
  the full causal version of every value and tombstone the snapshot holds.
\<close>
theorem buildSnapshot_vector_covers:
  assumes "\<And>b. base = Some b \<Longrightarrow> kv_covered b"
    and "list_all (\<lambda>e. vv_ok (ke_Context e)) es"
    and "kv_reg (buildSnapshot now base es) k = Some v"
  shows "Dominates (ks_vector (buildSnapshot now base es)) (ver_full v)"
proof -
  have "kv_covered (buildSnapshot now base es)"
    using fold_apply_covered [OF start_snapshot_covered assms(2)] assms(1)
    by (simp add: buildSnapshot_def)
  then show ?thesis using assms(3) by (simp add: kv_covered_def)
qed

abbreviation example_set :: "Entry" where
  "example_set \<equiv> \<lparr>ke_Type = KvSet, ke_Key = ''k'', ke_Value = [1], ke_Namespace = [],
     ke_Device = ''A'', ke_Timestamp = 5, ke_Seq = 1, ke_Actor = ''A'', ke_Counter = 1,
     ke_Context = fmempty\<rparr>"

theorem buildSnapshot_vector_covers_witness:
  "\<exists>v. kv_reg (buildSnapshot 9 None [example_set]) ''k'' = Some v \<and>
       Dominates (ks_vector (buildSnapshot 9 None [example_set])) (ver_full v)"
proof -
  obtain v where v: "kv_reg (buildSnapshot 9 None [example_set]) ''k'' = Some v"
    by (simp add: buildSnapshot_def start_snapshot_def empty_snapshot_def apply_entry_def Let_def
        normalizeEntry_def kv_reg_def)
  with buildSnapshot_vector_covers [of None "[example_set]" 9 "''k''" v] show ?thesis
    by simp
qed

section \<open>Convergence\<close>

lemma snapshot_eqI:
  assumes "kv_disjoint s" "kv_disjoint t" "\<And>k. kv_reg s k = kv_reg t k"
    and "ks_vector s = ks_vector t" "ks_created s = ks_created t" "ks_updated s = ks_updated t"
  shows "s = t"
proof -
  have "fmlookup (ks_entries s) k = fmlookup (ks_entries t) k \<and>
        fmlookup (ks_deleted s) k = fmlookup (ks_deleted t) k" for k
    using assms(3) [of k] assms(1,2) [unfolded kv_disjoint_iff, rule_format, of k]
    by (cases "fmlookup (ks_entries s) k"; cases "fmlookup (ks_deleted s) k";
        cases "fmlookup (ks_entries t) k"; cases "fmlookup (ks_deleted t) k")
      (auto simp: kv_reg_def)
  then have "ks_entries s = ks_entries t" "ks_deleted s = ks_deleted t"
    by (auto intro: fmap_ext)
  with assms show ?thesis by simp
qed

lemma fold_apply_created [simp]: "ks_created (fold apply_entry es s) = ks_created s"
proof (induction es arbitrary: s)
  case (Cons e es)
  have "ks_created (apply_entry e s) = ks_created s"
    by (simp add: apply_entry_def Let_def split: EntryType.split option.split)
  with Cons show ?case by simp
qed simp

text \<open>
  C1. Convergence. Two replicas that start from the same base and replay the same set of entries, in
  any order and with any repetitions, build the same snapshot, provided that for every key the
  clocks of its writes (with the base's) agree with their causality.
\<close>
theorem buildSnapshot_convergence:
  assumes "set es = set fs"
    and "base_ok base" and "\<And>b. base = Some b \<Longrightarrow> vv_ok (ks_vector b)"
    and "\<And>k. clocks_agree (writes k es @ option_list (base_reg base k))"
  shows "buildSnapshot now base es = buildSnapshot now base fs"
proof (rule snapshot_eqI)
  let ?s = "start_snapshot now base"
  show "kv_disjoint (buildSnapshot now base es)" "kv_disjoint (buildSnapshot now base fs)"
    using assms(2) by (simp_all add: buildSnapshot_disjoint)
  show "kv_reg (buildSnapshot now base es) k = kv_reg (buildSnapshot now base fs) k" for k
  proof -
    have same: "set (writes k es) = set (writes k fs)"
      using assms(1) by (simp add: set_writes)
    have "lww_fold ver_beats (writes k es) (base_reg base k) =
          lww_fold ver_beats (writes k fs) (base_reg base k)"
      by (rule lww_order.fold_set_cong [OF clocks_agree_order [OF assms(4) [of k]]])
        (simp_all add: same)
    then show ?thesis
      using assms(2) by (simp add: buildSnapshot_reg)
  qed
  have ok: "vv_ok (ks_vector ?s)"
    using assms(3) by (cases base) (simp_all add: start_snapshot_def empty_snapshot_def)
  have "vv_get (ks_vector (fold apply_entry es ?s)) b = vv_get (ks_vector (fold apply_entry fs ?s)) b" for b
    unfolding vv_get_fold_apply by (rule fold_max_set_cong) (simp add: assms(1))
  then show "ks_vector (buildSnapshot now base es) = ks_vector (buildSnapshot now base fs)"
    by (auto simp: buildSnapshot_def ok vv_ok_fold_apply intro: vv_eqI)
qed (simp_all add: buildSnapshot_def)

text \<open>Three writes to one key: \<open>B\<close> has seen \<open>A\<close>'s write but its wall clock runs behind, \<open>C\<close> is concurrent.\<close>

definition skewed_A :: Entry where
  "skewed_A = \<lparr>ke_Type = KvSet, ke_Key = ''k'', ke_Value = [1], ke_Namespace = [], ke_Device = ''A'',
     ke_Timestamp = 10, ke_Seq = 1, ke_Actor = ''A'', ke_Counter = 1, ke_Context = fmap_of_list []\<rparr>"

definition skewed_B :: Entry where
  "skewed_B = \<lparr>ke_Type = KvSet, ke_Key = ''k'', ke_Value = [2], ke_Namespace = [], ke_Device = ''B'',
     ke_Timestamp = 5, ke_Seq = 1, ke_Actor = ''B'', ke_Counter = 1, ke_Context = fmap_of_list [(''A'', 1)]\<rparr>"

definition skewed_C :: Entry where
  "skewed_C = \<lparr>ke_Type = KvSet, ke_Key = ''k'', ke_Value = [3], ke_Namespace = [], ke_Device = ''C'',
     ke_Timestamp = 7, ke_Seq = 1, ke_Actor = ''C'', ke_Counter = 1, ke_Context = fmap_of_list []\<rparr>"

lemma writes_other: "list_all (\<lambda>e. ke_Key e \<noteq> k) es \<Longrightarrow> writes k es = []"
  by (induction es) (simp_all add: entry_writes_def)

theorem buildSnapshot_convergence_witness:
  "buildSnapshot 0 None [skewed_A, skewed_C, skewed_A] = buildSnapshot 0 None [skewed_C, skewed_A]"
proof (rule buildSnapshot_convergence)
  fix k
  show "clocks_agree (writes k [skewed_A, skewed_C, skewed_A] @ option_list (base_reg None k))"
  proof (cases "k = ''k''")
    case True
    have "clocks_agree (writes ''k'' [skewed_A, skewed_C, skewed_A] @ option_list (base_reg None ''k''))"
      by code_simp
    with True show ?thesis by simp
  next
    case False
    then show ?thesis
      by (simp add: entry_writes_def skewed_A_def skewed_C_def base_reg_def clocks_agree_def)
  qed
qed (auto simp: base_ok_def)

text \<open>
  The condition of convergence is needed. Replaying the same three writes to one key in two orders
  gives two different values: \<open>B\<close> overwrote \<open>A\<close> causally, \<open>C\<close> beats \<open>B\<close> by wall clock and \<open>A\<close> beats
  \<open>C\<close> by wall clock, so the comparison is cyclic. The comment on \<open>buildSnapshot\<close> that the processing
  order is irrelevant does not hold for skewed clocks.
\<close>
lemma buildSnapshot_order_matters_under_skew:
  "set [skewed_A, skewed_B, skewed_C] = set [skewed_B, skewed_C, skewed_A] \<and>
   map_option vi_Value (Lookup (buildSnapshot now None [skewed_A, skewed_B, skewed_C]) ''k'') = Some [3] \<and>
   map_option vi_Value (Lookup (buildSnapshot now None [skewed_B, skewed_C, skewed_A]) ''k'') = Some [1]"
proof -
  have irr: "Lookup (buildSnapshot now None es) k = Lookup (buildSnapshot 0 None es) k" for es k
    by (simp add: Lookup_reg buildSnapshot_reg base_ok_def)
  have "map_option vi_Value (Lookup (buildSnapshot 0 None [skewed_A, skewed_B, skewed_C]) ''k'') = Some [3]"
    "map_option vi_Value (Lookup (buildSnapshot 0 None [skewed_B, skewed_C, skewed_A]) ''k'') = Some [1]"
    by code_simp+
  then show ?thesis using irr by auto
qed

end
