(* ===== verification/Kv_Log.thy ===== *)
theory Kv_Log
  imports Kv_Convergence
begin

text \<open>
  The local operations log of \<open>pkg/kv/local.go\<close>: a JSONL file with a cached snapshot and the
  device's sequence counter. The file is a list of lines (\<open>None\<close> when it does not exist); a line is
  a JSON document, an empty line, or bytes that do not parse. The outcome of each file operation is
  an argument, so that every error return of the source is a branch here; an operation returns the
  new state together with its error, because a failing call can already have advanced the counter or
  filled the cache. A failed write is taken to leave the file as it was.
\<close>

section \<open>The wire form of an entry\<close>

fun type_to_string :: "EntryType \<Rightarrow> string" where
  "type_to_string KvSet = ''set''"
| "type_to_string KvDelete = ''delete''"
| "type_to_string (KvOther s) = s"

definition type_of_string :: "string \<Rightarrow> EntryType" where
  "type_of_string s = (if s = ''set'' then KvSet else if s = ''delete'' then KvDelete else KvOther s)"

definition enc_vector :: "u64 \<Rightarrow> json" where
  "enc_vector c = JInt (uint c)"

definition dec_vector :: "json option \<Rightarrow> VersionVector option" where
  "dec_vector j = dec_map (\<lambda>j. dec_u64 (Some j)) j"

definition entry_to_json :: "Entry \<Rightarrow> json" where
  "entry_to_json e = JObj (
     [(''op'', jstr (type_to_string (ke_Type e))), (''key'', jstr (ke_Key e))]
     @ omit_bytes ''value'' (ke_Value e)
     @ omit_string ''namespace'' (ke_Namespace e)
     @ [(''device'', jstr (ke_Device e)), (''timestamp'', JInt (ke_Timestamp e)),
        (''seq'', JInt (ke_Seq e))]
     @ omit_string ''actor'' (ke_Actor e)
     @ omit_int ''counter'' (uint (ke_Counter e))
     @ omit_map ''context'' enc_vector (ke_Context e))"

definition entry_of_fields :: "(string \<times> json) list \<Rightarrow> Entry option" where
  "entry_of_fields obj = do {
     ty \<leftarrow> dec_string (jget obj ''op'');
     key \<leftarrow> dec_string (jget obj ''key'');
     val \<leftarrow> dec_bytes (jget obj ''value'');
     ns \<leftarrow> dec_string (jget obj ''namespace'');
     dev \<leftarrow> dec_string (jget obj ''device'');
     ts \<leftarrow> dec_int (jget obj ''timestamp'');
     sq \<leftarrow> dec_int (jget obj ''seq'');
     act \<leftarrow> dec_string (jget obj ''actor'');
     ctr \<leftarrow> dec_u64 (jget obj ''counter'');
     ctx \<leftarrow> dec_vector (jget obj ''context'');
     Some \<lparr>ke_Type = type_of_string ty, ke_Key = key, ke_Value = val, ke_Namespace = ns,
       ke_Device = dev, ke_Timestamp = ts, ke_Seq = sq, ke_Actor = act, ke_Counter = ctr,
       ke_Context = ctx\<rparr> }"

fun entry_of_json :: "json \<Rightarrow> Entry option" where
  "entry_of_json (JObj obj) = entry_of_fields obj"
| "entry_of_json JNull = entry_of_fields []"
| "entry_of_json _ = None"

text \<open>
  What the wire form can carry: \<open>int64\<close> numbers, valid UTF-8 strings (\<open>json.Marshal\<close> replaces other
  bytes), and no second spelling of a known type.
\<close>

definition entry_ok :: "Entry \<Rightarrow> bool" where
  "entry_ok e \<longleftrightarrow> int64_ok (ke_Timestamp e) \<and> int64_ok (ke_Seq e) \<and>
     type_of_string (type_to_string (ke_Type e)) = ke_Type e \<and>
     list_all utf8_valid [type_to_string (ke_Type e), ke_Key e, ke_Namespace e, ke_Device e, ke_Actor e] \<and>
     keys_utf8 (ke_Context e)"

lemma dec_enc_vector [simp]: "keys_utf8 v \<Longrightarrow> dec_vector (Some (enc_map enc_vector v)) = Some v"
  unfolding dec_vector_def by (rule dec_enc_map) (simp_all only: enc_vector_def dec_u64_uint)

lemma dec_vector_None [simp]: "dec_vector None = Some fmempty"
  by (simp add: dec_vector_def)

lemma dec_vector_omitted [simp]:
  "keys_utf8 v \<Longrightarrow> dec_vector (if v = fmempty then None else Some (enc_map enc_vector v)) = Some v"
  by simp

lemma entry_json_rt: "entry_ok e \<Longrightarrow> entry_of_json (entry_to_json e) = Some e"
  by (simp add: entry_to_json_def entry_of_fields_def entry_ok_def)

text \<open>
  C9. An entry survives the log: decoding the JSON line that \<open>appendToFile\<close> writes gives the entry
  back, although \<open>omitempty\<close> drops its zero fields.
\<close>
theorem entry_json_roundtrip:
  assumes "entry_ok e"
  shows "entry_of_json (entry_to_json e) = Some e"
  using assms by (rule entry_json_rt)

theorem entry_json_roundtrip_witness:
  "entry_of_json (entry_to_json skewed_B) = Some skewed_B"
  by (rule entry_json_roundtrip) code_simp

section \<open>The log\<close>

record LocalLog =
  ll_deviceID :: string
  ll_actorID :: string
  ll_cache :: "Snapshot option"
  ll_seq :: int
  ll_file :: "line list option"

definition NewLocalLogWithActor :: "line list option \<Rightarrow> string \<Rightarrow> string \<Rightarrow> LocalLog" where
  "NewLocalLogWithActor file deviceID actorID =
     \<lparr>ll_deviceID = deviceID,
      ll_actorID = (if actorID = [] then deviceID else actorID),
      ll_cache = None, ll_seq = 0, ll_file = file\<rparr>"

definition NewLocalLog :: "line list option \<Rightarrow> string \<Rightarrow> LocalLog" where
  "NewLocalLog file deviceID = NewLocalLogWithActor file deviceID deviceID"

text \<open>\<open>io = None\<close> means that the file operations of the call succeed.\<close>

definition appendToFile :: "log_error option \<Rightarrow> Entry \<Rightarrow> LocalLog \<Rightarrow> LocalLog \<times> log_error option" where
  "appendToFile io entry l = (case io of
      Some err \<Rightarrow> (l, Some err)
    | None \<Rightarrow> (l\<lparr>ll_file := Some ((case ll_file l of None \<Rightarrow> [] | Some ls \<Rightarrow> ls)
               @ [JsonLine (entry_to_json entry)])\<rparr>, None))"

fun decode_line :: "line \<Rightarrow> Entry list" where
  "decode_line EmptyLine = []"
| "decode_line CorruptLine = []"
| "decode_line (JsonLine j) = (case entry_of_json j of None \<Rightarrow> [] | Some e \<Rightarrow> [e])"

definition file_entries :: "line list option \<Rightarrow> Entry list" where
  "file_entries f = (case f of None \<Rightarrow> [] | Some ls \<Rightarrow> concat (map decode_line ls))"

definition readAllLocked :: "log_error option \<Rightarrow> LocalLog \<Rightarrow> log_error + Entry list" where
  "readAllLocked io l = (case ll_file l of
      None \<Rightarrow> Inr []
    | Some ls \<Rightarrow> (case io of Some err \<Rightarrow> Inl err | None \<Rightarrow> Inr (file_entries (ll_file l))))"

text \<open>The sequence counter after reading: the highest own sequence number seen, never lowered.\<close>

definition own_seq :: "string \<Rightarrow> Entry list \<Rightarrow> int \<Rightarrow> int" where
  "own_seq dev es sq =
     fold (\<lambda>e s. if ke_Device e = dev \<and> ke_Seq e > s then ke_Seq e else s) es sq"

definition rebuildLocked :: "int \<Rightarrow> log_error option \<Rightarrow> LocalLog \<Rightarrow> LocalLog \<times> (log_error + Snapshot)" where
  "rebuildLocked now io l = (case readAllLocked io l of
      Inl err \<Rightarrow> (l, Inl err)
    | Inr entries \<Rightarrow>
        (let s = buildSnapshot now None entries in
         (l\<lparr>ll_cache := Some s, ll_seq := own_seq (ll_deviceID l) entries (ll_seq l)\<rparr>, Inr s)))"

definition Snapshot_of :: "int \<Rightarrow> log_error option \<Rightarrow> LocalLog \<Rightarrow> LocalLog \<times> (log_error + Snapshot)" where
  "Snapshot_of now io l = (case ll_cache l of Some s \<Rightarrow> (l, Inr s) | None \<Rightarrow> rebuildLocked now io l)"

definition log_Lookup :: "int \<Rightarrow> log_error option \<Rightarrow> LocalLog \<Rightarrow> string \<Rightarrow> LocalLog \<times> ValueInfo option" where
  "log_Lookup now io l key = (case Snapshot_of now io l of
      (l', Inl _) \<Rightarrow> (l', None)
    | (l', Inr s) \<Rightarrow> (l', Lookup s key))"

definition Append :: "int \<Rightarrow> log_error option \<Rightarrow> Entry \<Rightarrow> LocalLog \<Rightarrow> LocalLog \<times> log_error option" where
  "Append now io entry l = (case appendToFile io entry l of
      (l1, Some err) \<Rightarrow> (l1, Some err)
    | (l1, None) \<Rightarrow>
        (case ll_cache l1 of
           None \<Rightarrow> (l1, None)
         | Some c \<Rightarrow> (l1\<lparr>ll_cache := Some (buildSnapshot now (Some c) [entry])\<rparr>, None)))"

text \<open>The fields \<open>AppendLocal\<close> stamps on the caller's entry.\<close>

definition stamp_local :: "int \<Rightarrow> VersionVector \<Rightarrow> int \<Rightarrow> LocalLog \<Rightarrow> Entry \<Rightarrow> Entry" where
  "stamp_local now ctx sq l entry = entry\<lparr>
     ke_Device := ll_deviceID l,
     ke_Actor := ll_actorID l,
     ke_Timestamp := (if ke_Timestamp entry = 0 then now else ke_Timestamp entry),
     ke_Seq := sq,
     ke_Counter := word_of_int sq,
     ke_Context := ctx\<rparr>"

definition AppendLocal ::
  "int \<Rightarrow> log_error option \<Rightarrow> log_error option \<Rightarrow> Entry \<Rightarrow> LocalLog \<Rightarrow> LocalLog \<times> log_error option" where
  "AppendLocal now rd wr entry l =
     (case (case ll_cache l of Some c \<Rightarrow> (l, Inr c) | None \<Rightarrow> rebuildLocked now rd l) of
        (l0, Inl err) \<Rightarrow> (l0, Some err)
      | (l0, Inr c) \<Rightarrow>
          (let ctx = Clone (ks_vector c);
               sq = int64_wrap (ll_seq l0 + 1);
               l1 = l0\<lparr>ll_seq := sq\<rparr>;
               e = stamp_local now ctx sq l1 entry
           in case appendToFile wr e l1 of
                (l2, Some err) \<Rightarrow> (l2, Some err)
              | (l2, None) \<Rightarrow> (l2\<lparr>ll_cache := Some (buildSnapshot now (Some c) [e])\<rparr>, None)))"

definition InvalidateCache :: "LocalLog \<Rightarrow> LocalLog" where
  "InvalidateCache l = l\<lparr>ll_cache := None\<rparr>"

definition set_entry :: "string \<Rightarrow> ValueInfo \<Rightarrow> Entry" where
  "set_entry key vi = \<lparr>ke_Type = KvSet, ke_Key = key, ke_Value = vi_Value vi, ke_Namespace = [],
     ke_Device = vi_Device vi, ke_Timestamp = vi_Modified vi, ke_Seq = vi_Seq vi,
     ke_Actor = vi_Actor vi, ke_Counter = vi_Counter vi, ke_Context = Clone (vi_Context vi)\<rparr>"

definition delete_entry :: "string \<Rightarrow> TombstoneInfo \<Rightarrow> Entry" where
  "delete_entry key tomb = \<lparr>ke_Type = KvDelete, ke_Key = key, ke_Value = [], ke_Namespace = [],
     ke_Device = kt_Device tomb, ke_Timestamp = kt_Modified tomb, ke_Seq = kt_Seq tomb,
     ke_Actor = kt_Actor tomb, ke_Counter = kt_Counter tomb, ke_Context = Clone (kt_Context tomb)\<rparr>"

text \<open>The lines \<open>Compact\<close> writes, for the order in which it ranges over the two maps.\<close>

definition compact_entries :: "string list \<Rightarrow> string list \<Rightarrow> Snapshot \<Rightarrow> Entry list" where
  "compact_entries ks ds s =
     map (\<lambda>(key, vi). set_entry key vi) (range_items ks (ks_entries s)) @
     map (\<lambda>(key, tomb). delete_entry key tomb) (range_items ds (ks_deleted s))"

text \<open>\<open>io\<close> is the first failure of creating, writing or renaming the temporary file.\<close>

definition Compact ::
  "int \<Rightarrow> log_error option \<Rightarrow> log_error option \<Rightarrow> string list \<Rightarrow> string list \<Rightarrow> LocalLog
    \<Rightarrow> LocalLog \<times> log_error option" where
  "Compact now rd io ks ds l =
     (case (case ll_cache l of Some c \<Rightarrow> (l, Inr c) | None \<Rightarrow> rebuildLocked now rd l) of
        (l0, Inl err) \<Rightarrow> (l0, Some err)
      | (l0, Inr c) \<Rightarrow>
          (case io of
             Some err \<Rightarrow> (l0, Some err)
           | None \<Rightarrow> (l0\<lparr>ll_file := Some (map (JsonLine \<circ> entry_to_json) (compact_entries ks ds c)),
                        ll_cache := None\<rparr>, None)))"

end
