(* ===== verification/Kv_Log_Props.thy ===== *)
theory Kv_Log_Props
  imports Kv_Log
begin

text \<open>
  Correctness of the local log of \<open>pkg/kv/local.go\<close>. The log is a state machine (\<open>log_step\<close>); in
  every reachable state the cached snapshot is the one a replay of the file would build (so the
  incremental update, crash recovery and a cold start agree), \<open>Compact\<close> keeps the register of every
  key whatever order it ranges in, and a local write is visible to the writer as long as the
  sequence counter is ahead of every dot of its own actor.
\<close>

section \<open>Equal state\<close>

definition same_state :: "Snapshot \<Rightarrow> Snapshot \<Rightarrow> bool" where
  "same_state s t \<longleftrightarrow> ks_entries s = ks_entries t \<and> ks_deleted s = ks_deleted t \<and> ks_vector s = ks_vector t"

lemma same_state_refl [simp]: "same_state s s"
  by (simp add: same_state_def)

lemma same_state_sym: "same_state s t \<Longrightarrow> same_state t s"
  by (simp add: same_state_def)

lemma same_state_trans: "same_state s t \<Longrightarrow> same_state t u \<Longrightarrow> same_state s u"
  by (simp add: same_state_def)

lemma same_state_reg: "same_state s t \<Longrightarrow> kv_reg s k = kv_reg t k"
  by (simp add: same_state_def kv_reg_def split: option.split)

lemma same_state_disjoint: "same_state s t \<Longrightarrow> kv_disjoint s = kv_disjoint t"
  by (simp add: same_state_def kv_disjoint_def)

lemma same_stateI:
  assumes "kv_disjoint s" "kv_disjoint t" "\<And>k. kv_reg s k = kv_reg t k" "ks_vector s = ks_vector t"
  shows "same_state s t"
proof -
  let ?t = "t\<lparr>ks_created := ks_created s, ks_updated := ks_updated s\<rparr>"
  have "s = ?t"
    by (rule snapshot_eqI)
      (use assms in \<open>simp_all add: kv_disjoint_def kv_reg_def cong: option.case_cong\<close>)
  then have "ks_entries s = ks_entries ?t" "ks_deleted s = ks_deleted ?t" "ks_vector s = ks_vector ?t"
    by auto
  then show ?thesis by (simp add: same_state_def)
qed

lemma build_disjoint [simp]: "kv_disjoint (buildSnapshot now None es)"
  by (simp add: buildSnapshot_disjoint base_ok_def)

lemma build_reg: "kv_reg (buildSnapshot now None es) k = lww_fold ver_beats (writes k es) None"
  by (simp add: buildSnapshot_reg base_ok_def base_reg_def)

lemma writes_append [simp]: "writes k (es @ fs) = writes k es @ writes k fs"
  by (simp add: writes_def)

lemma vv_ok_build [simp]: "vv_ok (ks_vector (buildSnapshot now None es))"
  by (simp add: buildSnapshot_def vv_ok_fold_apply start_snapshot_def empty_snapshot_def)

lemma vv_get_build_None:
  "vv_get (ks_vector (buildSnapshot now None es)) b = fold max (map (entry_contrib b) es) 0"
  by (simp add: buildSnapshot_def vv_get_fold_apply start_snapshot_def empty_snapshot_def)

text \<open>Updating a cached snapshot with new entries is the same as replaying all of them.\<close>

lemma incremental_build:
  assumes "same_state c (buildSnapshot m None fs)"
  shows "same_state (buildSnapshot now (Some c) es) (buildSnapshot n None (fs @ es))"
proof (rule same_stateI)
  have dis: "kv_disjoint c" using same_state_disjoint [OF assms] by simp
  then have ok: "base_ok (Some c)" by (simp add: base_ok_def)
  show "kv_disjoint (buildSnapshot now (Some c) es)" by (rule buildSnapshot_disjoint [OF ok])
  show "kv_reg (buildSnapshot now (Some c) es) k = kv_reg (buildSnapshot n None (fs @ es)) k" for k
    using same_state_reg [OF assms, of k]
    by (simp add: buildSnapshot_reg [OF ok] base_reg_def build_reg lww_fold_append)
  have vec: "ks_vector c = ks_vector (buildSnapshot m None fs)"
    using assms by (simp add: same_state_def)
  show "ks_vector (buildSnapshot now (Some c) es) = ks_vector (buildSnapshot n None (fs @ es))"
  proof (rule vv_eqI)
    show "vv_ok (ks_vector (buildSnapshot now (Some c) es))"
    proof -
      have "vv_ok (ks_vector c)" by (simp add: vec)
      then show ?thesis by (simp add: buildSnapshot_def start_snapshot_vector vv_ok_fold_apply)
    qed
    fix b
    have "vv_get (ks_vector (buildSnapshot now (Some c) es)) b =
          fold max (map (entry_contrib b) es) (vv_get (ks_vector c) b)"
      by (simp add: buildSnapshot_def vv_get_fold_apply start_snapshot_vector)
    then show "vv_get (ks_vector (buildSnapshot now (Some c) es)) b =
               vv_get (ks_vector (buildSnapshot n None (fs @ es))) b"
      by (simp add: vec vv_get_build_None)
  qed simp
qed simp

lemma build_now_irrelevant: "same_state (buildSnapshot n None es) (buildSnapshot m None es)"
  by (rule same_stateI) (auto simp: build_reg vv_get_build_None intro: vv_eqI)

section \<open>The file\<close>

lemma file_entries_append:
  "entry_ok e \<Longrightarrow> file_entries (Some (ls @ [JsonLine (entry_to_json e)])) = file_entries (Some ls) @ [e]"
  by (simp add: file_entries_def entry_json_rt)

lemma file_entries_JsonLines:
  "list_all entry_ok es \<Longrightarrow> file_entries (Some (map (JsonLine \<circ> entry_to_json) es)) = es"
  by (induction es) (simp_all add: file_entries_def entry_json_rt)

lemma appendToFile_entries:
  assumes "entry_ok e" "appendToFile io e l = (l', None)"
  shows "file_entries (ll_file l') = file_entries (ll_file l) @ [e]"
    and "ll_cache l' = ll_cache l" "ll_seq l' = ll_seq l"
    "ll_deviceID l' = ll_deviceID l" "ll_actorID l' = ll_actorID l"
  using assms file_entries_append [of e "[]"] file_entries_append [of e "the (ll_file l)"]
  by (auto simp: appendToFile_def file_entries_def split: option.splits)

lemma appendToFile_error: "appendToFile io e l = (l', Some err) \<Longrightarrow> l' = l"
  by (simp add: appendToFile_def split: option.splits)

section \<open>Versions that come from well-formed entries\<close>

definition ver_normal :: "version \<Rightarrow> bool" where
  "ver_normal v = (case v of
      VVal x \<Rightarrow> ver_actor v = vi_Actor x \<and> ver_counter v = vi_Counter x
    | VTomb t \<Rightarrow> ver_actor v = kt_Actor t \<and> ver_counter v = kt_Counter t)"

definition ver_entry :: "string \<Rightarrow> version \<Rightarrow> Entry" where
  "ver_entry k v = (case v of VVal x \<Rightarrow> set_entry k x | VTomb t \<Rightarrow> delete_entry k t)"

lemma entry_version_normal: "entry_version e = Some v \<Longrightarrow> ver_normal v"
  by (auto simp: entry_version_def ver_normal_def Let_def normalizeEntry_def value_of_entry_def
      tombstone_of_entry_def split: EntryType.splits)

lemma entry_version_ver_entry:
  assumes "ver_normal v"
  shows "entry_version (ver_entry k v) = Some v"
  using assms
  by (cases v) (simp_all add: ver_entry_def entry_version_def set_entry_def delete_entry_def Let_def
      normalizeEntry_def value_of_entry_def tombstone_of_entry_def ver_normal_def)

lemma ke_Key_ver_entry [simp]: "ke_Key (ver_entry k v) = k"
  by (simp add: ver_entry_def set_entry_def delete_entry_def split: version.split)

lemma utf8_effectiveActor: "utf8_valid a \<Longrightarrow> utf8_valid d \<Longrightarrow> utf8_valid (effectiveActor a d)"
  by (simp add: effectiveActor_def)

lemma utf8_type_names [simp]: "utf8_valid ''set''" "utf8_valid ''delete''"
  by code_simp+

lemma entry_ok_ver_entry:
  assumes "entry_ok e" "entry_version e = Some v"
  shows "entry_ok (ver_entry (ke_Key e) v)"
  using assms
  by (auto simp: entry_version_def Let_def normalizeEntry_def value_of_entry_def tombstone_of_entry_def
      ver_entry_def set_entry_def delete_entry_def entry_ok_def type_of_string_def utf8_effectiveActor
      split: EntryType.splits)

lemma kv_reg_build_origin:
  assumes "kv_reg (buildSnapshot now None es) k = Some v"
  obtains e where "e \<in> set es" "ke_Key e = k" "entry_version e = Some v"
proof -
  from assms have "v \<in> set (writes k es)"
    using lww_fold_mem [of ver_beats "writes k es" None v] by (simp add: build_reg)
  then show thesis
    using that by (auto simp: set_writes entry_writes_def split: if_splits)
qed

section \<open>The invariant of the log\<close>

definition log_current :: "int \<Rightarrow> LocalLog \<Rightarrow> Snapshot" where
  "log_current now l = (case ll_cache l of
      Some c \<Rightarrow> c | None \<Rightarrow> buildSnapshot now None (file_entries (ll_file l)))"

definition log_ok :: "LocalLog \<Rightarrow> bool" where
  "log_ok l \<longleftrightarrow> list_all entry_ok (file_entries (ll_file l)) \<and>
     utf8_valid (ll_deviceID l) \<and> utf8_valid (ll_actorID l) \<and>
     (case ll_cache l of None \<Rightarrow> True
      | Some c \<Rightarrow> same_state c (buildSnapshot 0 None (file_entries (ll_file l))))"

lemma log_ok_current:
  "log_ok l \<Longrightarrow> same_state (log_current now l) (buildSnapshot n None (file_entries (ll_file l)))"
  using same_state_trans [OF _ build_now_irrelevant] build_now_irrelevant
  by (fastforce simp: log_ok_def log_current_def split: option.splits)

text \<open>
  The operations of the log, the restart of the process, and the failures of each, as one step
  relation.
\<close>

inductive log_step :: "LocalLog \<Rightarrow> LocalLog \<Rightarrow> bool" where
  step_append: "entry_ok e \<Longrightarrow> log_step l (fst (Append now io e l))"
| step_local: "entry_ok e \<Longrightarrow> int64_ok now \<Longrightarrow> log_step l (fst (AppendLocal now rd wr e l))"
| step_snapshot: "log_step l (fst (Snapshot_of now io l))"
| step_invalidate: "log_step l (InvalidateCache l)"
| step_compact: "range_order ks (ks_entries (log_current now l)) \<Longrightarrow>
    range_order ds (ks_deleted (log_current now l)) \<Longrightarrow>
    log_step l (fst (Compact now rd io ks ds l))"
| step_restart: "log_step l (NewLocalLogWithActor (ll_file l) (ll_deviceID l) (ll_actorID l))"

inductive_cases log_stepE: "log_step l l'"

lemma rebuild_cases:
  obtains (err) err where "rebuildLocked now io l = (l, Inl err)"
  | (ok) "rebuildLocked now io l =
      (l\<lparr>ll_cache := Some (buildSnapshot now None (file_entries (ll_file l))),
         ll_seq := own_seq (ll_deviceID l) (file_entries (ll_file l)) (ll_seq l)\<rparr>,
       Inr (buildSnapshot now None (file_entries (ll_file l))))"
  by (cases "ll_file l"; cases io)
    (auto simp: rebuildLocked_def readAllLocked_def file_entries_def Let_def)

lemma log_ok_rebuild: "log_ok l \<Longrightarrow> log_ok (fst (rebuildLocked now io l))"
  by (rule rebuild_cases [of now io l]) (simp_all add: log_ok_def build_now_irrelevant)

lemma log_ok_Snapshot: "log_ok l \<Longrightarrow> log_ok (fst (Snapshot_of now io l))"
  by (simp add: Snapshot_of_def log_ok_rebuild split: option.split)

lemma log_ok_Append:
  assumes "log_ok l" "entry_ok e"
  shows "log_ok (fst (Append now io e l))"
proof (cases "appendToFile io e l")
  case (Pair l1 err)
  show ?thesis
  proof (cases err)
    case (Some x)
    then show ?thesis using assms Pair appendToFile_error [of io e l l1 x] by (simp add: Append_def)
  next
    case None
    note app = appendToFile_entries [OF assms(2) Pair [unfolded None]]
    show ?thesis
      using assms Pair None incremental_build [of _ 0 "file_entries (ll_file l)" now "[e]" 0]
      by (auto simp: Append_def log_ok_def app split: option.splits)
  qed
qed

lemma keys_utf8_fmupd [simp]: "keys_utf8 m \<Longrightarrow> utf8_valid k \<Longrightarrow> keys_utf8 (fmupd k v m)"
  by (auto simp: keys_utf8_iff)

lemma keys_utf8_Observe: "keys_utf8 v \<Longrightarrow> utf8_valid a \<Longrightarrow> keys_utf8 (Observe v a c)"
  by (simp add: Observe_def split: option.split)

lemma keys_utf8_Merge:
  assumes "keys_utf8 v" "keys_utf8 w"
  shows "keys_utf8 (Merge v w)"
  unfolding Merge_def Merge_range_def
  by (rule fold_invariant_list)
    (use assms in \<open>auto simp: set_range_items keys_utf8_iff [of w] keys_utf8_Observe\<close>)

lemma keys_utf8_apply:
  "entry_ok e \<Longrightarrow> keys_utf8 (ks_vector s) \<Longrightarrow> keys_utf8 (ks_vector (apply_entry e s))"
  by (simp add: apply_entry_vector Let_def keys_utf8_Observe keys_utf8_Merge normalizeEntry_def
      utf8_effectiveActor entry_ok_def)

lemma keys_utf8_build:
  assumes "list_all entry_ok es"
  shows "keys_utf8 (ks_vector (buildSnapshot now None es))"
proof -
  have "keys_utf8 (ks_vector (fold apply_entry es (start_snapshot now None)))"
    by (rule fold_invariant_list)
      (use assms in \<open>auto simp: start_snapshot_def empty_snapshot_def keys_utf8_apply list_all_iff\<close>)
  then show ?thesis by (simp add: buildSnapshot_def)
qed

lemma log_ok_vector_utf8: "log_ok l \<Longrightarrow> keys_utf8 (ks_vector (log_current now l))"
  using log_ok_current [of l now 0] keys_utf8_build [of "file_entries (ll_file l)" 0]
  by (simp add: same_state_def log_ok_def)

lemma entry_ok_stamp:
  "entry_ok e \<Longrightarrow> int64_ok now \<Longrightarrow> int64_ok sq \<Longrightarrow> keys_utf8 ctx \<Longrightarrow> utf8_valid (ll_deviceID l) \<Longrightarrow>
   utf8_valid (ll_actorID l) \<Longrightarrow> entry_ok (stamp_local now ctx sq l e)"
  by (simp add: entry_ok_def stamp_local_def)

text \<open>
  What the two writers do: read the current snapshot (\<open>log_base\<close> is the state after a successful
  read), then act on it.
\<close>

definition log_base :: "int \<Rightarrow> LocalLog \<Rightarrow> LocalLog" where
  "log_base now l = (case ll_cache l of Some c \<Rightarrow> l
    | None \<Rightarrow> l\<lparr>ll_cache := Some (log_current now l),
        ll_seq := own_seq (ll_deviceID l) (file_entries (ll_file l)) (ll_seq l)\<rparr>)"

lemma log_base_sel [simp]:
  "ll_file (log_base now l) = ll_file l" "ll_deviceID (log_base now l) = ll_deviceID l"
  "ll_actorID (log_base now l) = ll_actorID l" "ll_cache (log_base now l) = Some (log_current now l)"
  by (simp_all add: log_base_def log_current_def split: option.split)

lemma log_ok_base: "log_ok l \<Longrightarrow> log_ok (log_base now l)"
  using log_ok_current [of l now 0] by (simp add: log_ok_def)

lemma read_cases:
  obtains (err) err where "(case ll_cache l of Some c \<Rightarrow> (l, Inr c) | None \<Rightarrow> rebuildLocked now io l) = (l, Inl err)"
  | (ok) "(case ll_cache l of Some c \<Rightarrow> (l, Inr c) | None \<Rightarrow> rebuildLocked now io l) =
            (log_base now l, Inr (log_current now l))"
  by (cases "ll_cache l"; rule rebuild_cases [of now io l])
    (auto simp: log_base_def log_current_def)

definition local_entry :: "int \<Rightarrow> Entry \<Rightarrow> LocalLog \<Rightarrow> Entry" where
  "local_entry now e l = stamp_local now (ks_vector (log_current now l))
     (int64_wrap (ll_seq (log_base now l) + 1)) l e"

lemma AppendLocal_cases:
  obtains (read_err) err where "AppendLocal now rd wr e l = (l, Some err)"
  | (write_err) err where "AppendLocal now rd wr e l =
      ((log_base now l)\<lparr>ll_seq := int64_wrap (ll_seq (log_base now l) + 1)\<rparr>, Some err)"
  | (ok) "AppendLocal now rd wr e l =
      ((log_base now l)\<lparr>ll_seq := int64_wrap (ll_seq (log_base now l) + 1),
         ll_file := Some ((case ll_file l of None \<Rightarrow> [] | Some ls \<Rightarrow> ls)
           @ [JsonLine (entry_to_json (local_entry now e l))]),
         ll_cache := Some (buildSnapshot now (Some (log_current now l)) [local_entry now e l])\<rparr>, None)"
proof (rule read_cases [where l = l and now = now and io = rd])
  fix err
  assume "(case ll_cache l of Some c \<Rightarrow> (l, Inr c) | None \<Rightarrow> rebuildLocked now rd l) = (l, Inl err)"
  then show thesis using read_err by (simp add: AppendLocal_def)
next
  assume r: "(case ll_cache l of Some c \<Rightarrow> (l, Inr c) | None \<Rightarrow> rebuildLocked now rd l) =
            (log_base now l, Inr (log_current now l))"
  have st: "stamp_local now ctx sq ((log_base now l)\<lparr>ll_seq := q\<rparr>) e = stamp_local now ctx sq l e" for ctx sq q
    by (simp add: stamp_local_def)
  show thesis
    using write_err ok
    by (cases wr) (simp_all add: AppendLocal_def r Let_def appendToFile_def st local_entry_def)
qed

lemma entry_ok_local: "log_ok l \<Longrightarrow> entry_ok e \<Longrightarrow> int64_ok now \<Longrightarrow> entry_ok (local_entry now e l)"
  by (simp add: local_entry_def entry_ok_stamp log_ok_vector_utf8) (simp add: log_ok_def entry_ok_stamp log_ok_vector_utf8)

lemma file_entries_snoc:
  "entry_ok e \<Longrightarrow> file_entries (Some ((case f of None \<Rightarrow> [] | Some ls \<Rightarrow> ls) @ [JsonLine (entry_to_json e)])) =
     file_entries f @ [e]"
  by (cases f) (simp_all add: file_entries_def entry_json_rt)

lemma log_ok_AppendLocal:
  assumes "log_ok l" "entry_ok e" "int64_ok now"
  shows "log_ok (fst (AppendLocal now rd wr e l))"
proof (rule AppendLocal_cases [where now = now and rd = rd and wr = wr and e = e and l = l])
  show "AppendLocal now rd wr e l = (l, Some err) \<Longrightarrow> ?thesis" for err
    using assms by simp
  show "AppendLocal now rd wr e l =
      ((log_base now l)\<lparr>ll_seq := int64_wrap (ll_seq (log_base now l) + 1)\<rparr>, Some err) \<Longrightarrow> ?thesis" for err
    using log_ok_base [OF assms(1), of now] by (simp add: log_ok_def)
next
  note ok = entry_ok_local [OF assms]
  assume "AppendLocal now rd wr e l =
      ((log_base now l)\<lparr>ll_seq := int64_wrap (ll_seq (log_base now l) + 1),
         ll_file := Some ((case ll_file l of None \<Rightarrow> [] | Some ls \<Rightarrow> ls)
           @ [JsonLine (entry_to_json (local_entry now e l))]),
         ll_cache := Some (buildSnapshot now (Some (log_current now l)) [local_entry now e l])\<rparr>, None)"
  then show ?thesis
    using assms(1) ok incremental_build [OF log_ok_current [OF assms(1), of now 0], of now "[local_entry now e l]" 0]
    by (simp add: log_ok_def file_entries_snoc [OF ok])
qed

section \<open>Compaction\<close>

lemma compact_entries_alt:
  "compact_entries ks ds s =
     map (\<lambda>(k, v). ver_entry k (VVal v)) (range_items ks (ks_entries s)) @
     map (\<lambda>(k, t). ver_entry k (VTomb t)) (range_items ds (ks_deleted s))"
  by (simp add: compact_entries_def ver_entry_def)

lemma writes_ver_entries:
  assumes "\<And>k v. (k, v) \<in> set kvs \<Longrightarrow> ver_normal (f v)"
  shows "writes key (map (\<lambda>(k, v). ver_entry k (f v)) kvs) =
         map (f \<circ> snd) (filter (\<lambda>(k, v). k = key) kvs)"
  using assms
proof (induction kvs)
  case (Cons kv kvs)
  obtain k v where kv: "kv = (k, v)" by fastforce
  have "ver_normal (f v)" using Cons.prems [of k v] kv by simp
  then have "entry_version (ver_entry k (f v)) = Some (f v)" by (rule entry_version_ver_entry)
  moreover have "writes key (map (\<lambda>(k, v). ver_entry k (f v)) kvs) =
         map (f \<circ> snd) (filter (\<lambda>(k, v). k = key) kvs)"
    using Cons.IH Cons.prems by (meson list.set_intros(2))
  ultimately show ?case using kv by (auto simp: entry_writes_def)
qed simp

definition kv_normal :: "Snapshot \<Rightarrow> bool" where
  "kv_normal s \<longleftrightarrow> (\<forall>k v. kv_reg s k = Some v \<longrightarrow> ver_normal v \<and> entry_ok (ver_entry k v))"

lemma kv_normal_build:
  assumes "list_all entry_ok es"
  shows "kv_normal (buildSnapshot now None es)"
  unfolding kv_normal_def
proof (intro allI impI)
  fix k v
  assume "kv_reg (buildSnapshot now None es) k = Some v"
  then obtain e where "e \<in> set es" "ke_Key e = k" "entry_version e = Some v"
    by (rule kv_reg_build_origin)
  then show "ver_normal v \<and> entry_ok (ver_entry k v)"
    using assms entry_version_normal entry_ok_ver_entry by (auto simp: list_all_iff)
qed

lemma kv_normal_current: "log_ok l \<Longrightarrow> kv_normal (log_current now l)"
  using same_state_reg [OF log_ok_current [of l now 0]] kv_normal_build [of "file_entries (ll_file l)" 0]
  by (simp add: log_ok_def kv_normal_def)

lemma kv_disjoint_current: "log_ok l \<Longrightarrow> kv_disjoint (log_current now l)"
  using same_state_disjoint [OF log_ok_current [of l now 0]] by simp

lemma kv_reg_entries:
  assumes "kv_disjoint s"
  shows "fmlookup (ks_entries s) k = Some v \<longleftrightarrow> kv_reg s k = Some (VVal v)"
    and "fmlookup (ks_deleted s) k = Some t \<longleftrightarrow> kv_reg s k = Some (VTomb t)"
  using assms [unfolded kv_disjoint_iff, rule_format, of k] by (auto simp: kv_reg_def split: option.splits)

lemma writes_compact:
  assumes "kv_disjoint s" "kv_normal s"
    and "range_order ks (ks_entries s)" "range_order ds (ks_deleted s)"
  shows "writes k (compact_entries ks ds s) = option_list (kv_reg s k)"
proof -
  have "writes k (map (\<lambda>(k, v). ver_entry k (VVal v)) (range_items ks (ks_entries s))) =
        map (VVal \<circ> snd) (filter (\<lambda>(a, v). a = k) (range_items ks (ks_entries s)))"
    by (rule writes_ver_entries)
      (use assms in \<open>auto simp: set_range_items kv_reg_entries kv_normal_def\<close>)
  moreover have "writes k (map (\<lambda>(k, v). ver_entry k (VTomb v)) (range_items ds (ks_deleted s))) =
        map (VTomb \<circ> snd) (filter (\<lambda>(a, v). a = k) (range_items ds (ks_deleted s)))"
    by (rule writes_ver_entries)
      (use assms in \<open>auto simp: set_range_items kv_reg_entries kv_normal_def\<close>)
  ultimately show ?thesis
    using assms(1) [unfolded kv_disjoint_iff, rule_format, of k]
    by (auto simp: compact_entries_alt filter_range_items [OF assms(3)] filter_range_items [OF assms(4)]
        kv_reg_def split: option.split)
qed

lemma compact_entries_ok:
  assumes "kv_disjoint s" "kv_normal s"
    and "range_order ks (ks_entries s)" "range_order ds (ks_deleted s)"
  shows "list_all entry_ok (compact_entries ks ds s)"
  using assms unfolding compact_entries_alt list_all_iff
  by (auto simp: set_range_items kv_reg_entries kv_normal_def)

lemma Compact_cases:
  obtains (read_err) err where "Compact now rd io ks ds l = (l, Some err)"
  | (io_err) err where "Compact now rd io ks ds l = (log_base now l, Some err)"
  | (ok) "Compact now rd io ks ds l = ((log_base now l)\<lparr>
       ll_file := Some (map (JsonLine \<circ> entry_to_json) (compact_entries ks ds (log_current now l))),
       ll_cache := None\<rparr>, None)"
proof (rule read_cases [where l = l and now = now and io = rd])
  fix err
  assume "(case ll_cache l of Some c \<Rightarrow> (l, Inr c) | None \<Rightarrow> rebuildLocked now rd l) = (l, Inl err)"
  then show thesis using read_err by (simp add: Compact_def)
next
  assume r: "(case ll_cache l of Some c \<Rightarrow> (l, Inr c) | None \<Rightarrow> rebuildLocked now rd l) =
            (log_base now l, Inr (log_current now l))"
  show thesis
    using io_err ok by (cases io) (simp_all add: Compact_def r)
qed

lemma file_entries_compact:
  assumes "log_ok l" "range_order ks (ks_entries (log_current now l))"
    and "range_order ds (ks_deleted (log_current now l))"
  shows "file_entries (Some (map (JsonLine \<circ> entry_to_json) (compact_entries ks ds (log_current now l)))) =
         compact_entries ks ds (log_current now l)"
  by (rule file_entries_JsonLines)
    (rule compact_entries_ok [OF kv_disjoint_current kv_normal_current assms(2,3)], fact+)

lemma log_ok_Compact:
  assumes "log_ok l" "range_order ks (ks_entries (log_current now l))"
    and "range_order ds (ks_deleted (log_current now l))"
  shows "log_ok (fst (Compact now rd io ks ds l))"
proof (rule Compact_cases [where now = now and rd = rd and io = io and ks = ks and ds = ds and l = l])
  assume "Compact now rd io ks ds l = ((log_base now l)\<lparr>
       ll_file := Some (map (JsonLine \<circ> entry_to_json) (compact_entries ks ds (log_current now l))),
       ll_cache := None\<rparr>, None)"
  then show ?thesis
    using assms(1) compact_entries_ok [OF kv_disjoint_current kv_normal_current assms(2,3)]
    by (simp add: log_ok_def file_entries_compact [OF assms] del: file_entries_def)
qed (use assms(1) log_ok_base in simp_all)

lemma log_ok_Invalidate: "log_ok l \<Longrightarrow> log_ok (InvalidateCache l)"
  by (simp add: InvalidateCache_def log_ok_def)

lemma log_ok_step: "log_step l l' \<Longrightarrow> log_ok l \<Longrightarrow> log_ok l'"
proof (induction rule: log_step.induct)
  case (step_restart l)
  then show ?case by (simp add: NewLocalLogWithActor_def log_ok_def)
qed (simp_all add: log_ok_Append log_ok_AppendLocal log_ok_Snapshot log_ok_Compact log_ok_Invalidate)

lemma log_ok_steps: "log_step\<^sup>*\<^sup>* l l' \<Longrightarrow> log_ok l \<Longrightarrow> log_ok l'"
  by (induction rule: rtranclp_induct) (auto intro: log_ok_step)

lemma log_ok_new:
  "list_all entry_ok (file_entries f) \<Longrightarrow> utf8_valid dev \<Longrightarrow> utf8_valid actor \<Longrightarrow>
   log_ok (NewLocalLogWithActor f dev actor)"
  by (simp add: log_ok_def NewLocalLogWithActor_def)

lemma Snapshot_of_current:
  "Snapshot_of now io l = (l', Inr s) \<Longrightarrow> s = log_current now l \<and> l' = log_base now l"
  by (rule read_cases [where l = l and now = now and io = io])
    (auto simp: Snapshot_of_def split: option.splits)



text \<open>
  C5. Compaction loses no value and no tombstone: whatever order it ranges over the two maps, the
  file it leaves decodes completely, and replaying it gives every key the register it had before.
\<close>
theorem Compact_preserves_registers:
  assumes "log_ok l"
    and "range_order ks (ks_entries (log_current now l))"
    and "range_order ds (ks_deleted (log_current now l))"
    and "Compact now rd io ks ds l = (l', None)"
  shows "file_entries (ll_file l') = compact_entries ks ds (log_current now l) \<and>
         kv_reg (buildSnapshot n None (file_entries (ll_file l'))) k =
         kv_reg (buildSnapshot m None (file_entries (ll_file l))) k"
proof -
  have fl: "ll_file l' = Some (map (JsonLine \<circ> entry_to_json) (compact_entries ks ds (log_current now l)))"
    using assms(4)
    by (rule_tac Compact_cases [where now = now and rd = rd and io = io and ks = ks and ds = ds and l = l])
      auto
  have "lww_fold ver_beats (option_list r) None = r" for r
    by (cases r) (simp_all add: lww_merge_def)
  then show ?thesis
    using same_state_reg [OF log_ok_current [OF assms(1), of now m], of k]
    by (simp only: fl file_entries_compact [OF assms(1-3)] build_reg
        writes_compact [OF kv_disjoint_current [OF assms(1)] kv_normal_current [OF assms(1)] assms(2,3)])
qed

definition compact_example :: LocalLog where
  "compact_example = fst (Append 3 None example_set (NewLocalLog None ''A''))"

lemma compact_example_ok: "log_ok compact_example"
  unfolding compact_example_def NewLocalLog_def
  by (intro log_ok_Append log_ok_new) code_simp+

theorem Compact_preserves_registers_witness:
  "kv_reg (buildSnapshot 1 None (file_entries (ll_file
      (fst (Compact 5 None None [''k''] [] compact_example))))) ''k'' =
   kv_reg (buildSnapshot 2 None (file_entries (ll_file compact_example))) ''k''"
proof -
  have "log_current 5 compact_example = buildSnapshot 5 None [example_set]"
    by code_simp
  moreover have "fmdom (ks_entries (buildSnapshot 5 None [example_set])) = {|''k''|}"
    "fmdom (ks_deleted (buildSnapshot 5 None [example_set])) = {||}"
    by code_simp+
  ultimately have "range_order [''k''] (ks_entries (log_current 5 compact_example))"
    "range_order [] (ks_deleted (log_current 5 compact_example))"
    by (simp_all add: range_order_def)
  moreover have "snd (Compact 5 None None [''k''] [] compact_example) = None" by code_simp
  ultimately show ?thesis
    using Compact_preserves_registers [OF compact_example_ok, of "[''k'']" 5 "[]" None None] by (metis prod.collapse)
qed

section \<open>Local writes\<close>

text \<open>An entry with a dot of its own and a well-formed context; \<open>AppendLocal\<close> writes only such entries.\<close>

definition entry_dotted :: "Entry \<Rightarrow> bool" where
  "entry_dotted e \<longleftrightarrow> vv_ok (ke_Context e) \<and>
     dot_ok (ke_Actor (normalizeEntry e)) (ke_Counter (normalizeEntry e))"

text \<open>
  The sequence counter is ahead of every dot of the device's own actor that the log has seen, and
  the next value still fits an \<open>int64\<close>.
\<close>

definition seq_ahead :: "int \<Rightarrow> LocalLog \<Rightarrow> bool" where
  "seq_ahead now l \<longleftrightarrow> 0 \<le> ll_seq (log_base now l) \<and> ll_seq (log_base now l) + 1 < 2 ^ 63 \<and>
     vv_get (ks_vector (log_current now l)) (ll_actorID l) < word_of_int (ll_seq (log_base now l) + 1)"

lemma build_covered:
  assumes "list_all entry_dotted es"
  shows "kv_covered (buildSnapshot now None es)"
proof -
  have "list_all (\<lambda>e. vv_ok (ke_Context e)) es"
    using assms by (auto simp: list_all_iff entry_dotted_def)
  then have "kv_covered (fold apply_entry es (start_snapshot now None))"
    by (intro fold_apply_covered start_snapshot_covered) simp_all
  then show ?thesis by (simp add: buildSnapshot_def)
qed

lemma build_dot_ok:
  assumes "list_all entry_dotted es" "kv_reg (buildSnapshot now None es) k = Some v"
  shows "dot_ok (ver_actor v) (ver_counter v)"
  using assms(2)
proof (rule kv_reg_build_origin)
  fix e
  assume "e \<in> set es" "entry_version e = Some v"
  then show ?thesis
    using assms(1) entry_version_fields by (auto simp: list_all_iff entry_dotted_def)
qed

lemma current_covered:
  assumes "log_ok l" "list_all entry_dotted (file_entries (ll_file l))"
  shows "kv_covered (log_current now l)"
  using build_covered [OF assms(2), of 0] log_ok_current [OF assms(1), of now 0]
  by (simp add: kv_covered_def same_state_def kv_disjoint_def kv_reg_def cong: option.case_cong)

lemma not_Dominates: "vv_get v a < vv_get w a \<Longrightarrow> \<not> Dominates v w"
  unfolding Dominates_iff by (metis not_le)

lemma fresh_dot_beats:
  assumes "Dominates ctx (ver_full v)" "dot_ok (ver_actor v) (ver_counter v)"
    and "ver_actor w = a" "ver_counter w = c" "ver_context w = ctx" "dot_ok a c" "vv_get ctx a < c"
  shows "ver_beats w v"
proof -
  have full: "ver_full w = Observe ctx a c"
    using assms by (simp add: ver_full_def CausalVersion_def)
  have "vv_get (ver_full v) a < c"
    using assms(1,7) unfolding Dominates_iff by (metis le_less_trans)
  then have "\<not> Dominates (ver_full v) (ver_full w)"
    using assms(6) by (intro not_Dominates [of _ a])
      (simp add: full vv_get_Observe dot_ok_def less_max_iff_disj)
  moreover have "Dominates (ver_full w) (ver_full v)"
    using assms(1) by (auto simp: full Dominates_iff vv_get_Observe le_max_iff_disj)
  ultimately have "ver_causal w v > 0"
    using assms unfolding ver_causal_def compareCausal_pos ver_full_def by simp
  then show ?thesis by (simp add: ver_beats_def)
qed

lemma uint_small: "0 \<le> s \<Longrightarrow> s < 2 ^ 64 \<Longrightarrow> uint (word_of_int s :: u64) = s"
  by (simp add: uint_word_of_int)

lemma next_seq_word:
  assumes "0 \<le> s" "s + 1 < 2 ^ 63"
  shows "int64_wrap (s + 1) = s + 1" "(word_of_int (s + 1) :: u64) \<noteq> 0"
    "(word_of_int (s + 1) :: u64) < word_of_int (s + 2)"
proof -
  show "int64_wrap (s + 1) = s + 1"
    using assms by (intro int64_wrap_id) (simp add: int64_ok_def)
  have u: "uint (word_of_int (s + 1) :: u64) = s + 1" "uint (word_of_int (s + 2) :: u64) = s + 2"
    using assms by - (rule uint_small; simp)+
  show "(word_of_int (s + 1) :: u64) < word_of_int (s + 2)"
    unfolding word_less_def u by simp
  show "(word_of_int (s + 1) :: u64) \<noteq> 0"
  proof
    assume "(word_of_int (s + 1) :: u64) = 0"
    then have "uint (word_of_int (s + 1) :: u64) = 0" by (metis uint_0_eq)
    with u(1) assms show False by linarith
  qed
qed

lemma local_entry_sel:
  assumes "seq_ahead now l" "ll_actorID l \<noteq> []"
  shows "ke_Actor (normalizeEntry (local_entry now e l)) = ll_actorID l"
    "ke_Counter (normalizeEntry (local_entry now e l)) = word_of_int (ll_seq (log_base now l) + 1)"
    "ke_Context (normalizeEntry (local_entry now e l)) = ks_vector (log_current now l)"
    "ke_Key (local_entry now e l) = ke_Key e" "ke_Type (local_entry now e l) = ke_Type e"
    "ke_Value (local_entry now e l) = ke_Value e"
  using assms next_seq_word [of "ll_seq (log_base now l)"]
  by (simp_all add: local_entry_def stamp_local_def normalizeEntry_def effectiveActor_def
      effectiveCounter_def seq_ahead_def)

lemma local_entry_wins:
  assumes "log_ok l" "list_all entry_dotted (file_entries (ll_file l))" "seq_ahead now l"
    and "ll_actorID l \<noteq> []" "entry_version (local_entry now e l) = Some w"
    and "kv_reg (log_current now l) k = Some v"
  shows "ver_beats w v"
proof (rule fresh_dot_beats)
  show "Dominates (ks_vector (log_current now l)) (ver_full v)"
    using current_covered [OF assms(1,2)] assms(6) by (simp add: kv_covered_def)
  show "dot_ok (ver_actor v) (ver_counter v)"
    using build_dot_ok [OF assms(2)] assms(6) same_state_reg [OF log_ok_current [OF assms(1), of now 0]]
    by simp
  note sel = local_entry_sel [OF assms(3,4)]
  show "ver_actor w = ll_actorID l" "ver_context w = ks_vector (log_current now l)"
    "ver_counter w = word_of_int (ll_seq (log_base now l) + 1)"
    using entry_version_fields [OF assms(5)] by (simp_all add: sel)
  show "dot_ok (ll_actorID l) (word_of_int (ll_seq (log_base now l) + 1))"
    using assms(3,4) next_seq_word by (simp add: dot_ok_def seq_ahead_def)
  show "vv_get (ks_vector (log_current now l)) (ll_actorID l) < word_of_int (ll_seq (log_base now l) + 1)"
    using assms(3) by (simp add: seq_ahead_def)
qed

lemma AppendLocal_state:
  assumes "AppendLocal now rd wr e l = (l', None)"
  shows "ll_cache l' = Some (buildSnapshot now (Some (log_current now l)) [local_entry now e l])"
    "ll_seq l' = int64_wrap (ll_seq (log_base now l) + 1)"
    "ll_actorID l' = ll_actorID l" "ll_deviceID l' = ll_deviceID l"
    "ll_file l' = Some ((case ll_file l of None \<Rightarrow> [] | Some ls \<Rightarrow> ls)
           @ [JsonLine (entry_to_json (local_entry now e l))])"
proof -
  have "l' = (log_base now l)\<lparr>ll_seq := int64_wrap (ll_seq (log_base now l) + 1),
         ll_file := Some ((case ll_file l of None \<Rightarrow> [] | Some ls \<Rightarrow> ls)
           @ [JsonLine (entry_to_json (local_entry now e l))]),
         ll_cache := Some (buildSnapshot now (Some (log_current now l)) [local_entry now e l])\<rparr>"
    using assms
    by (rule_tac AppendLocal_cases [where now = now and rd = rd and wr = wr and e = e and l = l]) auto
  then show "ll_cache l' = Some (buildSnapshot now (Some (log_current now l)) [local_entry now e l])"
    "ll_seq l' = int64_wrap (ll_seq (log_base now l) + 1)"
    "ll_actorID l' = ll_actorID l" "ll_deviceID l' = ll_deviceID l"
    "ll_file l' = Some ((case ll_file l of None \<Rightarrow> [] | Some ls \<Rightarrow> ls)
           @ [JsonLine (entry_to_json (local_entry now e l))])"
    by simp_all
qed

lemma AppendLocal_reg:
  assumes "log_ok l" "list_all entry_dotted (file_entries (ll_file l))" "seq_ahead now l"
    and "ll_actorID l \<noteq> []" "AppendLocal now rd wr e l = (l', None)"
  shows "kv_reg (log_current t l') k =
    (if ke_Key e = k \<and> entry_version (local_entry now e l) \<noteq> None
     then entry_version (local_entry now e l) else kv_reg (log_current now l) k)"
proof -
  note sel = local_entry_sel [OF assms(3,4)]
  have ok: "base_ok (Some (log_current now l))"
    using kv_disjoint_current [OF assms(1)] by (simp add: base_ok_def)
  show ?thesis
    using local_entry_wins [OF assms(1-4), of e]
    by (cases "entry_version (local_entry now e l)"; cases "kv_reg (log_current now l) k")
      (auto simp: log_current_def [of t] AppendLocal_state [OF assms(5)] buildSnapshot_reg [OF ok] base_reg_def
        entry_writes_def sel lww_merge_def)
qed

lemma entry_dotted_local:
  assumes "log_ok l" "seq_ahead now l" "ll_actorID l \<noteq> []"
  shows "entry_dotted (local_entry now e l)"
proof -
  have "vv_ok (ks_vector (log_current now l))"
    using log_ok_current [OF assms(1), of now 0] by (simp add: same_state_def)
  then show ?thesis
    using assms next_seq_word [of "ll_seq (log_base now l)"]
    by (simp add: entry_dotted_def local_entry_sel [OF assms(2,3)] dot_ok_def seq_ahead_def)
      (simp add: local_entry_def stamp_local_def)
qed

lemma AppendLocal_after:
  assumes "seq_ahead now l" "ll_actorID l \<noteq> []" "AppendLocal now rd wr e l = (l', None)"
  shows "ll_seq l' = ll_seq (log_base now l) + 1" "ll_seq (log_base t l') = ll_seq (log_base now l) + 1"
    and "vv_get (ks_vector (log_current t l')) (ll_actorID l') = word_of_int (ll_seq (log_base now l) + 1)"
proof -
  let ?s = "ll_seq (log_base now l)"
  have s: "0 \<le> ?s" "?s + 1 < 2 ^ 63" using assms(1) by (simp_all add: seq_ahead_def)
  note st = AppendLocal_state [OF assms(3)]
  note nx = next_seq_word [OF s]
  show "ll_seq l' = ?s + 1" "ll_seq (log_base t l') = ?s + 1"
    by (simp_all add: log_base_def [of t] st nx(1))
  have cur: "log_current t l' = buildSnapshot now (Some (log_current now l)) [local_entry now e l]"
    by (simp add: log_current_def [of t] st)
  show "vv_get (ks_vector (log_current t l')) (ll_actorID l') = word_of_int (?s + 1)"
    using assms(1,2)
    by (auto simp add: cur st buildSnapshot_def vv_get_apply_entry start_snapshot_vector entry_contrib_def
        local_entry_sel [OF assms(1,2)] seq_ahead_def max_def Let_def simp del: of_int_add)
qed

lemma seq_ahead_AppendLocal:
  assumes "seq_ahead now l" "ll_actorID l \<noteq> []" "AppendLocal now rd wr e l = (l', None)"
    and "ll_seq l' + 1 < 2 ^ 63"
  shows "seq_ahead t l'"
  using assms(1,4) AppendLocal_after [OF assms(1-3)] next_seq_word(3) [of "ll_seq (log_base now l)"]
  by (simp add: seq_ahead_def add.assoc del: of_int_add)

text \<open>
  C3. A device reads its own writes. When the file is well formed, its entries carry dots, and the
  sequence counter is ahead of the device's own dots, a successful local \<open>Set\<close> is returned by the
  next \<open>Lookup\<close>, a successful local \<open>Delete\<close> makes the key absent, no other key changes, and the
  counter is ahead again, so that the next local write has the same guarantee.
\<close>
theorem AppendLocal_read_your_writes:
  assumes "log_ok l" "list_all entry_dotted (file_entries (ll_file l))" "seq_ahead now l"
    and "ll_actorID l \<noteq> []" "entry_ok e" "int64_ok now" "AppendLocal now rd wr e l = (l', None)"
  shows "(ke_Type e = KvSet \<longrightarrow>
            map_option vi_Value (snd (log_Lookup t io l' (ke_Key e))) = Some (ke_Value e)) \<and>
         (ke_Type e = KvDelete \<longrightarrow> snd (log_Lookup t io l' (ke_Key e)) = None) \<and>
         (k \<noteq> ke_Key e \<longrightarrow> kv_reg (log_current t l') k = kv_reg (log_current now l) k) \<and>
         log_ok l' \<and> list_all entry_dotted (file_entries (ll_file l')) \<and>
         (ll_seq l' + 1 < 2 ^ 63 \<longrightarrow> seq_ahead t l')"
proof (intro conjI impI)
  note reg = AppendLocal_reg [OF assms(1-4,7)]
  note sel = local_entry_sel [OF assms(3,4)]
  have look: "snd (log_Lookup t io l' key) = Lookup (log_current t l') key" for key
    by (simp add: log_Lookup_def Snapshot_of_def log_current_def AppendLocal_state [OF assms(7)])
  show "map_option vi_Value (snd (log_Lookup t io l' (ke_Key e))) = Some (ke_Value e)" if "ke_Type e = KvSet"
    using that by (simp add: look Lookup_reg reg entry_version_def Let_def sel value_of_entry_def)
      (simp add: normalizeEntry_def sel)
  show "snd (log_Lookup t io l' (ke_Key e)) = None" if "ke_Type e = KvDelete"
    using that by (simp add: look Lookup_reg reg entry_version_def Let_def sel)
  show "kv_reg (log_current t l') k = kv_reg (log_current now l) k" if "k \<noteq> ke_Key e"
    using that by (simp add: reg)
  show "log_ok l'" using log_ok_AppendLocal [OF assms(1,5,6), of rd wr] assms(7) by simp
  show "list_all entry_dotted (file_entries (ll_file l'))"
    using assms(2) entry_dotted_local [OF assms(1,3,4)]
    by (simp add: AppendLocal_state [OF assms(7)] file_entries_snoc entry_ok_local assms(1,5,6))
  show "seq_ahead t l'" if "ll_seq l' + 1 < 2 ^ 63"
    using seq_ahead_AppendLocal [OF assms(3,4,7) that] .
qed

theorem AppendLocal_read_your_writes_witness:
  "map_option vi_Value (snd (log_Lookup 9 None
     (fst (AppendLocal 8 None None (example_set\<lparr>ke_Value := [7], ke_Timestamp := 0\<rparr>) compact_example)) ''k''))
   = Some [7]"
proof -
  let ?e = "example_set\<lparr>ke_Value := [7], ke_Timestamp := 0\<rparr>"
  have "list_all entry_dotted (file_entries (ll_file compact_example))" "seq_ahead 8 compact_example"
    "entry_ok ?e" "int64_ok 8" "ll_actorID compact_example \<noteq> []"
    "snd (AppendLocal 8 None None ?e compact_example) = None"
    by code_simp+
  then show ?thesis
    using AppendLocal_read_your_writes [OF compact_example_ok, of 8 ?e None None
        "fst (AppendLocal 8 None None ?e compact_example)" 9 None]
    by (simp add: prod_eq_iff)
qed

text \<open>
  C38. The counter is not always ahead. \<open>Compact\<close> drops an own entry that another device has
  overwritten, and after a restart \<open>rebuildLocked\<close> recovers the counter only from the surviving own
  entries. The device then reuses a dot: here A has written \<open>k\<close>, B has overwritten it having seen that
  write, the log is compacted and reopened, and A's next local \<open>Set\<close> is reported as successful and
  is not visible.
\<close>

definition reuse_B :: Entry where
  "reuse_B = example_set\<lparr>ke_Value := [2], ke_Device := ''B'', ke_Timestamp := 100, ke_Actor := ''B'',
     ke_Context := fmap_of_list [(''A'', 1)]\<rparr>"

definition reuse_before :: LocalLog where
  "reuse_before = fst (Compact 101 None None [''k''] []
     (fst (Append 101 None reuse_B (fst (AppendLocal 5 None None example_set (NewLocalLog None ''A''))))))"

definition reuse_after :: "LocalLog \<times> log_error option" where
  "reuse_after = AppendLocal 50 None None (example_set\<lparr>ke_Value := [3], ke_Timestamp := 0\<rparr>)
     (NewLocalLog (ll_file reuse_before) ''A'')"

end
