(* ===== verification/Kv_Wire.thy ===== *)
theory Kv_Wire
  imports Kv_Log_Props
begin

text \<open>
  The wire form of a snapshot (\<open>MarshalSnapshot\<close>, \<open>UnmarshalSnapshot\<close> and the JSON structs of
  \<open>pkg/kv/snapshot.go\<close>) and the length-prefixed framing of \<open>pkg/kv/p2p.go\<close>. \<open>time.Time\<close> refuses to
  marshal outside the years 0 to 9999, the only way \<open>MarshalSnapshot\<close> can fail.
\<close>

section \<open>Snapshots as JSON\<close>

definition value_to_json :: "ValueInfo \<Rightarrow> json" where
  "value_to_json v = JObj (
     [(''value'', JBytes (vi_Value v)), (''modified'', JTime (vi_Modified v))]
     @ omit_string ''device'' (vi_Device v) @ omit_int ''seq'' (vi_Seq v)
     @ omit_string ''actor'' (vi_Actor v) @ omit_int ''counter'' (uint (vi_Counter v))
     @ omit_map ''context'' enc_vector (vi_Context v))"

definition tombstone_to_json :: "TombstoneInfo \<Rightarrow> json" where
  "tombstone_to_json t = JObj (
     [(''modified'', JTime (kt_Modified t))]
     @ omit_string ''device'' (kt_Device t) @ omit_int ''seq'' (kt_Seq t)
     @ omit_string ''actor'' (kt_Actor t) @ omit_int ''counter'' (uint (kt_Counter t))
     @ omit_map ''context'' enc_vector (kt_Context t))"

definition value_of_fields :: "(string \<times> json) list \<Rightarrow> ValueInfo option" where
  "value_of_fields obj = do {
     val \<leftarrow> dec_bytes (jget obj ''value'');
     md \<leftarrow> dec_time (jget obj ''modified'');
     dev \<leftarrow> dec_string (jget obj ''device'');
     sq \<leftarrow> dec_int (jget obj ''seq'');
     act \<leftarrow> dec_string (jget obj ''actor'');
     ctr \<leftarrow> dec_u64 (jget obj ''counter'');
     ctx \<leftarrow> dec_vector (jget obj ''context'');
     Some \<lparr>vi_Value = val, vi_Modified = md, vi_Device = dev, vi_Seq = sq, vi_Actor = act,
       vi_Counter = ctr, vi_Context = ctx\<rparr> }"

definition tombstone_of_fields :: "(string \<times> json) list \<Rightarrow> TombstoneInfo option" where
  "tombstone_of_fields obj = do {
     md \<leftarrow> dec_time (jget obj ''modified'');
     dev \<leftarrow> dec_string (jget obj ''device'');
     sq \<leftarrow> dec_int (jget obj ''seq'');
     act \<leftarrow> dec_string (jget obj ''actor'');
     ctr \<leftarrow> dec_u64 (jget obj ''counter'');
     ctx \<leftarrow> dec_vector (jget obj ''context'');
     Some \<lparr>kt_Modified = md, kt_Device = dev, kt_Seq = sq, kt_Actor = act,
       kt_Counter = ctr, kt_Context = ctx\<rparr> }"

fun value_of_json :: "json \<Rightarrow> ValueInfo option" where
  "value_of_json (JObj obj) = value_of_fields obj"
| "value_of_json JNull = value_of_fields []"
| "value_of_json _ = None"

fun tombstone_of_json :: "json \<Rightarrow> TombstoneInfo option" where
  "tombstone_of_json (JObj obj) = tombstone_of_fields obj"
| "tombstone_of_json JNull = tombstone_of_fields []"
| "tombstone_of_json _ = None"

definition times_ok :: "int \<Rightarrow> Snapshot \<Rightarrow> bool" where
  "times_ok now s \<longleftrightarrow> time_json_ok now \<and> time_json_ok (ks_created s) \<and>
     list_all (\<lambda>(k, v). time_json_ok (vi_Modified v)) (fm_items (ks_entries s)) \<and>
     list_all (\<lambda>(k, t). time_json_ok (kt_Modified t)) (fm_items (ks_deleted s))"

text \<open>
  \<open>None\<close> as an argument is the nil snapshot (its zero times are year 1, which marshals);
  \<open>None\<close> as a result is the error of \<open>time.Time.MarshalJSON\<close>.
\<close>

definition MarshalSnapshot :: "int \<Rightarrow> Snapshot option \<Rightarrow> json option" where
  "MarshalSnapshot now snap = (case snap of
      None \<Rightarrow> Some (JObj [(''version'', JInt 2), (''created'', JTime zero_time),
        (''updated'', JTime zero_time), (''entries'', JObj [])])
    | Some s \<Rightarrow>
        if \<not> times_ok now s then None
        else Some (JObj (
          [(''version'', JInt 2), (''created'', JTime (ks_created s)), (''updated'', JTime now),
           (''entries'', enc_map value_to_json (ks_entries s))]
          @ omit_map ''tombstones'' tombstone_to_json (ks_deleted s)
          @ omit_map ''vector'' enc_vector (Clone (ks_vector s)))))"

text \<open>The two loops of \<open>UnmarshalSnapshot\<close> fold every decoded version into the vector.\<close>

definition observe_value :: "ValueInfo \<Rightarrow> VersionVector \<Rightarrow> VersionVector" where
  "observe_value vi v = Observe (Merge v (vi_Context vi))
     (effectiveActor (vi_Actor vi) (vi_Device vi)) (effectiveCounter (vi_Counter vi) (vi_Seq vi))"

definition observe_tombstone :: "TombstoneInfo \<Rightarrow> VersionVector \<Rightarrow> VersionVector" where
  "observe_tombstone t v = Observe (Merge v (kt_Context t))
     (effectiveActor (kt_Actor t) (kt_Device t)) (effectiveCounter (kt_Counter t) (kt_Seq t))"

definition unmarshal_vector ::
  "string list \<Rightarrow> string list \<Rightarrow> (string, ValueInfo) gomap \<Rightarrow> (string, TombstoneInfo) gomap
    \<Rightarrow> VersionVector \<Rightarrow> VersionVector" where
  "unmarshal_vector ks ds es ts v =
     fold (\<lambda>(k, t). observe_tombstone t) (range_items ds ts)
       (fold (\<lambda>(k, vi). observe_value vi) (range_items ks es) v)"

definition snapshot_of_fields :: "(string \<times> json) list \<Rightarrow> Snapshot option" where
  "snapshot_of_fields obj = do {
     ver \<leftarrow> dec_int (jget obj ''version'');
     created \<leftarrow> dec_time (jget obj ''created'');
     updated \<leftarrow> dec_time (jget obj ''updated'');
     es \<leftarrow> dec_map value_of_json (jget obj ''entries'');
     ts \<leftarrow> dec_map tombstone_of_json (jget obj ''tombstones'');
     vec \<leftarrow> dec_vector (jget obj ''vector'');
     Some \<lparr>ks_entries = es, ks_deleted = ts,
       ks_vector = unmarshal_vector (fm_keys es) (fm_keys ts) es ts vec,
       ks_created = created, ks_updated = updated\<rparr> }"

fun UnmarshalSnapshot :: "json \<Rightarrow> Snapshot option" where
  "UnmarshalSnapshot (JObj obj) = snapshot_of_fields obj"
| "UnmarshalSnapshot JNull = snapshot_of_fields []"
| "UnmarshalSnapshot _ = None"

section \<open>Round trip of a snapshot\<close>

definition value_ok :: "ValueInfo \<Rightarrow> bool" where
  "value_ok v \<longleftrightarrow> int64_ok (vi_Seq v) \<and> utf8_valid (vi_Device v) \<and> utf8_valid (vi_Actor v) \<and>
     keys_utf8 (vi_Context v)"

definition tombstone_ok :: "TombstoneInfo \<Rightarrow> bool" where
  "tombstone_ok t \<longleftrightarrow> int64_ok (kt_Seq t) \<and> utf8_valid (kt_Device t) \<and> utf8_valid (kt_Actor t) \<and>
     keys_utf8 (kt_Context t)"

definition snapshot_wire_ok :: "Snapshot \<Rightarrow> bool" where
  "snapshot_wire_ok s \<longleftrightarrow> keys_utf8 (ks_entries s) \<and> keys_utf8 (ks_deleted s) \<and> keys_utf8 (ks_vector s) \<and>
     list_all (\<lambda>(k, v). value_ok v) (fm_items (ks_entries s)) \<and>
     list_all (\<lambda>(k, t). tombstone_ok t) (fm_items (ks_deleted s))"

lemma value_json_rt: "value_ok v \<Longrightarrow> value_of_json (value_to_json v) = Some v"
  by (simp add: value_to_json_def value_of_fields_def value_ok_def)

lemma tombstone_json_rt: "tombstone_ok t \<Longrightarrow> tombstone_of_json (tombstone_to_json t) = Some t"
  by (simp add: tombstone_to_json_def tombstone_of_fields_def tombstone_ok_def)

lemma enc_map_not_empty: "enc_map f m \<noteq> JNull"
  by (simp add: enc_map_def)

lemma dec_enc_values:
  "keys_utf8 m \<Longrightarrow> list_all (\<lambda>(k, v). value_ok v) (fm_items m) \<Longrightarrow>
   dec_map value_of_json (Some (enc_map value_to_json m)) = Some m"
  by (rule dec_enc_map) (auto simp: list_all_iff value_json_rt)

lemma dec_enc_tombstones:
  "keys_utf8 m \<Longrightarrow> list_all (\<lambda>(k, t). tombstone_ok t) (fm_items m) \<Longrightarrow>
   dec_map tombstone_of_json (Some (enc_map tombstone_to_json m)) = Some m"
  by (rule dec_enc_map) (auto simp: list_all_iff tombstone_json_rt)

lemma observe_dominated:
  assumes "vv_ok v" "Dominates v (CausalVersion a c ctx)"
  shows "Observe (Merge v ctx) a c = v"
proof (rule vv_eqI)
  show "vv_get (Observe (Merge v ctx) a c) b = vv_get v b" for b
    using assms(2) [unfolded Dominates_iff, rule_format, of b]
    by (auto simp: CausalVersion_def vv_get_Observe vv_get_Merge max_def split: if_splits)
qed (use assms in simp_all)

lemma unmarshal_vector_covered:
  assumes "kv_covered s" "range_order ks (ks_entries s)" "range_order ds (ks_deleted s)"
  shows "unmarshal_vector ks ds (ks_entries s) (ks_deleted s) (ks_vector s) = ks_vector s"
proof -
  have ok: "vv_ok (ks_vector s)" and dis: "kv_disjoint s"
    and cov: "\<And>k v. kv_reg s k = Some v \<Longrightarrow> Dominates (ks_vector s) (ver_full v)"
    using assms(1) by (auto simp: kv_covered_def)
  have "fold (\<lambda>(k, vi). observe_value vi) (range_items ks (ks_entries s)) (ks_vector s) = ks_vector s"
    by (rule fold_invariant_list [where P = "\<lambda>w. w = ks_vector s"])
      (use ok cov assms(2) in \<open>auto simp: set_range_items kv_reg_entries [OF dis] observe_value_def
         ver_full_def intro!: observe_dominated dest!: cov\<close>)
  moreover have "fold (\<lambda>(k, t). observe_tombstone t) (range_items ds (ks_deleted s)) (ks_vector s) = ks_vector s"
    by (rule fold_invariant_list [where P = "\<lambda>w. w = ks_vector s"])
      (use ok cov assms(3) in \<open>auto simp: set_range_items kv_reg_entries [OF dis] observe_tombstone_def
         ver_full_def intro!: observe_dominated dest!: cov\<close>)
  ultimately show ?thesis by (simp add: unmarshal_vector_def)
qed

lemma snapshot_rt:
  assumes "kv_covered s" "snapshot_wire_ok s" "times_ok now s"
  shows "Option.bind (MarshalSnapshot now (Some s)) UnmarshalSnapshot = Some (s\<lparr>ks_updated := now\<rparr>)"
  using assms unmarshal_vector_covered [OF assms(1), of "fm_keys (ks_entries s)" "fm_keys (ks_deleted s)"]
  by (cases s) (auto simp: MarshalSnapshot_def snapshot_of_fields_def snapshot_wire_ok_def
      dec_enc_values dec_enc_tombstones int64_ok_def)

text \<open>
  C17. A snapshot survives the wire: if its times can be marshalled, its strings are valid UTF-8 and
  its vector covers what it holds, then unmarshalling its marshalled form gives the same entries,
  tombstones, vector and creation time; the update time is the time of marshalling.
\<close>
theorem snapshot_json_roundtrip:
  assumes "kv_covered s" "snapshot_wire_ok s" "times_ok now s"
  shows "Option.bind (MarshalSnapshot now (Some s)) UnmarshalSnapshot = Some (s\<lparr>ks_updated := now\<rparr>)"
  using assms by (rule snapshot_rt)

theorem snapshot_json_roundtrip_witness:
  "Option.bind (MarshalSnapshot 9 (Some (buildSnapshot 7 None [example_set]))) UnmarshalSnapshot =
   Some ((buildSnapshot 7 None [example_set])\<lparr>ks_updated := 9\<rparr>)"
proof (rule snapshot_json_roundtrip)
  show "kv_covered (buildSnapshot 7 None [example_set])"
    by (rule build_covered) code_simp
qed code_simp+

section \<open>Framing\<close>

text \<open>
  A stream is the list of bytes still to be read. \<open>writeMsg\<close> prepends the low 32 bits of the length;
  \<open>readMsg\<close> fails on a short read and on a length above \<open>maxSyncMessageSize\<close>.
\<close>

unbundle bit_operations_syntax

datatype frame_error = EOF_header | TooLarge u32 | EOF_body

definition maxSyncMessageSize :: u32 where
  "maxSyncMessageSize = 33554432"

definition writeMsg :: "bytes \<Rightarrow> bytes" where
  "writeMsg data = (let n = (of_nat (length data) :: u32) in
     [ucast (drop_bit 24 n), ucast (drop_bit 16 n), ucast (drop_bit 8 n), ucast n] @ data)"

fun readMsg :: "bytes \<Rightarrow> frame_error + bytes \<times> bytes" where
  "readMsg (h0 # h1 # h2 # h3 # r) =
     (let n = (push_bit 24 (ucast h0) OR push_bit 16 (ucast h1) OR push_bit 8 (ucast h2) OR ucast h3 :: u32)
      in if n > maxSyncMessageSize then Inl (TooLarge n)
         else if length r < unat n then Inl EOF_body
         else Inr (take (unat n) r, drop (unat n) r))"
| "readMsg _ = Inl EOF_header"

lemma header_bytes:
  fixes n :: u32
  shows "push_bit 24 (ucast (ucast (drop_bit 24 n) :: byte)) OR push_bit 16 (ucast (ucast (drop_bit 16 n) :: byte))
     OR push_bit 8 (ucast (ucast (drop_bit 8 n) :: byte)) OR ucast (ucast n :: byte) = n"
proof (rule bit_word_eqI)
  fix i :: nat
  assume "i < LENGTH(32)"
  then show "bit (push_bit 24 (ucast (ucast (drop_bit 24 n) :: byte)) OR push_bit 16 (ucast (ucast (drop_bit 16 n) :: byte))
     OR push_bit 8 (ucast (ucast (drop_bit 8 n) :: byte)) OR ucast (ucast n :: byte) :: u32) i = bit n i"
    by (cases "i < 8"; cases "i < 16"; cases "i < 24") (auto simp: bit_simps)
qed

text \<open>
  C18. Framing is exact: after any message of at most 32 MiB the reader gets that message and the
  rest of the stream; a longer message (below 4 GiB) is refused by the reader, although the writer
  does not check the limit; and a truncated header is an error.
\<close>
theorem frame_roundtrip:
  "(length data \<le> 33554432 \<longrightarrow> readMsg (writeMsg data @ rest) = Inr (data, rest)) \<and>
   (33554432 < length data \<and> length data < 2 ^ 32 \<longrightarrow>
      readMsg (writeMsg data @ rest) = Inl (TooLarge (of_nat (length data)))) \<and>
   (length short < 4 \<longrightarrow> readMsg short = Inl EOF_header)"
proof (intro conjI impI)
  have unat: "unat (of_nat (length data) :: u32) = length data" if "length data < 2 ^ 32"
    using that by (simp add: unat_of_nat)
  show "readMsg (writeMsg data @ rest) = Inr (data, rest)" if "length data \<le> 33554432"
    using that unat by (simp add: writeMsg_def Let_def header_bytes word_less_nat_alt maxSyncMessageSize_def)
  show "readMsg (writeMsg data @ rest) = Inl (TooLarge (of_nat (length data)))"
    if "33554432 < length data \<and> length data < 2 ^ 32"
    using that unat by (simp add: writeMsg_def Let_def header_bytes word_less_nat_alt maxSyncMessageSize_def)
  show "readMsg short = Inl EOF_header" if "length short < 4"
    using that by (cases short rule: readMsg.cases) simp_all
qed

theorem frame_roundtrip_witness: "readMsg (writeMsg [1, 2, 3] @ [9]) = Inr ([1, 2, 3], [9])"
  using frame_roundtrip [of "[1, 2, 3]" "[9]"] by simp

end
