(* ===== verification/Kv_Merge.thy ===== *)
theory Kv_Merge
  imports Kv_Wire
begin

text \<open>
  Merging a remote snapshot into the local log: \<open>diffAndMerge\<close>, \<open>parseDeviceList\<close> and \<open>syncDevice\<close> of
  \<open>pkg/kv/poller.go\<close> with the baselines of \<open>pkg/kv/baseline.go\<close>. The outcome of each append is a
  function of the appended entry, and the orders in which the three maps are ranged over are
  arguments. Without a baseline the merge is the join of the registers; a delta cut with the
  receiver's own vector does as well as the whole snapshot.
\<close>

section \<open>diffAndMerge\<close>

definition value_unchanged :: "ValueInfo \<Rightarrow> ValueInfo \<Rightarrow> bool" where
  "value_unchanged b r \<longleftrightarrow> vi_Value b = vi_Value r \<and> vi_Device b = vi_Device r \<and> vi_Seq b = vi_Seq r \<and>
     vi_Actor b = vi_Actor r \<and> vi_Counter b = vi_Counter r"

definition tombstone_unchanged :: "TombstoneInfo \<Rightarrow> TombstoneInfo \<Rightarrow> bool" where
  "tombstone_unchanged b r \<longleftrightarrow> kt_Device b = kt_Device r \<and> kt_Seq b = kt_Seq r \<and>
     kt_Actor b = kt_Actor r \<and> kt_Counter b = kt_Counter r"

definition set_needed :: "Snapshot option \<Rightarrow> string \<Rightarrow> ValueInfo \<Rightarrow> bool" where
  "set_needed baseline key r = (case baseline of None \<Rightarrow> True | Some b \<Rightarrow>
     (case fmlookup (ks_entries b) key of None \<Rightarrow> True | Some v \<Rightarrow> \<not> value_unchanged v r))"

definition tombstone_needed :: "Snapshot option \<Rightarrow> string \<Rightarrow> TombstoneInfo \<Rightarrow> bool" where
  "tombstone_needed baseline key r = (case baseline of None \<Rightarrow> True | Some b \<Rightarrow>
     (case fmlookup (ks_deleted b) key of None \<Rightarrow> True | Some t \<Rightarrow> \<not> tombstone_unchanged t r))"

text \<open>The delete inferred for a key of the baseline that the remote neither holds nor deletes.\<close>

definition legacy_delete :: "int \<Rightarrow> Snapshot \<Rightarrow> string \<Rightarrow> ValueInfo \<Rightarrow> Entry" where
  "legacy_delete now remote key b =
     \<lparr>ke_Type = KvDelete, ke_Key = key, ke_Value = [], ke_Namespace = [], ke_Device = vi_Device b,
      ke_Timestamp = (if vi_Modified b \<ge> now then int64_wrap (vi_Modified b + 1) else now),
      ke_Seq = int64_wrap (vi_Seq b + 1),
      ke_Actor = effectiveActor (vi_Actor b) (vi_Device b),
      ke_Counter = effectiveCounter (vi_Counter b) (vi_Seq b) + 1,
      ke_Context = Clone (ks_vector remote)\<rparr>"

text \<open>The entries the three loops append, in order.\<close>

definition diff_sets :: "string list \<Rightarrow> Snapshot \<Rightarrow> Snapshot option \<Rightarrow> Entry list" where
  "diff_sets ks remote baseline = map (\<lambda>(key, vi). set_entry key vi)
     (filter (\<lambda>(key, vi). set_needed baseline key vi) (range_items ks (ks_entries remote)))"

definition diff_tombstones :: "string list \<Rightarrow> Snapshot \<Rightarrow> Snapshot option \<Rightarrow> Entry list" where
  "diff_tombstones ds remote baseline = map (\<lambda>(key, tomb). delete_entry key tomb)
     (filter (\<lambda>(key, tomb). tombstone_needed baseline key tomb) (range_items ds (ks_deleted remote)))"

definition diff_legacy :: "int \<Rightarrow> string list \<Rightarrow> Snapshot \<Rightarrow> Snapshot option \<Rightarrow> Entry list" where
  "diff_legacy now bs remote baseline = (case baseline of None \<Rightarrow> [] | Some b \<Rightarrow>
     map (\<lambda>(key, vi). legacy_delete now remote key vi)
       (filter (\<lambda>(key, vi). fmlookup (ks_entries remote) key = None \<and> \<not> DeletedKeys remote key)
         (range_items bs (ks_entries b))))"

text \<open>Appending a list of entries; a failed append is logged and skipped.\<close>

fun appendAll :: "int \<Rightarrow> (Entry \<Rightarrow> log_error option) \<Rightarrow> Entry list \<Rightarrow> LocalLog \<Rightarrow> LocalLog \<times> nat" where
  "appendAll now io [] l = (l, 0)"
| "appendAll now io (e # es) l = (case Append now (io e) e l of
     (l1, Some _) \<Rightarrow> appendAll now io es l1
   | (l1, None) \<Rightarrow> (case appendAll now io es l1 of (l2, n) \<Rightarrow> (l2, n + 1)))"

definition diffAndMerge ::
  "int \<Rightarrow> (Entry \<Rightarrow> log_error option) \<Rightarrow> string list \<Rightarrow> string list \<Rightarrow> string list
    \<Rightarrow> LocalLog \<Rightarrow> Snapshot \<Rightarrow> Snapshot option \<Rightarrow> LocalLog \<times> nat" where
  "diffAndMerge now io ks ds bs l remote baseline =
     appendAll now io (diff_sets ks remote baseline @ diff_tombstones ds remote baseline
       @ diff_legacy now bs remote baseline) l"

definition parseDeviceList :: "string list \<Rightarrow> string list" where
  "parseDeviceList keys = map (\<lambda>name. TrimSuffix name ''.json'')
     (filter (\<lambda>name. HasSuffix name ''.json'') (map (\<lambda>k. TrimPrefix k ''devices/'') keys))"

section \<open>Effect of a merge\<close>

lemma Append_file:
  assumes "entry_ok e"
  shows "file_entries (ll_file (fst (Append now io e l))) =
           file_entries (ll_file l) @ (if io = None then [e] else [])"
    and "snd (Append now io e l) = None \<longleftrightarrow> io = None"
  using file_entries_snoc [OF assms, of "ll_file l"]
  by (cases io; cases "ll_cache l"; simp add: Append_def appendToFile_def)+

lemma appendAll_ok:
  assumes "log_ok l" "list_all entry_ok es" "appendAll now io es l = (l', n)"
  shows "log_ok l' \<and> file_entries (ll_file l') = file_entries (ll_file l) @ filter (\<lambda>e. io e = None) es \<and>
         n = length (filter (\<lambda>e. io e = None) es)"
  using assms
proof (induction es arbitrary: l n)
  case (Cons e es)
  obtain l1 r where a: "Append now (io e) e l = (l1, r)" by fastforce
  have e: "entry_ok e" using Cons.prems(2) by simp
  have l1: "log_ok l1" using log_ok_Append [OF Cons.prems(1) e, of now "io e"] a by simp
  have f: "file_entries (ll_file l1) = file_entries (ll_file l) @ (if io e = None then [e] else [])"
    and r: "r = None \<longleftrightarrow> io e = None"
    using Append_file [OF e, of now "io e" l] a by simp_all
  obtain m where "appendAll now io es l1 = (l', m)" "n = (if r = None then m + 1 else m)"
    using Cons.prems(3) a by (auto split: option.splits prod.splits)
  with Cons.IH [OF l1, of m] Cons.prems(2) f r show ?case by auto
qed simp

lemma current_reg_writes:
  "log_ok l \<Longrightarrow> kv_reg (log_current t l) k = lww_fold ver_beats (writes k (file_entries (ll_file l))) None"
  using same_state_reg [OF log_ok_current [of l t 0], of k] by (simp add: build_reg)

lemma appendAll_reg:
  assumes "log_ok l" "list_all entry_ok es" "appendAll now io es l = (l', n)"
  shows "kv_reg (log_current t l') k =
    lww_fold ver_beats (writes k (filter (\<lambda>e. io e = None) es)) (kv_reg (log_current t l) k)"
  using appendAll_ok [OF assms] current_reg_writes [OF assms(1)]
  by (simp add: current_reg_writes lww_fold_append)

lemma diff_no_baseline:
  "diff_sets ks s None @ diff_tombstones ds s None @ diff_legacy now bs s None = compact_entries ks ds s"
  by (simp add: diff_sets_def diff_tombstones_def diff_legacy_def set_needed_def tombstone_needed_def
      compact_entries_def)

lemma merge_reg:
  assumes "log_ok l" "kv_disjoint remote" "kv_normal remote"
    and "range_order ks (ks_entries remote)" "range_order ds (ks_deleted remote)"
    and "diffAndMerge now (\<lambda>_. None) ks ds bs l remote None = (l', n)"
  shows "log_ok l' \<and> kv_reg (log_current t l') k =
         lww_fold ver_beats (option_list (kv_reg remote k)) (kv_reg (log_current t l) k)"
proof -
  have ok: "list_all entry_ok (compact_entries ks ds remote)"
    by (rule compact_entries_ok [OF assms(2-5)])
  have app: "appendAll now (\<lambda>_. None) (compact_entries ks ds remote) l = (l', n)"
    using assms(6) by (simp only: diffAndMerge_def diff_no_baseline)
  show ?thesis
    using appendAll_ok [OF assms(1) ok app] appendAll_reg [OF assms(1) ok app, of t k]
      writes_compact [OF assms(2-5), of k]
    by simp
qed

lemma lww_absorb:
  assumes "lww_fold ver_beats (option_list r) c = d"
  shows "lww_fold ver_beats (option_list r) d = d"
  using assms by (cases r; cases c) (auto simp: lww_merge_def dest: ver_beats_asym)



section \<open>Deltas\<close>

lemma DeltaSince_reg:
  assumes "kv_disjoint s"
  shows "kv_reg (DeltaSince (Some s) seen) k = (case kv_reg s k of
      None \<Rightarrow> None | Some v \<Rightarrow> if Dominates seen (ver_full v) then None else Some v)"
  using assms [unfolded kv_disjoint_iff, rule_format, of k]
  by (auto simp: DeltaSince_def kv_reg_def ver_full_def split: option.splits)

lemma DeltaSince_disjoint:
  assumes "kv_disjoint s"
  shows "kv_disjoint (DeltaSince (Some s) seen)"
  unfolding kv_disjoint_iff
proof
  fix k
  show "fmlookup (ks_entries (DeltaSince (Some s) seen)) k = None \<or>
        fmlookup (ks_deleted (DeltaSince (Some s) seen)) k = None"
    using assms [unfolded kv_disjoint_iff, rule_format, of k] by (auto simp: DeltaSince_def)
qed

lemma DeltaSince_normal: "kv_disjoint s \<Longrightarrow> kv_normal s \<Longrightarrow> kv_normal (DeltaSince (Some s) seen)"
  by (auto simp: kv_normal_def DeltaSince_reg split: option.splits if_splits)

text \<open>\<open>reflects r k v\<close>: merging the write \<open>v\<close> to \<open>k\<close> into \<open>r\<close> changes nothing, it has \<open>v\<close> or better.\<close>

definition reflects :: "Snapshot \<Rightarrow> string \<Rightarrow> version \<Rightarrow> bool" where
  "reflects r k v \<longleftrightarrow> lww_merge ver_beats (kv_reg r k) v = kv_reg r k"



section \<open>Polling a device through the backend\<close>

text \<open>
  The baselines are the files of the baseline directory, by device. \<open>fetch\<close> is the outcome of
  downloading the device's latest snapshot object; \<open>dec\<close> stands for decryption and JSON syntax, which
  are not part of this model.
\<close>

datatype 'c fetch = FetchMissing | FetchFailed | Fetched 'c

datatype sync_error = DownloadErr | DecryptErr | ParseErr

type_synonym baseline_files = "(string, json) gomap"

definition baseline_Load :: "baseline_files \<Rightarrow> string \<Rightarrow> Snapshot option" where
  "baseline_Load files dev = Option.bind (fmlookup files dev) UnmarshalSnapshot"

definition baseline_Save :: "int \<Rightarrow> bool \<Rightarrow> string \<Rightarrow> Snapshot \<Rightarrow> baseline_files \<Rightarrow> baseline_files" where
  "baseline_Save now wr_ok dev snap files = (case MarshalSnapshot now (Some snap) of
      None \<Rightarrow> files | Some j \<Rightarrow> if wr_ok then fmupd dev j files else files)"

definition syncDevice ::
  "int \<Rightarrow> (Entry \<Rightarrow> log_error option) \<Rightarrow> bool \<Rightarrow> string list \<Rightarrow> string list \<Rightarrow> string list
    \<Rightarrow> ('c \<Rightarrow> json option) \<Rightarrow> 'c fetch \<Rightarrow> string \<Rightarrow> baseline_files \<Rightarrow> LocalLog
    \<Rightarrow> baseline_files \<times> LocalLog \<times> (sync_error + nat)" where
  "syncDevice now io wr_ok ks ds bs dec fetch remoteID files l = (case fetch of
      FetchMissing \<Rightarrow> (files, l, Inr 0)
    | FetchFailed \<Rightarrow> (files, l, Inl DownloadErr)
    | Fetched c \<Rightarrow> (case dec c of
        None \<Rightarrow> (files, l, Inl DecryptErr)
      | Some j \<Rightarrow> (case UnmarshalSnapshot j of
          None \<Rightarrow> (files, l, Inl ParseErr)
        | Some remote \<Rightarrow>
            (case diffAndMerge now io ks ds bs l remote (baseline_Load files remoteID) of
              (l', merged) \<Rightarrow> (baseline_Save now wr_ok remoteID remote files, l', Inr merged)))))"

text \<open>
  A failed append is never retried. The poller saves the remote snapshot as the new baseline
  even when an append of the merge failed; the next poll of the same remote then sees no difference.
  Here the disk fails once while the value of \<open>k\<close> is merged: the second, undisturbed poll merges
  nothing and the key stays missing.
\<close>

definition lost_remote :: json where
  "lost_remote = the (MarshalSnapshot 7 (Some (buildSnapshot 7 None [example_set])))"

definition lost_first :: "baseline_files \<times> LocalLog \<times> (sync_error + nat)" where
  "lost_first = syncDevice 8 (\<lambda>_. Some WriteErr) True [''k''] [] [] Some (Fetched lost_remote) ''D-A''
     fmempty (NewLocalLog None ''B'')"

definition lost_second :: "baseline_files \<times> LocalLog \<times> (sync_error + nat)" where
  "lost_second = syncDevice 9 (\<lambda>_. None) True [''k''] [] [''k''] Some (Fetched lost_remote) ''D-A''
     (fst lost_first) (fst (snd lost_first))"

lemma poll_loses_entry_after_failed_append:
  "snd (snd lost_first) = Inr 0 \<and> snd (snd lost_second) = Inr 0 \<and>
   Lookup (log_current 10 (fst (snd lost_second))) ''k'' = None"
  by code_simp

end
