(* ===== verification/Kv_Pattern.thy ===== *)
theory Kv_Pattern
  imports Go_Std "HOL-Library.While_Combinator"
begin

text \<open>
  The glob matcher of \<open>pkg/kv/pattern.go\<close>. The index loop with one backtracking point is a
  \<open>while_option\<close> over the loop's variables; it is shown to return, and to agree with the recursive
  meaning of \<open>*\<close> and \<open>?\<close> for every text that holds no \<open>*\<close> itself.
\<close>

section \<open>Runes\<close>

type_synonym rune = nat

text \<open>Go's conversion of a string to runes; a byte outside any valid encoding becomes U+FFFD.\<close>

definition rune_of :: "string \<Rightarrow> rune" where
  "rune_of cs = (case cs of [] \<Rightarrow> 0 | c # r \<Rightarrow>
     fold (\<lambda>c n. n * 64 + (of_char c - 128)) r
       (if length cs = 1 then of_char c
        else if length cs = 2 then of_char c - 192
        else if length cs = 3 then of_char c - 224
        else of_char c - 240))"

fun runes :: "string \<Rightarrow> rune list" where
  "runes [] = []"
| "runes (c # cs) =
     (if utf8_len (c # cs) = 0 then 65533 # runes cs
      else rune_of (c # take (utf8_len (c # cs) - 1) cs) # runes (drop (utf8_len (c # cs) - 1) cs))"

abbreviation rune_star :: rune where "rune_star \<equiv> 42"
abbreviation rune_quest :: rune where "rune_quest \<equiv> 63"

section \<open>The matcher\<close>

text \<open>The variables of the loop; \<open>None\<close> for \<open>star\<close> is its initial \<open>-1\<close>, \<open>gm_failed\<close> an early \<open>return false\<close>.\<close>

record glob_state =
  gm_p :: nat
  gm_k :: nat
  gm_star :: "nat option"
  gm_match :: nat
  gm_failed :: bool

definition match_step :: "rune list \<Rightarrow> rune list \<Rightarrow> glob_state \<Rightarrow> glob_state" where
  "match_step pat txt g =
     (if gm_p g < length pat \<and> (pat ! gm_p g = rune_quest \<or> pat ! gm_p g = txt ! gm_k g)
      then g\<lparr>gm_p := gm_p g + 1, gm_k := gm_k g + 1\<rparr>
      else if gm_p g < length pat \<and> pat ! gm_p g = rune_star
      then g\<lparr>gm_star := Some (gm_p g), gm_match := gm_k g, gm_p := gm_p g + 1\<rparr>
      else case gm_star g of
        Some s \<Rightarrow> g\<lparr>gm_p := s + 1, gm_match := gm_match g + 1, gm_k := gm_match g + 1\<rparr>
      | None \<Rightarrow> g\<lparr>gm_failed := True\<rparr>)"

definition match_loop :: "rune list \<Rightarrow> rune list \<Rightarrow> glob_state option" where
  "match_loop pat txt = while_option (\<lambda>g. gm_k g < length txt \<and> \<not> gm_failed g) (match_step pat txt)
     \<lparr>gm_p = 0, gm_k = 0, gm_star = None, gm_match = 0, gm_failed = False\<rparr>"

text \<open>The second loop skips trailing stars; the match succeeds if the pattern is then used up.\<close>

definition match_tail :: "rune list \<Rightarrow> nat \<Rightarrow> bool" where
  "match_tail pat p \<longleftrightarrow> dropWhile (\<lambda>c. c = rune_star) (drop p pat) = []"

definition matchRunes :: "rune list \<Rightarrow> rune list \<Rightarrow> bool option" where
  "matchRunes pat txt = map_option (\<lambda>g. \<not> gm_failed g \<and> match_tail pat (gm_p g)) (match_loop pat txt)"

definition matchPattern :: "string \<Rightarrow> string \<Rightarrow> bool option" where
  "matchPattern pattern key = matchRunes (runes pattern) (runes key)"

text \<open>The meaning of a pattern.\<close>

fun glob :: "rune list \<Rightarrow> rune list \<Rightarrow> bool" where
  "glob [] t = (t = [])"
| "glob (c # p) t =
     (if c = rune_star then list_ex (\<lambda>i. glob p (drop i t)) [0 ..< length t + 1]
      else case t of [] \<Rightarrow> False | x # xs \<Rightarrow> (c = rune_quest \<or> c = x) \<and> glob p xs)"

section \<open>Termination\<close>

definition glob_inv :: "rune list \<Rightarrow> rune list \<Rightarrow> glob_state \<Rightarrow> bool" where
  "glob_inv pat txt g \<longleftrightarrow> gm_p g \<le> length pat \<and> gm_k g \<le> length txt \<and>
     (case gm_star g of None \<Rightarrow> True
      | Some s \<Rightarrow> s < gm_p g \<and> pat ! s = rune_star \<and> gm_match g \<le> gm_k g \<and>
          gm_p g = s + 1 + (gm_k g - gm_match g))"

lemma match_step_inv:
  assumes "glob_inv pat txt g" "gm_k g < length txt" "\<not> gm_failed g"
  shows "glob_inv pat txt (match_step pat txt g)"
  using assms by (auto simp: glob_inv_def match_step_def split: option.splits)


definition glob_rank :: "rune list \<Rightarrow> rune list \<Rightarrow> (glob_state \<Rightarrow> nat) list" where
  "glob_rank pat txt =
     [\<lambda>g. if gm_failed g then 0 else 1,
      \<lambda>g. length pat - (case gm_star g of None \<Rightarrow> 0 | Some s \<Rightarrow> s + 1),
      \<lambda>g. length txt - gm_match g,
      \<lambda>g. length txt - gm_k g]"

lemma match_step_decreases:
  assumes "glob_inv pat txt g" "gm_k g < length txt" "\<not> gm_failed g"
  shows "(match_step pat txt g, g) \<in> measures (glob_rank pat txt)"
  using assms by (auto simp: glob_inv_def match_step_def glob_rank_def split: option.splits)

text \<open>What the matcher's variables mean: the pattern matches if the rest does, or after a later restart.\<close>

definition glob_alt :: "rune list \<Rightarrow> rune list \<Rightarrow> glob_state \<Rightarrow> bool" where
  "glob_alt pat txt g \<longleftrightarrow> \<not> gm_failed g \<and>
     (glob (drop (gm_p g) pat) (drop (gm_k g) txt) \<or>
      (case gm_star g of None \<Rightarrow> False
       | Some s \<Rightarrow> \<exists>j. gm_match g < j \<and> j \<le> length txt \<and> glob (drop (s + 1) pat) (drop j txt)))"

definition glob_good :: "rune list \<Rightarrow> rune list \<Rightarrow> glob_state \<Rightarrow> bool" where
  "glob_good pat txt g \<longleftrightarrow> glob_inv pat txt g \<and> (glob pat txt \<longleftrightarrow> glob_alt pat txt g) \<and>
     (case gm_star g of None \<Rightarrow> True | Some s \<Rightarrow> rune_star \<notin> set (drop (s + 1) (take (gm_p g) pat)))"

lemma glob_star_iff: "glob (rune_star # p) t \<longleftrightarrow> (\<exists>i \<le> length t. glob p (drop i t))"
  by (auto simp: list_ex_iff less_Suc_eq_le simp del: upt_Suc)

lemma glob_star_from:
  assumes "k \<le> length t"
  shows "glob (rune_star # p) (drop k t) \<longleftrightarrow> (\<exists>j \<ge> k. j \<le> length t \<and> glob p (drop j t))"
proof
  assume "glob (rune_star # p) (drop k t)"
  then obtain i where "i \<le> length (drop k t)" "glob p (drop i (drop k t))"
    unfolding glob_star_iff by blast
  then show "\<exists>j \<ge> k. j \<le> length t \<and> glob p (drop j t)"
    using assms by (intro exI [of _ "i + k"]) auto
next
  assume "\<exists>j \<ge> k. j \<le> length t \<and> glob p (drop j t)"
  then obtain j where "k \<le> j" "j \<le> length t" "glob p (drop j t)" by blast
  then show "glob (rune_star # p) (drop k t)"
    unfolding glob_star_iff by (intro exI [of _ "j - k"]) auto
qed

lemma glob_segment:
  "rune_star \<notin> set q \<Longrightarrow> glob (q @ r) t \<Longrightarrow> length q \<le> length t \<and> glob r (drop (length q) t)"
  by (induction q arbitrary: t) (auto split: list.splits)

lemma glob_empty: "glob p [] \<longleftrightarrow> dropWhile (\<lambda>c. c = rune_star) p = []"
  by (induction p) auto

lemma segment_split:
  assumes "s < p" "p \<le> length pat"
  shows "drop (s + 1) pat = drop (s + 1) (take p pat) @ drop p pat"
    and "length (drop (s + 1) (take p pat)) = p - (s + 1)"
proof -
  have "drop (s + 1) (take p pat @ drop p pat) = drop (s + 1) (take p pat) @ drop (s + 1 - length (take p pat)) (drop p pat)"
    by (rule drop_append)
  then show "drop (s + 1) pat = drop (s + 1) (take p pat) @ drop p pat"
    using assms by simp
qed (use assms in simp)

lemma ex_next:
  "m < n \<Longrightarrow> (\<exists>j. m < j \<and> j \<le> n \<and> P j) \<longleftrightarrow> P (m + 1) \<or> (\<exists>j. m + 1 < j \<and> j \<le> n \<and> P j)" for m n :: nat
  by (metis Suc_eq_plus1 Suc_leI Suc_lessD Suc_lessI lessI)

lemma good_step:
  assumes "glob_good pat txt g" "gm_k g < length txt" "\<not> gm_failed g" "rune_star \<notin> set txt"
  shows "glob_good pat txt (match_step pat txt g)"
proof -
  let ?p = "gm_p g" and ?k = "gm_k g" and ?g = "match_step pat txt g"
  have inv: "glob_inv pat txt g" and alt: "glob pat txt \<longleftrightarrow> glob_alt pat txt g"
    using assms(1) by (auto simp: glob_good_def)
  have inv': "glob_inv pat txt ?g" by (rule match_step_inv [OF inv assms(2,3)])
  have tx: "drop ?k txt = txt ! ?k # drop (?k + 1) txt" using assms(2) by (simp add: Cons_nth_drop_Suc)
  have nostar: "txt ! ?k \<noteq> rune_star" using assms(2,4) by (metis nth_mem)
  consider (lit) "?p < length pat" "pat ! ?p = rune_quest \<or> pat ! ?p = txt ! ?k"
    | (star) "?p < length pat" "pat ! ?p = rune_star"
    | (retry) s where "gm_star g = Some s" "\<not> glob (drop ?p pat) (drop ?k txt)"
        "?p < length pat \<Longrightarrow> pat ! ?p \<noteq> rune_star \<and> pat ! ?p \<noteq> rune_quest \<and> pat ! ?p \<noteq> txt ! ?k"
    | (fail) "gm_star g = None" "\<not> glob (drop ?p pat) (drop ?k txt)"
        "?p < length pat \<Longrightarrow> pat ! ?p \<noteq> rune_star \<and> pat ! ?p \<noteq> rune_quest \<and> pat ! ?p \<noteq> txt ! ?k"
  proof (cases "?p < length pat")
    case True
    then have "drop ?p pat = pat ! ?p # drop (?p + 1) pat" by (simp add: Cons_nth_drop_Suc)
    then show thesis
      using True tx lit star retry fail
      by (cases "gm_star g"; cases "pat ! ?p = rune_star"; cases "pat ! ?p = rune_quest"; cases "pat ! ?p = txt ! ?k") auto
  next
    case False
    then show thesis using tx retry fail by (cases "gm_star g") auto
  qed
  then show ?thesis
  proof cases
    case lit
    then have g: "?g = g\<lparr>gm_p := ?p + 1, gm_k := ?k + 1\<rparr>" by (simp add: match_step_def)
    have c: "pat ! ?p \<noteq> rune_star" using lit nostar by auto
    have "drop ?p pat = pat ! ?p # drop (?p + 1) pat" using lit by (simp add: Cons_nth_drop_Suc)
    then have "glob (drop ?p pat) (drop ?k txt) = glob (drop (?p + 1) pat) (drop (?k + 1) txt)"
      using tx lit(2) c by auto
    moreover have "rune_star \<notin> set (drop (s + 1) (take (?p + 1) pat))"
      if "gm_star g = Some s" "s < ?p" for s
      using that assms(1) c lit(1) by (auto simp: glob_good_def take_Suc_conv_app_nth)
    ultimately show ?thesis
      using inv inv' alt assms(3) by (auto simp: glob_good_def g glob_alt_def glob_inv_def split: option.splits)
  next
    case star
    then have g: "?g = g\<lparr>gm_star := Some ?p, gm_match := ?k, gm_p := ?p + 1\<rparr>"
      using nostar by (auto simp: match_step_def)
    have "drop ?p pat = rune_star # drop (?p + 1) pat" using star by (metis Cons_nth_drop_Suc Suc_eq_plus1)
    then have here: "glob (drop ?p pat) (drop ?k txt) \<longleftrightarrow> (\<exists>j \<ge> ?k. j \<le> length txt \<and> glob (drop (?p + 1) pat) (drop j txt))"
      using assms(2) by (simp only: glob_star_from less_imp_le)
    have old: "\<exists>j \<ge> ?k. j \<le> length txt \<and> glob (drop (?p + 1) pat) (drop j txt)"
      if "gm_star g = Some s" "gm_match g < j" "j \<le> length txt" "glob (drop (s + 1) pat) (drop j txt)" for s j
    proof -
      have sp: "s < ?p" "?p = s + 1 + (?k - gm_match g)" "gm_match g \<le> ?k" "?p \<le> length pat"
        using inv that(1) by (auto simp: glob_inv_def)
      note seg = segment_split [OF sp(1,4)]
      have "rune_star \<notin> set (drop (s + 1) (take ?p pat))"
        using assms(1) that(1) by (simp add: glob_good_def)
      from glob_segment [OF this] that(4) seg
      have "?p - (s + 1) \<le> length (drop j txt)" and rest: "glob (drop ?p pat) (drop (?p - (s + 1)) (drop j txt))"
        by metis+
      let ?j = "j + (?p - (s + 1))"
      have "?j \<le> length txt" "?k \<le> ?j"
        using \<open>?p - (s + 1) \<le> length (drop j txt)\<close> that(2,3) sp by auto
      have "glob (rune_star # drop (?p + 1) pat) (drop ?j txt)"
        using rest \<open>drop ?p pat = rune_star # drop (?p + 1) pat\<close> by (simp add: add.commute)
      then show ?thesis
        using glob_star_from [OF \<open>?j \<le> length txt\<close>] \<open>?k \<le> ?j\<close> order_trans by blast
    qed
    have new: "glob_alt pat txt ?g \<longleftrightarrow> (\<exists>j \<ge> ?k. j \<le> length txt \<and> glob (drop (?p + 1) pat) (drop j txt))"
      using assms(2,3) by (auto simp: g glob_alt_def le_eq_less_or_eq)
    have "glob_alt pat txt g \<longleftrightarrow> (\<exists>j \<ge> ?k. j \<le> length txt \<and> glob (drop (?p + 1) pat) (drop j txt))"
      using here old assms(3) by (cases "gm_star g") (auto simp: glob_alt_def)
    then show ?thesis
      using inv' alt new by (simp add: glob_good_def g)
  next
    case (retry s)
    have g: "?g = g\<lparr>gm_p := s + 1, gm_match := gm_match g + 1, gm_k := gm_match g + 1\<rparr>"
      using retry by (auto simp: match_step_def)
    have "gm_match g < length txt" using inv retry assms(2) by (simp add: glob_inv_def)
    then have "(\<exists>j. gm_match g < j \<and> j \<le> length txt \<and> glob (drop (s + 1) pat) (drop j txt)) \<longleftrightarrow>
      glob (drop (s + 1) pat) (drop (gm_match g + 1) txt) \<or>
      (\<exists>j. gm_match g + 1 < j \<and> j \<le> length txt \<and> glob (drop (s + 1) pat) (drop j txt))"
      by (rule ex_next)
    then show ?thesis
      using retry inv' alt assms(3) by (simp add: glob_good_def g glob_alt_def)
  next
    case fail
    then have "?g = g\<lparr>gm_failed := True\<rparr>" by (auto simp: match_step_def)
    then show ?thesis
      using fail inv' alt assms(3) by (simp add: glob_good_def glob_alt_def)
  qed
qed

lemma loop_wf: "wf {(t, g). (glob_inv pat txt g \<and> gm_k g < length txt \<and> \<not> gm_failed g) \<and> t = match_step pat txt g}"
  by (rule wf_subset [OF wf_measures [of "glob_rank pat txt"]]) (auto intro: match_step_decreases)

lemma match_loop_returns: "\<exists>g. match_loop pat txt = Some g"
  unfolding match_loop_def
  by (rule wf_while_option_Some [where P = "glob_inv pat txt"])
    (use loop_wf match_step_inv in \<open>auto simp: glob_inv_def\<close>)

lemma match_loop_good:
  assumes "match_loop pat txt = Some g" "rune_star \<notin> set txt"
  shows "glob_good pat txt g \<and> (gm_k g \<ge> length txt \<or> gm_failed g)"
proof -
  have "glob_good pat txt \<lparr>gm_p = 0, gm_k = 0, gm_star = None, gm_match = 0, gm_failed = False\<rparr>"
    by (simp add: glob_good_def glob_inv_def glob_alt_def)
  then have "glob_good pat txt g"
    using while_option_rule [of "glob_good pat txt", OF _ assms(1) [unfolded match_loop_def]]
      good_step assms(2) by auto
  moreover have "gm_k g \<ge> length txt \<or> gm_failed g"
    using while_option_stop [OF assms(1) [unfolded match_loop_def]] by auto
  ultimately show ?thesis by simp
qed

lemma good_final:
  assumes "glob_good pat txt g" "gm_k g \<ge> length txt \<or> gm_failed g"
  shows "glob pat txt \<longleftrightarrow> \<not> gm_failed g \<and> match_tail pat (gm_p g)"
proof (cases "gm_failed g")
  case False
  have inv: "glob_inv pat txt g" and alt: "glob pat txt \<longleftrightarrow> glob_alt pat txt g"
    using assms(1) by (auto simp: glob_good_def)
  have k: "gm_k g = length txt" using assms(2) False inv by (simp add: glob_inv_def)
  have "\<not> glob (drop (s + 1) pat) (drop j txt)"
    if "gm_star g = Some s" "gm_match g < j" "j \<le> length txt" for s j
  proof
    assume m: "glob (drop (s + 1) pat) (drop j txt)"
    have sp: "s < gm_p g" "gm_p g = s + 1 + (gm_k g - gm_match g)" "gm_p g \<le> length pat"
      using inv that(1) by (auto simp: glob_inv_def)
    have "rune_star \<notin> set (drop (s + 1) (take (gm_p g) pat))"
      using assms(1) that(1) by (simp add: glob_good_def)
    from glob_segment [OF this] m segment_split [OF sp(1,3)]
    have "gm_p g - (s + 1) \<le> length txt - j" by (metis length_drop)
    then show False using that(2,3) sp k by simp
  qed
  then show ?thesis
    using alt k False by (auto simp: glob_alt_def match_tail_def glob_empty split: option.splits)
qed (use assms in \<open>simp add: glob_good_def glob_alt_def\<close>)

text \<open>
  C19. The glob matcher always returns, and for a key without a literal \<open>*\<close> it returns exactly what
  the pattern means: \<open>?\<close> is one rune, \<open>*\<close> any sequence of runes including \<open>/\<close>.
\<close>
theorem matchPattern_is_glob:
  "(\<exists>b. matchPattern pattern key = Some b) \<and>
   (rune_star \<notin> set (runes key) \<longrightarrow>
      matchPattern pattern key = Some (glob (runes pattern) (runes key)))"
proof -
  obtain g where g: "match_loop (runes pattern) (runes key) = Some g"
    using match_loop_returns by blast
  have "glob (runes pattern) (runes key) \<longleftrightarrow> \<not> gm_failed g \<and> match_tail (runes pattern) (gm_p g)"
    if "rune_star \<notin> set (runes key)"
    using match_loop_good [OF g that] good_final by blast
  then show ?thesis by (simp add: matchPattern_def matchRunes_def g)
qed

theorem matchPattern_is_glob_witness:
  "matchPattern ''_sys/*/lo?'' ''_sys/a/b/log'' = Some True"
proof -
  have "rune_star \<notin> set (runes ''_sys/a/b/log'')" "glob (runes ''_sys/*/lo?'') (runes ''_sys/a/b/log'')"
    by code_simp+
  then show ?thesis
    using matchPattern_is_glob [of "''_sys/*/lo?''" "''_sys/a/b/log''"] by simp
qed

text \<open>
  A literal \<open>*\<close> in the key breaks the matcher: the pattern \<open>*\<close>, which matches every key,
  does not match the key \<open>*x\<close>, because the literal comparison is tried before the wildcard.
\<close>
lemma matchPattern_star_in_key:
  "matchPattern ''*'' ''*x'' = Some False \<and> glob (runes ''*'') (runes ''*x'')"
  by code_simp

end
