(* ===== verification/Kv_Store.thy ===== *)
theory Kv_Store
  imports Kv_Merge Kv_Pattern
begin

text \<open>
  The key-value store of \<open>pkg/kv/store.go\<close>, with \<open>visibility.go\<close>, \<open>status.go\<close> and the handlers of
  \<open>rpc.go\<close>. A call gets an environment: the time, the outcome of reading and writing the log file,
  and the outcome of resolving the namespace key (the keys themselves come from \<open>crypto.go\<close> and the
  backend). The uploader is present once \<open>Run\<close> has started it; its one-slot notify channel is a
  flag. The P2P push scheduler is the pair of flags of \<open>p2p.go\<close>.
\<close>

section \<open>State\<close>

record syncHealth =
  sh_ready :: bool
  sh_readyError :: string
  sh_lastSyncOK :: "int option"
  sh_lastSyncPeer :: string
  sh_lastSyncErrorAt :: "int option"
  sh_lastSyncError :: string
  sh_lastSyncErrPeer :: string
  sh_mismatchAt :: "int option"
  sh_mismatchPeer :: string
  sh_mismatchGot :: string
  sh_mismatchWant :: string

record push_state =
  pushRunning :: bool
  pushPending :: bool

record Store =
  st_namespace :: string
  st_expectedPeers :: int
  st_deviceID :: string
  st_localLog :: LocalLog
  st_nsKey :: "bytes option"
  st_nsID :: string
  st_uploader :: "bool option"
  st_p2p :: "push_state option"
  st_health :: syncHealth

datatype store_error = ResolveErr string | NamespaceUnavailable string | NotResolved
  | ErrValueTooLarge | LogErr log_error | KeyRequired

record kv_env =
  en_now :: int
  en_read :: "log_error option"
  en_write :: "log_error option"
  en_resolve :: "string + bytes \<times> string"

definition MaxValueSize :: nat where
  "MaxValueSize = 8192"

section \<open>Health\<close>

definition ensureReady :: "Store \<Rightarrow> store_error option" where
  "ensureReady s = (if st_nsKey s \<noteq> None \<and> st_nsID s \<noteq> [] then None
     else if sh_readyError (st_health s) \<noteq> [] then Some (NamespaceUnavailable (sh_readyError (st_health s)))
     else Some NotResolved)"

definition markReadyLocked :: "Store \<Rightarrow> Store" where
  "markReadyLocked s = s\<lparr>st_health := (st_health s)\<lparr>sh_ready := True, sh_readyError := []\<rparr>\<rparr>"

definition markResolveError :: "int \<Rightarrow> string \<Rightarrow> Store \<Rightarrow> Store" where
  "markResolveError now err s = s\<lparr>st_health := (st_health s)\<lparr>sh_ready := False, sh_readyError := err,
     sh_lastSyncError := err, sh_lastSyncErrorAt := Some now\<rparr>\<rparr>"

definition recordSyncSuccess :: "int \<Rightarrow> string \<Rightarrow> Store \<Rightarrow> Store" where
  "recordSyncSuccess now peer s = s\<lparr>st_health := (st_health s)\<lparr>sh_lastSyncOK := Some now,
     sh_lastSyncPeer := peer, sh_lastSyncError := [], sh_lastSyncErrorAt := None, sh_lastSyncErrPeer := [],
     sh_mismatchAt := None, sh_mismatchPeer := [], sh_mismatchGot := [], sh_mismatchWant := []\<rparr>\<rparr>"

definition recordSyncError :: "int \<Rightarrow> string \<Rightarrow> string \<Rightarrow> Store \<Rightarrow> Store" where
  "recordSyncError now peer err s = s\<lparr>st_health := (st_health s)\<lparr>sh_lastSyncError := err,
     sh_lastSyncErrorAt := Some now, sh_lastSyncErrPeer := peer\<rparr>\<rparr>"

definition recordNamespaceMismatch :: "int \<Rightarrow> string \<Rightarrow> string \<Rightarrow> string \<Rightarrow> Store \<Rightarrow> Store" where
  "recordNamespaceMismatch now peer got want s = s\<lparr>st_health := (st_health s)\<lparr>
     sh_lastSyncError := ''namespace mismatch: got '' @ got @ '' want '' @ want,
     sh_lastSyncErrorAt := Some now, sh_lastSyncErrPeer := peer, sh_mismatchAt := Some now,
     sh_mismatchPeer := peer, sh_mismatchGot := got, sh_mismatchWant := want\<rparr>\<rparr>"

text \<open>
  \<open>resolveKeys\<close> either fails or installs the key and the namespace ID. Only \<open>Run\<close>, \<open>Set\<close>,
  \<open>deleteKeys\<close> and \<open>SyncOnce\<close> call it, each marking the failure.
\<close>

definition resolveKeys :: "kv_env \<Rightarrow> Store \<Rightarrow> Store \<times> store_error option" where
  "resolveKeys env s = (case en_resolve env of
      Inl err \<Rightarrow> (markResolveError (en_now env) err s, Some (ResolveErr err))
    | Inr (key, nsid) \<Rightarrow> (markReadyLocked (s\<lparr>st_nsKey := Some key, st_nsID := nsid\<rparr>), None))"

definition resolveIfNeeded :: "kv_env \<Rightarrow> Store \<Rightarrow> Store \<times> store_error option" where
  "resolveIfNeeded env s =
     (if st_nsKey s = None \<or> st_nsID s = [] then resolveKeys env s else (s, None))"

section \<open>Writes\<close>

text \<open>\<open>PushToAll\<close>: start a round, or remember the trigger while one is running.\<close>

definition PushToAll :: "push_state \<Rightarrow> push_state" where
  "PushToAll ps = (if pushRunning ps then ps\<lparr>pushPending := True\<rparr> else ps\<lparr>pushRunning := True\<rparr>)"

definition pokeSync :: "Store \<Rightarrow> Store" where
  "pokeSync s = s\<lparr>st_uploader := map_option (\<lambda>_. True) (st_uploader s),
     st_p2p := map_option PushToAll (st_p2p s)\<rparr>"

text \<open>The zero \<open>Entry\<close> with the four fields the store sets.\<close>

definition local_request :: "EntryType \<Rightarrow> string \<Rightarrow> bytes \<Rightarrow> string \<Rightarrow> Entry" where
  "local_request ty key val ns = \<lparr>ke_Type = ty, ke_Key = key, ke_Value = val, ke_Namespace = ns,
     ke_Device = [], ke_Timestamp = 0, ke_Seq = 0, ke_Actor = [], ke_Counter = 0, ke_Context = fmempty\<rparr>"

definition store_append :: "kv_env \<Rightarrow> EntryType \<Rightarrow> string \<Rightarrow> bytes \<Rightarrow> Store \<Rightarrow> Store \<times> log_error option" where
  "store_append env ty key val s =
     (case AppendLocal (en_now env) (en_read env) (en_write env)
             (local_request ty key val (st_nsID s)) (st_localLog s) of
        (l, r) \<Rightarrow> (s\<lparr>st_localLog := l\<rparr>, r))"

definition Set_kv :: "kv_env \<Rightarrow> string \<Rightarrow> bytes \<Rightarrow> Store \<Rightarrow> Store \<times> store_error option" where
  "Set_kv env key val s = (case resolveIfNeeded env s of
      (s1, Some err) \<Rightarrow> (s1, Some err)
    | (s1, None) \<Rightarrow> (case ensureReady s1 of
        Some err \<Rightarrow> (s1, Some err)
      | None \<Rightarrow>
          if length val > MaxValueSize then (s1, Some ErrValueTooLarge)
          else (case store_append env KvSet key val s1 of
              (s2, Some err) \<Rightarrow> (s2, Some (LogErr err))
            | (s2, None) \<Rightarrow> (pokeSync s2, None))))"

text \<open>Evaluation: the size is compared as an integer.\<close>

lemma Set_kv_code [code]:
  "Set_kv env key val s = (case resolveIfNeeded env s of
      (s1, Some err) \<Rightarrow> (s1, Some err)
    | (s1, None) \<Rightarrow> (case ensureReady s1 of
        Some err \<Rightarrow> (s1, Some err)
      | None \<Rightarrow>
          if 8192 < int (length val) then (s1, Some ErrValueTooLarge)
          else (case store_append env KvSet key val s1 of
              (s2, Some err) \<Rightarrow> (s2, Some (LogErr err))
            | (s2, None) \<Rightarrow> (pokeSync s2, None))))"
proof -
  have "(length val > MaxValueSize) = (8192 < int (length val))" by (simp add: MaxValueSize_def)
  then show ?thesis by (simp only: Set_kv_def)
qed

text \<open>
  The loop of \<open>deleteKeys\<close>: an empty key stops it with an error, a key seen before is skipped. Every
  append of the call meets the same environment.
\<close>

fun delete_loop :: "kv_env \<Rightarrow> string list \<Rightarrow> string list \<Rightarrow> Store \<Rightarrow> Store \<times> store_error option" where
  "delete_loop env seen [] s = (s, None)"
| "delete_loop env seen (key # keys) s =
     (if key = [] then (s, Some KeyRequired)
      else if key \<in> set seen then delete_loop env seen keys s
      else (case store_append env KvDelete key [] s of
          (s1, Some err) \<Rightarrow> (s1, Some (LogErr err))
        | (s1, None) \<Rightarrow> delete_loop env (key # seen) keys s1))"

definition deleteKeys :: "kv_env \<Rightarrow> string list \<Rightarrow> Store \<Rightarrow> Store \<times> store_error option" where
  "deleteKeys env keys s =
     (if keys = [] then (s, None)
      else case resolveIfNeeded env s of
        (s1, Some err) \<Rightarrow> (s1, Some err)
      | (s1, None) \<Rightarrow> (case ensureReady s1 of
          Some err \<Rightarrow> (s1, Some err)
        | None \<Rightarrow> (case delete_loop env [] keys s1 of
            (s2, Some err) \<Rightarrow> (s2, Some err)
          | (s2, None) \<Rightarrow> (pokeSync s2, None))))"

definition Delete_kv :: "kv_env \<Rightarrow> string \<Rightarrow> Store \<Rightarrow> Store \<times> store_error option" where
  "Delete_kv env key s = deleteKeys env [key] s"

section \<open>Reads\<close>

definition store_Snapshot :: "kv_env \<Rightarrow> Store \<Rightarrow> Store \<times> (log_error + Snapshot)" where
  "store_Snapshot env s = (case Snapshot_of (en_now env) (en_read env) (st_localLog s) of
      (l, r) \<Rightarrow> (s\<lparr>st_localLog := l\<rparr>, r))"

definition Get_kv :: "kv_env \<Rightarrow> string \<Rightarrow> Store \<Rightarrow> Store \<times> bytes option" where
  "Get_kv env key s = (case log_Lookup (en_now env) (en_read env) (st_localLog s) key of
      (l, r) \<Rightarrow> (s\<lparr>st_localLog := l\<rparr>, map_option vi_Value r))"

definition List_kv :: "kv_env \<Rightarrow> string \<Rightarrow> Store \<Rightarrow> Store \<times> string list" where
  "List_kv env p s = (case store_Snapshot env s of
      (s1, Inl _) \<Rightarrow> (s1, [])
    | (s1, Inr snap) \<Rightarrow> (s1, if p = [] then Keys snap else KeysWithPrefix snap p))"

definition GetAll_kv :: "kv_env \<Rightarrow> string \<Rightarrow> Store \<Rightarrow> Store \<times> (string, bytes) gomap" where
  "GetAll_kv env p s = (case store_Snapshot env s of
      (s1, Inl _) \<Rightarrow> (s1, fmempty)
    | (s1, Inr snap) \<Rightarrow> (s1, fmmap vi_Value (fmfilter (\<lambda>key. p = [] \<or> HasPrefix key p) (ks_entries snap))))"

definition IsInternalKey :: "string \<Rightarrow> bool" where
  "IsInternalKey key = HasPrefix key ''_sys/''"

definition filterVisibleKeys :: "string list \<Rightarrow> bool \<Rightarrow> string list" where
  "filterVisibleKeys keys inc = (if inc then keys else filter (\<lambda>k. \<not> IsInternalKey k) keys)"

definition filterVisibleEntries :: "(string, bytes) gomap \<Rightarrow> bool \<Rightarrow> (string, bytes) gomap" where
  "filterVisibleEntries es inc = (if inc then es else fmfilter (\<lambda>k. \<not> IsInternalKey k) es)"

definition visibleKeyCount :: "Snapshot \<Rightarrow> nat" where
  "visibleKeyCount snap = length (filter (\<lambda>k. \<not> IsInternalKey k) (fm_keys (ks_entries snap)))"

definition filterKeysByPattern :: "string list \<Rightarrow> string \<Rightarrow> string list" where
  "filterKeysByPattern keys pattern = filter (\<lambda>key. matchPattern pattern key = Some True) keys"

definition ListMatching :: "kv_env \<Rightarrow> string \<Rightarrow> bool \<Rightarrow> Store \<Rightarrow> Store \<times> (log_error + string list)" where
  "ListMatching env pattern inc s = (case store_Snapshot env s of
      (s1, Inl err) \<Rightarrow> (s1, Inl err)
    | (s1, Inr snap) \<Rightarrow> (s1, Inr (filterKeysByPattern (filterVisibleKeys (Keys snap) inc) pattern)))"

section \<open>Status\<close>

datatype SyncState = SyncOk | SyncWaiting | SyncError

definition store_Ready :: "Store \<Rightarrow> bool" where
  "store_Ready s \<longleftrightarrow> st_nsKey s \<noteq> None \<and> st_nsID s \<noteq> [] \<and> sh_readyError (st_health s) = []"

definition SyncState_of :: "nat \<Rightarrow> Store \<Rightarrow> SyncState" where
  "SyncState_of peerCount s = (let health = st_health s in
     if \<not> store_Ready s then SyncError
     else if sh_mismatchAt health \<noteq> None then SyncError
     else if sh_lastSyncError health \<noteq> [] then SyncError
     else if st_expectedPeers s > 0 \<and> peerCount = 0 then SyncWaiting
     else if st_expectedPeers s > 0 \<and> sh_lastSyncOK health = None then SyncWaiting
     else SyncOk)"

definition SyncMessage_of :: "nat \<Rightarrow> Store \<Rightarrow> string" where
  "SyncMessage_of peerCount s = (let health = st_health s in
     if \<not> store_Ready s then
       (if sh_readyError health \<noteq> [] then sh_readyError health else ''KV namespace is not resolved'')
     else if sh_mismatchAt health \<noteq> None then
       ''Private-network KV namespace mismatch with peer '' @ sh_mismatchPeer health
     else if sh_lastSyncError health \<noteq> [] then sh_lastSyncError health
     else if st_expectedPeers s > 0 \<and> peerCount = 0 then ''No connected private-network peers''
     else if st_expectedPeers s > 0 \<and> sh_lastSyncOK health = None then
       ''Connected peers found, but no successful KV sync yet''
     else [])"

record Status =
  ss_Namespace :: string
  ss_DeviceID :: string
  ss_KeyCount :: nat
  ss_NSID :: string
  ss_Ready :: bool
  ss_PeerCount :: nat
  ss_ExpectedPeers :: int
  ss_SyncState :: SyncState
  ss_SyncMessage :: string
  ss_LastSyncOK :: "int option"
  ss_LastSyncPeer :: string
  ss_LastSyncError :: string
  ss_LastSyncErrorAt :: "int option"

text \<open>\<open>peers\<close> is the number of connected peers of the node; it counts only with a P2P handler.\<close>

definition Status_kv :: "kv_env \<Rightarrow> nat \<Rightarrow> Store \<Rightarrow> Store \<times> (log_error + Status)" where
  "Status_kv env peers s = (case store_Snapshot env s of
      (s1, Inl err) \<Rightarrow> (s1, Inl err)
    | (s1, Inr snap) \<Rightarrow>
        (let h = st_health s1; pc = (if st_p2p s1 \<noteq> None then peers else 0) in
         (s1, Inr \<lparr>ss_Namespace = st_namespace s1, ss_DeviceID = st_deviceID s1,
           ss_KeyCount = visibleKeyCount snap, ss_NSID = st_nsID s1, ss_Ready = store_Ready s1,
           ss_PeerCount = pc, ss_ExpectedPeers = st_expectedPeers s1,
           ss_SyncState = SyncState_of pc s1, ss_SyncMessage = SyncMessage_of pc s1,
           ss_LastSyncOK = sh_lastSyncOK h,
           ss_LastSyncPeer = (if sh_lastSyncOK h \<noteq> None then sh_lastSyncPeer h else []),
           ss_LastSyncError = sh_lastSyncError h,
           ss_LastSyncErrorAt = (if sh_lastSyncError h \<noteq> [] then sh_lastSyncErrorAt h else None)\<rparr>)))"

end
