(* ===== verification/Kv_Store_Props.thy ===== *)
theory Kv_Store_Props
  imports Kv_Store
begin

text \<open>
  The store as a map. The interface \<open>kv_store\<close> is what the collections of \<open>pkg/kv/collections\<close> and
  the mailbox rely on: an abstract map, which \<open>Set\<close> and \<open>Delete\<close> update when they succeed and leave
  alone when they fail, and which \<open>Get\<close> and \<open>List\<close> read. The store model implements it as long as
  its log is well formed and its counter is ahead of its own dots (\<open>store_inv\<close>, with the number of
  writes for which the \<open>int64\<close> counter still has room).
\<close>

section \<open>The interface\<close>

locale kv_store =
  fixes inv :: "nat \<Rightarrow> 's \<Rightarrow> bool"
    and view :: "'s \<Rightarrow> string \<Rightarrow> bytes option"
    and env_ok :: "'e \<Rightarrow> bool"
    and set_op :: "'e \<Rightarrow> string \<Rightarrow> bytes \<Rightarrow> 's \<Rightarrow> 's \<times> 'err option"
    and get_op :: "'e \<Rightarrow> string \<Rightarrow> 's \<Rightarrow> 's \<times> bytes option"
    and del_op :: "'e \<Rightarrow> string \<Rightarrow> 's \<Rightarrow> 's \<times> 'err option"
    and list_op :: "'e \<Rightarrow> string \<Rightarrow> 's \<Rightarrow> 's \<times> string list"
  assumes set_law: "inv (Suc n) s \<Longrightarrow> env_ok e \<Longrightarrow> utf8_valid k \<Longrightarrow> set_op e k v s = (s', r) \<Longrightarrow>
      inv n s' \<and> view s' = (if r = None then (view s)(k \<mapsto> v) else view s)"
    and get_law: "inv n s \<Longrightarrow> env_ok e \<Longrightarrow> get_op e k s = (s', x) \<Longrightarrow>
      inv n s' \<and> view s' = view s \<and> x = view s k"
    and del_law: "inv (Suc n) s \<Longrightarrow> env_ok e \<Longrightarrow> utf8_valid k \<Longrightarrow> del_op e k s = (s', r) \<Longrightarrow>
      inv n s' \<and> view s' = (if r = None then (view s)(k := None) else view s)"
    and list_law: "inv n s \<Longrightarrow> env_ok e \<Longrightarrow> list_op e p s = (s', ks) \<Longrightarrow>
      inv n s' \<and> view s' = view s \<and> sorted ks \<and> distinct ks \<and>
      set ks = {k. view s k \<noteq> None \<and> prefix p k}"

section \<open>The log below the store\<close>

definition base_seq :: "LocalLog \<Rightarrow> int" where
  "base_seq l = ll_seq (log_base 0 l)"

definition seq_room :: "nat \<Rightarrow> LocalLog \<Rightarrow> bool" where
  "seq_room n l \<longleftrightarrow> 0 \<le> base_seq l \<and> base_seq l + int n < 2 ^ 63 \<and>
     vv_get (ks_vector (log_current 0 l)) (ll_actorID l) < word_of_int (base_seq l + 1)"

definition log_inv :: "nat \<Rightarrow> LocalLog \<Rightarrow> bool" where
  "log_inv n l \<longleftrightarrow> log_ok l \<and> list_all entry_dotted (file_entries (ll_file l)) \<and> ll_actorID l \<noteq> [] \<and>
     seq_room n l"

definition log_view :: "LocalLog \<Rightarrow> string \<Rightarrow> bytes option" where
  "log_view l k = map_option vi_Value (Lookup (log_current 0 l) k)"

lemma current_now: "log_ok l \<Longrightarrow> same_state (log_current t l) (log_current t' l)"
  using log_ok_current [of l t 0] log_ok_current [of l t' 0] same_state_sym same_state_trans by blast

lemma current_vector_now: "log_ok l \<Longrightarrow> ks_vector (log_current t l) = ks_vector (log_current t' l)"
  using current_now [of l t t'] by (simp add: same_state_def)

lemma current_reg_now: "log_ok l \<Longrightarrow> kv_reg (log_current t l) k = kv_reg (log_current t' l) k"
  using current_now [of l t t'] by (rule same_state_reg)

lemma base_seq_now: "ll_seq (log_base t l) = base_seq l"
  by (simp add: base_seq_def log_base_def split: option.split)

lemma base_seq_cached: "ll_cache l = Some c \<Longrightarrow> base_seq l = ll_seq l"
  by (simp add: base_seq_def log_base_def)

lemma seq_room_ahead: "log_ok l \<Longrightarrow> seq_room (Suc n) l \<Longrightarrow> seq_ahead t l"
  using current_vector_now [of l t 0] by (auto simp: seq_room_def seq_ahead_def base_seq_now)

lemma log_view_reg:
  "log_view l k = (case kv_reg (log_current 0 l) k of Some (VVal v) \<Rightarrow> Some (vi_Value v) | _ \<Rightarrow> None)"
  by (simp add: log_view_def Lookup_reg split: option.split version.split)

lemma next_room:
  assumes "0 \<le> s" "s + int (Suc n) < 2 ^ 63"
  shows "(word_of_int (s + 1) :: u64) < word_of_int (s + 1 + 1)" "0 \<le> s + 1" "s + 1 + int n < 2 ^ 63"
  using next_seq_word(3) [of s] assms by (simp_all add: add.assoc del: of_int_add)

lemma log_inv_write:
  assumes "log_inv (Suc n) l" "entry_ok e" "int64_ok now" "AppendLocal now rd wr e l = (l', None)"
  shows "log_inv n l'"
proof -
  have inv: "log_ok l" "list_all entry_dotted (file_entries (ll_file l))" "ll_actorID l \<noteq> []" "seq_room (Suc n) l"
    using assms(1) by (simp_all add: log_inv_def)
  note ahead = seq_room_ahead [OF inv(1,4), of now]
  note after = AppendLocal_after [OF ahead inv(3) assms(4), unfolded base_seq_now]
  have "seq_room n l'"
    using next_room [of "base_seq l" n] inv(4) after by (simp add: seq_room_def base_seq_now del: of_int_add)
  moreover have "log_ok l'"
    using log_ok_AppendLocal [OF inv(1) assms(2,3), of rd wr] assms(4) by simp
  moreover have "list_all entry_dotted (file_entries (ll_file l'))"
    using inv(2) entry_dotted_local [OF inv(1) ahead inv(3)]
    by (simp add: AppendLocal_state [OF assms(4)] file_entries_snoc entry_ok_local inv(1) assms(2,3))
  ultimately show ?thesis
    using inv(3) by (simp add: log_inv_def AppendLocal_state [OF assms(4)])
qed

lemma log_inv_mono: "log_inv (Suc n) l \<Longrightarrow> log_inv n l"
  by (auto simp: log_inv_def seq_room_def)

lemma log_inv_failed_write:
  assumes "log_inv (Suc n) l" "AppendLocal now rd wr e l = (l', Some err)"
  shows "log_inv n l' \<and> (\<forall>k. kv_reg (log_current 0 l') k = kv_reg (log_current 0 l) k)"
proof -
  have ok: "log_ok l" and room: "seq_room (Suc n) l" using assms(1) by (simp_all add: log_inv_def)
  let ?b = "(log_base now l)\<lparr>ll_seq := int64_wrap (ll_seq (log_base now l) + 1)\<rparr>"
  have sq: "int64_wrap (base_seq l + 1) = base_seq l + 1"
    using room by (intro int64_wrap_id) (simp add: seq_room_def int64_ok_def)
  have cur: "log_current t ?b = log_current now l" "base_seq ?b = base_seq l + 1" for t
    using sq by (simp_all add: log_current_def [of t] base_seq_now base_seq_cached)
  have "log_inv n ?b"
    using assms(1) log_ok_base [OF ok, of now] room next_room [of "base_seq l" n] current_vector_now [OF ok, of now 0]
    by (auto simp: log_inv_def seq_room_def cur log_ok_def simp del: of_int_add)
  moreover have "l' = l \<or> l' = ?b"
    using assms(2) by (rule_tac AppendLocal_cases [where now = now and rd = rd and wr = wr and e = e and l = l]) auto
  ultimately show ?thesis
    using log_inv_mono [OF assms(1)] current_reg_now [OF ok, where t = now and t' = 0] by (auto simp: cur)
qed


lemma log_view_write:
  assumes "log_inv (Suc n) l" "AppendLocal now rd wr e l = (l', None)" "ke_Type e = KvSet \<or> ke_Type e = KvDelete"
  shows "log_view l' = (log_view l)(ke_Key e := (if ke_Type e = KvSet then Some (ke_Value e) else None))"
proof
  fix k
  have inv: "log_ok l" "list_all entry_dotted (file_entries (ll_file l))" "ll_actorID l \<noteq> []" "seq_room (Suc n) l"
    using assms(1) by (simp_all add: log_inv_def)
  note ahead = seq_room_ahead [OF inv(1,4), of now]
  note sel = local_entry_sel [OF ahead inv(3)]
  have val: "ke_Value (normalizeEntry (local_entry now e l)) = ke_Value e"
    by (simp add: normalizeEntry_def sel)
  show "log_view l' k = ((log_view l)(ke_Key e := (if ke_Type e = KvSet then Some (ke_Value e) else None))) k"
    using assms(3) AppendLocal_reg [OF inv(1,2) ahead inv(3) assms(2), of 0 k] current_reg_now [OF inv(1), of now k 0]
    by (auto simp: log_view_reg entry_version_def Let_def sel value_of_entry_def val split: option.splits)
qed

section \<open>The store implements the interface\<close>

definition store_inv :: "nat \<Rightarrow> Store \<Rightarrow> bool" where
  "store_inv n s \<longleftrightarrow> log_inv n (st_localLog s) \<and> utf8_valid (st_nsID s)"

definition store_view :: "Store \<Rightarrow> string \<Rightarrow> bytes option" where
  "store_view s = log_view (st_localLog s)"

text \<open>The clock is an \<open>int64\<close>, the log file can be read, and a resolved namespace ID is text (it is hexadecimal).\<close>

definition env_ok :: "kv_env \<Rightarrow> bool" where
  "env_ok e \<longleftrightarrow> int64_ok (en_now e) \<and> en_read e = None \<and>
     (case en_resolve e of Inl _ \<Rightarrow> True | Inr (_, nsid) \<Rightarrow> utf8_valid nsid)"

lemma resolve_same_log:
  assumes "resolveIfNeeded e s = (s', r)" "env_ok e" "store_inv n s"
  shows "store_inv n s' \<and> store_view s' = store_view s"
  using assms
  by (auto simp: resolveIfNeeded_def resolveKeys_def markResolveError_def markReadyLocked_def store_inv_def
      store_view_def env_ok_def split: if_splits sum.splits prod.splits)

lemma pokeSync_log [simp]: "st_localLog (pokeSync s) = st_localLog s" "st_nsID (pokeSync s) = st_nsID s"
  by (simp_all add: pokeSync_def)

lemma local_request_sel [simp]:
  "ke_Type (local_request ty k v ns) = ty" "ke_Key (local_request ty k v ns) = k"
  "ke_Value (local_request ty k v ns) = v"
  by (simp_all add: local_request_def)

lemma request_ok:
  "ty = KvSet \<or> ty = KvDelete \<Longrightarrow> utf8_valid k \<Longrightarrow> utf8_valid ns \<Longrightarrow> entry_ok (local_request ty k v ns)"
  by (auto simp: entry_ok_def local_request_def int64_ok_def type_of_string_def)

lemma store_append_law:
  assumes "store_inv (Suc n) s" "env_ok e" "utf8_valid k" "ty = KvSet \<or> ty = KvDelete"
    and "store_append e ty k v s = (s', r)"
  shows "store_inv n s' \<and> store_view s' =
    (if r = None then (store_view s)(k := (if ty = KvSet then Some v else None)) else store_view s)"
proof -
  let ?req = "local_request ty k v (st_nsID s)"
  obtain l where l: "AppendLocal (en_now e) (en_read e) (en_write e) ?req (st_localLog s) = (l, r)"
    and s': "s' = s\<lparr>st_localLog := l\<rparr>"
    using assms(5) by (auto simp: store_append_def split: prod.splits)
  have req: "entry_ok ?req"
    using assms(1,3,4) by (simp add: request_ok store_inv_def)
  have inv: "log_inv (Suc n) (st_localLog s)" and now: "int64_ok (en_now e)"
    using assms(1,2) by (simp_all add: store_inv_def env_ok_def)
  show ?thesis
  proof (cases r)
    case None
    with l have l: "AppendLocal (en_now e) (en_read e) (en_write e) ?req (st_localLog s) = (l, None)" by simp
    show ?thesis
      using log_inv_write [OF inv req now l] log_view_write [OF inv l] assms(1,4) None
      by (simp add: s' store_inv_def store_view_def)
  next
    case (Some err)
    with l have l: "AppendLocal (en_now e) (en_read e) (en_write e) ?req (st_localLog s) = (l, Some err)" by simp
    show ?thesis
      using log_inv_failed_write [OF inv l] assms(1) Some
      by (auto simp: s' store_inv_def store_view_def log_view_reg fun_eq_iff)
  qed
qed

lemma store_inv_mono: "store_inv (Suc n) s \<Longrightarrow> store_inv n s"
  by (auto simp: store_inv_def log_inv_mono)

lemma Set_law:
  assumes "store_inv (Suc n) s" "env_ok e" "utf8_valid k" "Set_kv e k v s = (s', r)"
  shows "store_inv n s' \<and> store_view s' = (if r = None then (store_view s)(k \<mapsto> v) else store_view s)"
proof -
  obtain s1 r1 where res: "resolveIfNeeded e s = (s1, r1)" by fastforce
  note one = resolve_same_log [OF res assms(2,1)]
  obtain s2 r2 where app: "store_append e KvSet k v s1 = (s2, r2)" by fastforce
  note two = store_append_law [OF conjunct1 [OF one] assms(2,3) _ app]
  show ?thesis
    using assms(4) one two store_inv_mono
    by (auto simp: Set_kv_def res app store_inv_def store_view_def split: option.splits if_splits)
qed

lemma Delete_law:
  assumes "store_inv (Suc n) s" "env_ok e" "utf8_valid k" "Delete_kv e k s = (s', r)"
  shows "store_inv n s' \<and> store_view s' = (if r = None then (store_view s)(k := None) else store_view s)"
proof -
  obtain s1 r1 where res: "resolveIfNeeded e s = (s1, r1)" by fastforce
  note one = resolve_same_log [OF res assms(2,1)]
  obtain s2 r2 where app: "store_append e KvDelete k [] s1 = (s2, r2)" by fastforce
  note two = store_append_law [OF conjunct1 [OF one] assms(2,3) _ app]
  show ?thesis
    using assms(4) one two store_inv_mono
    by (auto simp: Delete_kv_def deleteKeys_def res app store_inv_def store_view_def split: option.splits if_splits)
qed

lemma Snapshot_law:
  assumes "store_inv n s" "env_ok e"
  obtains s' where "store_Snapshot e s = (s', Inr (log_current (en_now e) (st_localLog s)))"
    "store_inv n s'" "store_view s' = store_view s"
proof -
  let ?l = "st_localLog s"
  have ok: "log_ok ?l" using assms(1) by (simp add: store_inv_def log_inv_def)
  have "Snapshot_of (en_now e) None ?l = (log_base (en_now e) ?l, Inr (log_current (en_now e) ?l))"
    by (simp add: Snapshot_of_def rebuildLocked_def readAllLocked_def log_base_def log_current_def Let_def
        file_entries_def split: option.split)
  moreover have cur: "log_current 0 (log_base (en_now e) ?l) = log_current (en_now e) ?l"
    by (simp add: log_current_def [of 0])
  moreover have "base_seq (log_base (en_now e) ?l) = base_seq ?l"
    by (simp add: base_seq_cached base_seq_now)
  moreover have "kv_reg (log_current 0 (log_base (en_now e) ?l)) k = kv_reg (log_current 0 ?l) k" for k
    using current_reg_now [OF ok, of "en_now e" k 0] by (simp add: cur)
  ultimately show thesis
    using assms log_ok_base [OF ok, of "en_now e"] current_vector_now [OF ok, of "en_now e" 0]
    by (intro that [of "s\<lparr>st_localLog := log_base (en_now e) ?l\<rparr>"])
      (auto simp: store_Snapshot_def env_ok_def store_inv_def log_inv_def seq_room_def store_view_def log_view_reg
        fun_eq_iff)
qed

lemma Get_law:
  assumes "store_inv n s" "env_ok e" "Get_kv e k s = (s', x)"
  shows "store_inv n s' \<and> store_view s' = store_view s \<and> x = store_view s k"
  using assms(1,2)
proof (rule Snapshot_law)
  fix s1
  assume snap: "store_Snapshot e s = (s1, Inr (log_current (en_now e) (st_localLog s)))"
    and inv: "store_inv n s1" and view: "store_view s1 = store_view s"
  have ok: "log_ok (st_localLog s)" using assms(1) by (simp add: store_inv_def log_inv_def)
  have "s' = s1" "x = map_option vi_Value (Lookup (log_current (en_now e) (st_localLog s)) k)"
    using snap assms(3) by (auto simp: store_Snapshot_def Get_kv_def log_Lookup_def split: prod.splits)
  then show ?thesis
    using inv view current_reg_now [OF ok, of "en_now e" k 0]
    by (simp add: store_view_def log_view_def Lookup_reg)
qed

lemma List_law:
  assumes "store_inv n s" "env_ok e" "List_kv e p s = (s', ks)"
  shows "store_inv n s' \<and> store_view s' = store_view s \<and> sorted ks \<and> distinct ks \<and>
         set ks = {k. store_view s k \<noteq> None \<and> prefix p k}"
  using assms(1,2)
proof (rule Snapshot_law)
  fix s1
  let ?c = "log_current (en_now e) (st_localLog s)"
  assume snap: "store_Snapshot e s = (s1, Inr ?c)"
    and inv: "store_inv n s1" and view: "store_view s1 = store_view s"
  have ok: "log_ok (st_localLog s)" using assms(1) by (simp add: store_inv_def log_inv_def)
  have "fmlookup (ks_entries ?c) k \<noteq> None \<longleftrightarrow> store_view s k \<noteq> None" for k
    using current_now [OF ok, of "en_now e" 0] by (simp add: store_view_def log_view_def Lookup_def same_state_def)
  then have "fmdom' (ks_entries ?c) = {k. store_view s k \<noteq> None}"
    by (auto simp: fmlookup_dom'_iff)
  then show ?thesis
    using assms(3) inv view
    by (auto simp: List_kv_def snap Keys_def KeysWithPrefix_def HasPrefix_iff_prefix split: if_splits)
qed

interpretation store: kv_store store_inv store_view env_ok Set_kv Get_kv Delete_kv List_kv
proof
  show "store_inv (Suc n) s \<Longrightarrow> env_ok e \<Longrightarrow> utf8_valid k \<Longrightarrow> Set_kv e k v s = (s', r) \<Longrightarrow>
      store_inv n s' \<and> store_view s' = (if r = None then (store_view s)(k \<mapsto> v) else store_view s)" for n s e k v s' r
    by (rule Set_law)
  show "store_inv n s \<Longrightarrow> env_ok e \<Longrightarrow> Get_kv e k s = (s', x) \<Longrightarrow>
      store_inv n s' \<and> store_view s' = store_view s \<and> x = store_view s k" for n s e k s' x
    by (rule Get_law)
  show "store_inv (Suc n) s \<Longrightarrow> env_ok e \<Longrightarrow> utf8_valid k \<Longrightarrow> Delete_kv e k s = (s', r) \<Longrightarrow>
      store_inv n s' \<and> store_view s' = (if r = None then (store_view s)(k := None) else store_view s)" for n s e k s' r
    by (rule Delete_law)
  show "store_inv n s \<Longrightarrow> env_ok e \<Longrightarrow> List_kv e p s = (s', ks) \<Longrightarrow>
      store_inv n s' \<and> store_view s' = store_view s \<and> sorted ks \<and> distinct ks \<and>
      set ks = {k. store_view s k \<noteq> None \<and> prefix p k}" for n s e p s' ks
    by (rule List_law)
qed

section \<open>Properties of the store\<close>

lemma delete_loop_law:
  assumes "store_inv (length keys + n) s" "env_ok e" "list_all utf8_valid keys"
    and "delete_loop e seen keys s = (s', r)"
  shows "store_inv n s' \<and>
         (r = None \<longrightarrow> store_view s' = (\<lambda>k. if k \<in> set keys \<and> k \<notin> set seen then None else store_view s k)) \<and>
         (\<forall>k. k \<notin> set keys \<longrightarrow> store_view s' k = store_view s k)"
  using assms(1,3,4)
proof (induction keys arbitrary: seen s)
  case (Cons key keys)
  have mono: "store_inv m s \<Longrightarrow> i \<le> m \<Longrightarrow> store_inv i s" for m i
    by (auto simp: store_inv_def log_inv_def seq_room_def)
  show ?case
  proof (cases "key = [] \<or> key \<in> set seen")
    case True
    have "store_inv (length keys + n) s" "store_inv n s"
      using Cons.prems(1) by (auto intro: mono)
    then show ?thesis
      using Cons.IH [of s seen] Cons.prems(2,3) True by (cases "key = []") auto
  next
    case False
    obtain s1 r1 where app: "store_append e KvDelete key [] s = (s1, r1)" by fastforce
    have "store_inv (Suc (length keys + n)) s" using Cons.prems(1) by simp
    from store_append_law [OF this assms(2) _ _ app] Cons.prems(2)
    have one: "store_inv (length keys + n) s1"
      "store_view s1 = (if r1 = None then (store_view s)(key := None) else store_view s)"
      by simp_all
    show ?thesis
    proof (cases r1)
      case None
      then have "delete_loop e (key # seen) keys s1 = (s', r)"
        using Cons.prems(3) False app by simp
      from Cons.IH [OF one(1) _ this] Cons.prems(2) show ?thesis
        using one(2) None False by (auto simp: fun_eq_iff)
    next
      case (Some err)
      then have "s' = s1" "r \<noteq> None" using Cons.prems(3) False app by auto
      then show ?thesis
        using one Some by (auto simp: store_inv_def log_inv_def seq_room_def)
    qed
  qed
qed (auto simp: fun_eq_iff)

text \<open>
  C13. The store is a map: under its invariant a successful \<open>Set\<close> updates exactly the given key, a
  failing \<open>Set\<close> changes no key, \<open>Get\<close> returns what the map holds, and the invariant is kept. A value
  over 8 KiB is refused once the namespace is resolved.
\<close>
theorem store_Set_Get:
  assumes "store_inv (Suc n) s" "env_ok e" "env_ok e'" "utf8_valid k"
    and "Set_kv e k v s = (s', r)"
  shows "store_inv n s' \<and>
         (r = None \<longrightarrow> snd (Get_kv e' k s') = Some v) \<and>
         (r \<noteq> None \<or> k' \<noteq> k \<longrightarrow> snd (Get_kv e' k' s') = snd (Get_kv e k' s)) \<and>
         (st_nsKey s \<noteq> None \<and> st_nsID s \<noteq> [] \<and> length v > 8192 \<longrightarrow> r = Some ErrValueTooLarge)"
proof -
  note law = Set_law [OF assms(1,2,4,5)]
  have get: "snd (Get_kv e' key s') = store_view s' key" "snd (Get_kv e key s) = store_view s key" for key
    using Get_law [OF conjunct1 [OF law] assms(3), of key] Get_law [OF assms(1,2), of key]
    by (metis prod.collapse)+
  show ?thesis
    using law assms(5)
    by (auto simp: get Set_kv_def resolveIfNeeded_def ensureReady_def MaxValueSize_def)
qed

definition example_env :: kv_env where
  "example_env = \<lparr>en_now = 5, en_read = None, en_write = None, en_resolve = Inr ([1], ''n'')\<rparr>"

definition example_store :: Store where
  "example_store = \<lparr>st_namespace = ''main'', st_expectedPeers = 0, st_deviceID = ''D-A'',
     st_localLog = NewLocalLog None ''A'', st_nsKey = None, st_nsID = [], st_uploader = None, st_p2p = None,
     st_health = \<lparr>sh_ready = False, sh_readyError = [], sh_lastSyncOK = None, sh_lastSyncPeer = [],
       sh_lastSyncErrorAt = None, sh_lastSyncError = [], sh_lastSyncErrPeer = [], sh_mismatchAt = None,
       sh_mismatchPeer = [], sh_mismatchGot = [], sh_mismatchWant = []\<rparr>\<rparr>"

lemma example_store_inv: "store_inv 9 example_store" "env_ok example_env"
proof -
  have "log_ok (NewLocalLog None ''A'')" unfolding NewLocalLog_def by (rule log_ok_new) code_simp+
  moreover have "list_all entry_dotted (file_entries (ll_file (NewLocalLog None ''A'')))"
    "seq_room 9 (NewLocalLog None ''A'')" "ll_actorID (NewLocalLog None ''A'') \<noteq> []"
    by code_simp+
  ultimately show "store_inv 9 example_store"
    by (simp add: store_inv_def log_inv_def example_store_def)
  show "env_ok example_env" by code_simp
qed

theorem store_Set_Get_witness:
  "snd (Get_kv example_env ''k'' (fst (Set_kv example_env ''k'' [1, 2] example_store))) = Some [1, 2]"
proof -
  have "snd (Set_kv example_env ''k'' [1, 2] example_store) = None" "utf8_valid ''k''" by code_simp+
  then show ?thesis
    using store_Set_Get [of 8 example_store example_env example_env "''k''" "[1, 2]"
        "fst (Set_kv example_env ''k'' [1, 2] example_store)" None] example_store_inv
    by (simp add: prod_eq_iff)
qed

text \<open>
  \<open>DeleteMany\<close> deletes exactly the given keys when it succeeds, and never touches another key;
  an empty key anywhere makes it fail, possibly after some deletes have been written.
\<close>
lemma store_DeleteMany:
  assumes "store_inv (length keys + n) s" "env_ok e" "list_all utf8_valid keys"
    and "deleteKeys e keys s = (s', r)"
  shows "store_inv n s' \<and>
         (r = None \<longrightarrow> store_view s' = (\<lambda>k. if k \<in> set keys then None else store_view s k)) \<and>
         (\<forall>k. k \<notin> set keys \<longrightarrow> store_view s' k = store_view s k) \<and>
         ([] \<in> set keys \<longrightarrow> r \<noteq> None)"
proof -
  obtain s1 r1 where res: "resolveIfNeeded e s = (s1, r1)" by fastforce
  obtain s2 r2 where loop: "delete_loop e [] keys s1 = (s2, r2)" by fastforce
  note one = resolve_same_log [OF res assms(2,1)]
  note two = delete_loop_law [OF conjunct1 [OF one] assms(2,3) loop]
  have empty: "[] \<in> set ks \<Longrightarrow> [] \<notin> set seen \<Longrightarrow> snd (delete_loop e seen ks t) \<noteq> None" for ks seen t
    by (induction ks arbitrary: seen t) (auto split: prod.splits option.splits)
  have s1: "store_inv n s1" using one by (auto simp: store_inv_def log_inv_def seq_room_def)
  have poke: "store_inv n (pokeSync s2) = store_inv n s2" "store_view (pokeSync s2) = store_view s2"
    by (simp_all add: store_inv_def store_view_def)
  consider (nil) "keys = []" "s' = s" "r = None"
    | (early) "keys \<noteq> []" "s' = s1" "r \<noteq> None"
    | (err) "keys \<noteq> []" "s' = s2" "r \<noteq> None"
    | (ok) "s' = pokeSync s2" "r = None" "r2 = None"
    using assms(4)
    by (cases r1; cases "ensureReady s1"; cases r2) (auto simp: deleteKeys_def res loop split: if_splits dest: sym)
  then show ?thesis
  proof cases
    case nil
    then show ?thesis using assms(1) by simp
  next
    case early
    then show ?thesis using s1 one by auto
  next
    case err
    then show ?thesis using two one by auto
  next
    case ok
    then show ?thesis using two one empty [of keys "[]" s1] loop by (auto simp: poke)
  qed
qed

end
