(* ===== verification/Kv_P2P.thy ===== *)
theory Kv_P2P
  imports Kv_Store_Props
begin

text \<open>
  Peer-to-peer anti-entropy of \<open>pkg/kv/p2p.go\<close>: the scheduler that coalesces push triggers
  (\<open>PushToAll\<close>, \<open>runPushLoop\<close>), the choice of the store a message is for, and the two sides of a
  summary exchange. Encryption and JSON syntax are the two parameters \<open>seal\<close> and \<open>unseal\<close>; a stream
  failure is an argument. \<open>ord\<close> gives the orders in which the maps of a received snapshot are ranged
  over.
\<close>

section \<open>The push scheduler\<close>

datatype push_phase = PushIdle | PushRound | PushDelay

text \<open>The last field is for the specification only: a trigger came and no round has started since.\<close>

record push_loop =
  pl_flags :: push_state
  pl_phase :: push_phase
  pl_unserved :: bool

datatype push_event = Trigger | RoundDone | DelayOver | Cancelled

fun push_step :: "push_event \<Rightarrow> push_loop \<Rightarrow> push_loop option" where
  "push_step Trigger p = (if pushRunning (pl_flags p)
     then Some (p\<lparr>pl_flags := PushToAll (pl_flags p), pl_unserved := True\<rparr>)
     else Some (p\<lparr>pl_flags := PushToAll (pl_flags p), pl_phase := PushRound, pl_unserved := False\<rparr>))"
| "push_step RoundDone p = (if pl_phase p = PushRound then
     (if \<not> pushPending (pl_flags p)
      then Some (p\<lparr>pl_flags := (pl_flags p)\<lparr>pushRunning := False\<rparr>, pl_phase := PushIdle\<rparr>)
      else Some (p\<lparr>pl_flags := (pl_flags p)\<lparr>pushPending := False\<rparr>, pl_phase := PushDelay\<rparr>)) else None)"
| "push_step DelayOver p = (if pl_phase p = PushDelay
     then Some (p\<lparr>pl_phase := PushRound, pl_unserved := False\<rparr>) else None)"
| "push_step Cancelled p = (if pl_phase p = PushDelay
     then Some (p\<lparr>pl_flags := (pl_flags p)\<lparr>pushRunning := False, pushPending := False\<rparr>, pl_phase := PushIdle\<rparr>)
     else None)"

fun push_run :: "push_event list \<Rightarrow> push_loop \<Rightarrow> push_loop option" where
  "push_run [] p = Some p"
| "push_run (e # es) p = Option.bind (push_step e p) (push_run es)"

definition push_init :: push_loop where
  "push_init = \<lparr>pl_flags = \<lparr>pushRunning = False, pushPending = False\<rparr>, pl_phase = PushIdle, pl_unserved = False\<rparr>"

definition push_inv :: "push_loop \<Rightarrow> bool" where
  "push_inv p \<longleftrightarrow> (pushRunning (pl_flags p) \<longleftrightarrow> pl_phase p \<noteq> PushIdle) \<and>
     (pushPending (pl_flags p) \<longrightarrow> pushRunning (pl_flags p)) \<and>
     (pl_unserved p \<longrightarrow> pushPending (pl_flags p) \<or> pl_phase p = PushDelay)"

lemma push_step_inv: "push_step e p = Some q \<Longrightarrow> e \<noteq> Cancelled \<Longrightarrow> push_inv p \<Longrightarrow> push_inv q"
  by (cases e) (auto simp: push_inv_def PushToAll_def split: if_splits)

lemma push_run_inv: "push_run es p = Some q \<Longrightarrow> Cancelled \<notin> set es \<Longrightarrow> push_inv p \<Longrightarrow> push_inv q"
proof (induction es arbitrary: p)
  case (Cons e es)
  obtain r where r: "push_step e p = Some r" "push_run es r = Some q"
    using Cons.prems(1) by (auto split: bind_splits)
  with Cons.prems have "push_inv r" by (auto intro: push_step_inv)
  with Cons.IH [OF r(2)] Cons.prems show ?case by simp
qed simp

lemma push_drains:
  assumes "push_inv p"
  shows "\<exists>es q. set es \<subseteq> {RoundDone, DelayOver} \<and> length es \<le> 5 \<and> push_run es p = Some q \<and> pl_phase q = PushIdle"
proof (cases "pl_phase p")
  case PushIdle
  then show ?thesis by (intro exI [of _ "[]"]) simp
next
  case PushRound
  then show ?thesis
    by (cases "pushPending (pl_flags p)")
      (force intro: exI [of _ "[RoundDone, DelayOver, RoundDone]"] exI [of _ "[RoundDone]"])+
next
  case PushDelay
  then show ?thesis
    by (cases "pushPending (pl_flags p)")
      (force intro: exI [of _ "[DelayOver, RoundDone, DelayOver, RoundDone]"] exI [of _ "[DelayOver, RoundDone]"])+
qed

text \<open>
  C15. Coalescing loses no trigger: as long as the loop's context is not cancelled, whenever the loop
  is idle a round has started after the last trigger; and from every reachable state the loop becomes
  idle within five further events once no trigger arrives.
\<close>
theorem push_coalescing_serves_triggers:
  assumes "push_run es push_init = Some p" "Cancelled \<notin> set es"
  shows "(pl_phase p = PushIdle \<longrightarrow> \<not> pl_unserved p) \<and>
         (\<exists>fs q. set fs \<subseteq> {RoundDone, DelayOver} \<and> length fs \<le> 5 \<and> push_run fs p = Some q \<and>
            pl_phase q = PushIdle \<and> \<not> pl_unserved q)"
proof -
  have inv: "push_inv p"
    by (rule push_run_inv [OF assms]) (simp add: push_inv_def push_init_def)
  obtain fs q where fs: "set fs \<subseteq> {RoundDone, DelayOver}" "length fs \<le> 5" "push_run fs p = Some q" "pl_phase q = PushIdle"
    using push_drains [OF inv] by blast
  have "push_inv q" by (rule push_run_inv [OF fs(3) _ inv]) (use fs(1) in auto)
  with inv fs show ?thesis by (auto simp: push_inv_def)
qed

theorem push_coalescing_serves_triggers_witness:
  "pl_phase (the (push_run [Trigger, Trigger, RoundDone, DelayOver, RoundDone] push_init)) = PushIdle \<and>
   \<not> pl_unserved (the (push_run [Trigger, Trigger, RoundDone, DelayOver, RoundDone] push_init))"
proof -
  let ?p = "the (push_run [Trigger, Trigger, RoundDone, DelayOver, RoundDone] push_init)"
  have "push_run [Trigger, Trigger, RoundDone, DelayOver, RoundDone] push_init = Some ?p"
    "pl_phase ?p = PushIdle" by code_simp+
  then show ?thesis
    using push_coalescing_serves_triggers [of "[Trigger, Trigger, RoundDone, DelayOver, RoundDone]" ?p] by simp
qed

text \<open>
  A cancelled context drops other callers' triggers: the loop runs under the context of whoever
  started it, so when that caller's context ends during the delay, a trigger of another caller is
  forgotten and no round follows it.
\<close>
lemma push_cancel_drops_trigger:
  "\<exists>p. push_run [Trigger, Trigger, RoundDone, Cancelled] push_init = Some p \<and>
       pl_phase p = PushIdle \<and> \<not> pushPending (pl_flags p) \<and> pl_unserved p"
  by (simp add: push_init_def PushToAll_def)

section \<open>Messages\<close>

datatype msg_type = MSummary | MDelta | MSnapshot | MError | MOther string

record 'c p2pSyncMsg =
  pm_Type :: msg_type
  pm_NSID :: string
  pm_Summary :: "SnapshotSummary option"
  pm_Data :: "'c option"
  pm_Error :: string
  pm_ExpectedNSID :: string
  pm_ObservedNSID :: string

text \<open>
  The registered stores, as positions of a list; \<open>AddStore\<close> never adds a nil store. A message for an
  unknown namespace goes to the only store, marked as inexact.
\<close>

definition storeForNSID :: "Store list \<Rightarrow> string \<Rightarrow> (nat \<times> bool) option" where
  "storeForNSID stores nsid =
     (case List.find (\<lambda>i. st_nsID (stores ! i) = nsid) [0 ..< length stores] of
        Some i \<Rightarrow> Some (i, True)
      | None \<Rightarrow> if length stores = 1 then Some (0, False) else None)"

definition errorResponse :: "string \<Rightarrow> string \<Rightarrow> string \<Rightarrow> 'c p2pSyncMsg" where
  "errorResponse msg expected observed = \<lparr>pm_Type = MError, pm_NSID = expected, pm_Summary = None,
     pm_Data = None, pm_Error = msg, pm_ExpectedNSID = expected, pm_ObservedNSID = observed\<rparr>"

datatype p2p_error = UnknownNamespace | NamespaceNotResolved | NamespaceMismatch | BadData

definition encodeSnapshotData ::
  "(bytes \<Rightarrow> json \<Rightarrow> 'c option) \<Rightarrow> int \<Rightarrow> Store \<Rightarrow> Snapshot \<Rightarrow> 'c option" where
  "encodeSnapshotData seal now store snap = do {
     key \<leftarrow> st_nsKey store; j \<leftarrow> MarshalSnapshot now (Some snap); seal key j }"

definition decodeSnapshotData :: "(bytes \<Rightarrow> 'c \<Rightarrow> json option) \<Rightarrow> Store \<Rightarrow> 'c \<Rightarrow> Snapshot option" where
  "decodeSnapshotData unseal store data = do {
     key \<leftarrow> st_nsKey store; j \<leftarrow> unseal key data; UnmarshalSnapshot j }"

text \<open>
  The answer to a summary: the reply (if the local snapshot can be read and the reply can be
  written), the delta to send afterwards, and the state of the store.
\<close>

definition handleSummary ::
  "kv_env \<Rightarrow> string option \<Rightarrow> string \<Rightarrow> 'c p2pSyncMsg \<Rightarrow> Store list
    \<Rightarrow> Store list \<times> 'c p2pSyncMsg option \<times> Snapshot option" where
  "handleSummary env wr from msg stores = (case storeForNSID stores (pm_NSID msg) of
      None \<Rightarrow> (stores, Some (errorResponse ''unknown namespace'' [] (pm_NSID msg)), None)
    | Some (i, exact) \<Rightarrow>
        (let store = stores ! i; nsID = st_nsID store in
         if nsID = [] then (stores, Some (errorResponse ''kv namespace not resolved'' [] (pm_NSID msg)), None)
         else if \<not> exact \<or> pm_NSID msg \<noteq> nsID then
           (stores[i := recordNamespaceMismatch (en_now env) from (pm_NSID msg) nsID store],
            Some (errorResponse (''namespace mismatch: got '' @ pm_NSID msg @ '' want '' @ nsID) nsID (pm_NSID msg)), None)
         else case store_Snapshot env store of
             (s1, Inl _) \<Rightarrow> (stores[i := s1], Some (errorResponse ''local snapshot failed'' nsID (pm_NSID msg)), None)
           | (s1, Inr snap) \<Rightarrow>
               (let followUp = (case pm_Summary msg of None \<Rightarrow> None
                     | Some sm \<Rightarrow> (let delta = DeltaSince (Some snap) (ss_Vector sm) in
                         if HasState (Some delta) then Some delta else None))
                in case wr of
                     Some err \<Rightarrow> (stores[i := recordSyncError (en_now env) from err s1], None, None)
                   | None \<Rightarrow> (stores[i := recordSyncSuccess (en_now env) from s1],
                       Some \<lparr>pm_Type = MSummary, pm_NSID = nsID, pm_Summary = Some (Summary (Some snap)),
                         pm_Data = None, pm_Error = [], pm_ExpectedNSID = [], pm_ObservedNSID = []\<rparr>,
                       followUp))))"

text \<open>
  Merging a received delta or snapshot. \<open>io\<close> is the outcome of each append, \<open>save\<close> of writing the
  baseline; the peer's baseline is kept under the first 16 characters of its ID.
\<close>

definition mergeSnapshotMessage ::
  "(bytes \<Rightarrow> 'c \<Rightarrow> json option) \<Rightarrow> (Snapshot \<Rightarrow> string list \<times> string list) \<Rightarrow> (Snapshot option \<Rightarrow> string list)
    \<Rightarrow> int \<Rightarrow> (Entry \<Rightarrow> log_error option) \<Rightarrow> bool \<Rightarrow> 'c p2pSyncMsg \<Rightarrow> string \<Rightarrow> bool
    \<Rightarrow> baseline_files \<Rightarrow> Store list \<Rightarrow> baseline_files \<times> Store list \<times> (p2p_error + nat)" where
  "mergeSnapshotMessage unseal ord bord now io save msg from useBaseline files stores =
     (case storeForNSID stores (pm_NSID msg) of
        None \<Rightarrow> (files, stores, Inl UnknownNamespace)
      | Some (i, exact) \<Rightarrow>
          (let store = stores ! i; nsID = st_nsID store in
           if st_nsKey store = None \<or> nsID = [] then (files, stores, Inl NamespaceNotResolved)
           else if \<not> exact \<or> pm_NSID msg \<noteq> nsID then
             (files, stores[i := recordNamespaceMismatch now from (pm_NSID msg) nsID store], Inl NamespaceMismatch)
           else case pm_Data msg of
               None \<Rightarrow> (files, stores, Inr 0)
             | Some data \<Rightarrow>
                 (case decodeSnapshotData unseal store data of
                    None \<Rightarrow> (files, stores, Inl BadData)
                  | Some remote \<Rightarrow>
                      (let peerID = take 16 from;
                           baseline = (if useBaseline then baseline_Load files peerID else None)
                       in case diffAndMerge now io (fst (ord remote)) (snd (ord remote)) (bord baseline)
                                 (st_localLog store) remote baseline of
                         (l, merged) \<Rightarrow>
                           (let s1 = store\<lparr>st_localLog := l\<rparr>;
                                s2 = (if merged = 0 then s1
                                      else if st_uploader s1 \<noteq> None then s1\<lparr>st_uploader := Some True\<rparr>
                                      else pokeSync s1)
                            in ((if useBaseline then baseline_Save now save peerID remote files else files),
                                stores[i := recordSyncSuccess now from s2], Inr merged))))))"

text \<open>
  The initiating side: the summary it asks with, and what it does with the reply. \<open>reply\<close> is a
  transport error or the peer's message; the result carries the delta message to send, if any.
\<close>

definition syncRequest :: "kv_env \<Rightarrow> Store \<Rightarrow> Store \<times> 'c p2pSyncMsg option" where
  "syncRequest env store = (case store_Snapshot env store of
      (s1, Inl _) \<Rightarrow> (s1, None)
    | (s1, Inr snap) \<Rightarrow> if st_nsID s1 = [] then (s1, None)
        else (s1, Some \<lparr>pm_Type = MSummary, pm_NSID = st_nsID s1, pm_Summary = Some (Summary (Some snap)),
               pm_Data = None, pm_Error = [], pm_ExpectedNSID = [], pm_ObservedNSID = []\<rparr>))"

definition deltaMessage ::
  "(bytes \<Rightarrow> json \<Rightarrow> 'c option) \<Rightarrow> int \<Rightarrow> Store \<Rightarrow> Snapshot \<Rightarrow> 'c p2pSyncMsg option" where
  "deltaMessage seal now store delta =
     (if st_nsID store = [] then None
      else map_option (\<lambda>data. \<lparr>pm_Type = MDelta, pm_NSID = st_nsID store,
             pm_Summary = Some (Summary (Some delta)), pm_Data = Some data, pm_Error = [],
             pm_ExpectedNSID = [], pm_ObservedNSID = []\<rparr>)
           (encodeSnapshotData seal now store delta))"

text \<open>The message of a merge error, as recorded in the health (the text of a decoding error is abbreviated).\<close>

fun p2p_error_text :: "p2p_error \<Rightarrow> string \<Rightarrow> string \<Rightarrow> string" where
  "p2p_error_text UnknownNamespace got want = ''unknown namespace: '' @ got"
| "p2p_error_text NamespaceNotResolved got want = ''namespace not resolved''"
| "p2p_error_text NamespaceMismatch got want = ''namespace mismatch: got '' @ got @ '' want '' @ want"
| "p2p_error_text BadData got want = ''decode snapshot''"

text \<open>\<open>i\<close> is the position of the store that is being synchronised, \<open>send\<close> the outcome of sending the delta.\<close>

definition syncReply ::
  "(bytes \<Rightarrow> json \<Rightarrow> 'c option) \<Rightarrow> (bytes \<Rightarrow> 'c \<Rightarrow> json option) \<Rightarrow> (Snapshot \<Rightarrow> string list \<times> string list)
    \<Rightarrow> kv_env \<Rightarrow> (Entry \<Rightarrow> log_error option) \<Rightarrow> string option \<Rightarrow> string \<Rightarrow> string + 'c p2pSyncMsg
    \<Rightarrow> nat \<Rightarrow> baseline_files \<Rightarrow> Store list \<Rightarrow> Store list \<times> 'c p2pSyncMsg option" where
  "syncReply seal unseal ord env io send pid reply i files stores0 = (let now = en_now env in
     case reply of
       Inl err \<Rightarrow> (stores0[i := recordSyncError now pid err (stores0 ! i)], None)
     | Inr msg \<Rightarrow>
        if pm_Type msg = MError then
          (if pm_ExpectedNSID msg \<noteq> []
           then (stores0[i := recordNamespaceMismatch now pid (pm_ObservedNSID msg) (pm_ExpectedNSID msg) (stores0 ! i)], None)
           else (stores0[i := recordSyncError now pid (pm_Error msg) (stores0 ! i)], None))
        else
          (let stores = (case mergeSnapshotMessage unseal ord (\<lambda>_. []) now io True msg pid False files stores0 of
                 (_, ss, Inl err) \<Rightarrow> ss[i := recordSyncError now pid
                    (p2p_error_text err (pm_NSID msg) (st_nsID (ss ! i))) (ss ! i)]
               | (_, ss, Inr _) \<Rightarrow> ss)
           in case pm_Summary msg of
             None \<Rightarrow> (stores[i := recordSyncError now pid ''peer did not return a causal summary'' (stores ! i)], None)
           | Some sm \<Rightarrow> (case store_Snapshot env (stores ! i) of
               (s1, Inl _) \<Rightarrow> (stores[i := s1], None)
             | (s1, Inr latest) \<Rightarrow>
                 (let delta = DeltaSince (Some latest) (ss_Vector sm) in
                  if \<not> HasState (Some delta) then (stores[i := recordSyncSuccess now pid s1], None)
                  else (case deltaMessage seal now s1 delta of
                      None \<Rightarrow> (stores[i := recordSyncError now pid ''encode delta'' s1], None)
                    | Some m \<Rightarrow> (case send of
                        Some err \<Rightarrow> (stores[i := recordSyncError now pid err s1], None)
                      | None \<Rightarrow> (stores[i := recordSyncSuccess now pid s1], Some m)))))))"

text \<open>The dispatch of an incoming stream; only a summary is answered.\<close>

definition handleStream ::
  "(bytes \<Rightarrow> 'c \<Rightarrow> json option) \<Rightarrow> (Snapshot \<Rightarrow> string list \<times> string list) \<Rightarrow> (Snapshot option \<Rightarrow> string list)
    \<Rightarrow> kv_env \<Rightarrow> (Entry \<Rightarrow> log_error option) \<Rightarrow> string option \<Rightarrow> bool \<Rightarrow> string \<Rightarrow> 'c p2pSyncMsg
    \<Rightarrow> baseline_files \<Rightarrow> Store list
    \<Rightarrow> baseline_files \<times> Store list \<times> 'c p2pSyncMsg option \<times> Snapshot option" where
  "handleStream unseal ord bord env io wr save from msg files stores = (case pm_Type msg of
      MSummary \<Rightarrow> (case handleSummary env wr from msg stores of (ss, rep, fu) \<Rightarrow> (files, ss, rep, fu))
    | MDelta \<Rightarrow> (case mergeSnapshotMessage unseal ord bord (en_now env) io save msg from False files stores of
        (fs, ss, _) \<Rightarrow> (fs, ss, None, None))
    | MSnapshot \<Rightarrow> (case mergeSnapshotMessage unseal ord bord (en_now env) io save msg from True files stores of
        (fs, ss, _) \<Rightarrow> (fs, ss, None, None))
    | MError \<Rightarrow> (files, stores, None, None)
    | MOther _ \<Rightarrow> (files, stores, None, None))"

section \<open>Namespaces do not mix\<close>

lemma storeForNSID_exact:
  assumes "storeForNSID stores nsid = Some (i, b)"
  shows "i < length stores \<and> (b \<longleftrightarrow> st_nsID (stores ! i) = nsid)"
proof (cases "List.find (\<lambda>i. st_nsID (stores ! i) = nsid) [0 ..< length stores]")
  case None
  then have "\<forall>j < length stores. st_nsID (stores ! j) \<noteq> nsid" by (auto simp: find_None_iff)
  with None assms show ?thesis by (auto simp: storeForNSID_def split: if_splits)
next
  case (Some j)
  then have "j < length stores" "st_nsID (stores ! j) = nsid" by (auto simp: find_Some_iff)
  with Some assms show ?thesis by (auto simp: storeForNSID_def)
qed

lemma health_log [simp]:
  "st_localLog (recordSyncSuccess now p s) = st_localLog s" "st_localLog (recordSyncError now p err s) = st_localLog s"
  "st_localLog (recordNamespaceMismatch now p g w s) = st_localLog s"
  "st_nsID (recordSyncSuccess now p s) = st_nsID s" "st_nsID (recordSyncError now p err s) = st_nsID s"
  "st_nsID (recordNamespaceMismatch now p g w s) = st_nsID s"
  by (simp_all add: recordSyncSuccess_def recordSyncError_def recordNamespaceMismatch_def)

text \<open>
  C14. Namespaces do not mix: a received delta or snapshot changes the log of a store only if that
  store's namespace ID is the message's, is not empty, and its key unseals the data; every other
  store keeps its log, and no store changes its namespace.
\<close>
theorem merge_message_isolates_namespaces:
  assumes "mergeSnapshotMessage unseal ord bord now io save msg peer useB files stores = (files', stores', r)"
    and "i < length stores"
  shows "length stores' = length stores \<and> st_nsID (stores' ! i) = st_nsID (stores ! i) \<and>
         (st_localLog (stores' ! i) \<noteq> st_localLog (stores ! i) \<longrightarrow>
            st_nsID (stores ! i) = pm_NSID msg \<and> pm_NSID msg \<noteq> [] \<and>
            (\<exists>key data snap. st_nsKey (stores ! i) = Some key \<and> pm_Data msg = Some data \<and>
               Option.bind (unseal key data) UnmarshalSnapshot = Some snap))"
proof (cases "storeForNSID stores (pm_NSID msg)")
  case None
  then show ?thesis using assms by (simp add: mergeSnapshotMessage_def)
next
  case (Some ib)
  obtain j b where jb: "storeForNSID stores (pm_NSID msg) = Some (j, b)" using Some by (cases ib) auto
  note exact = storeForNSID_exact [OF jb]
  show ?thesis
    using assms exact
    by (cases "j = i")
      (auto simp: mergeSnapshotMessage_def jb Let_def decodeSnapshotData_def
        split: if_splits option.splits prod.splits bind_splits)
qed

theorem merge_message_isolates_namespaces_witness:
  "st_localLog (fst (snd (mergeSnapshotMessage (\<lambda>_. Some) (\<lambda>s. (fm_keys (ks_entries s), fm_keys (ks_deleted s)))
     (\<lambda>_. []) 9 (\<lambda>_. None) True
     \<lparr>pm_Type = MDelta, pm_NSID = ''other'', pm_Summary = None, pm_Data = Some lost_remote, pm_Error = [],
       pm_ExpectedNSID = [], pm_ObservedNSID = []\<rparr> ''peer'' False fmempty [example_store])) ! 0) =
   st_localLog example_store"
proof -
  let ?msg = "\<lparr>pm_Type = MDelta, pm_NSID = ''other'', pm_Summary = None, pm_Data = Some lost_remote, pm_Error = [],
       pm_ExpectedNSID = [], pm_ObservedNSID = []\<rparr>"
  obtain fs ss r where m: "mergeSnapshotMessage (\<lambda>_. Some) (\<lambda>s. (fm_keys (ks_entries s), fm_keys (ks_deleted s)))
     (\<lambda>_. []) 9 (\<lambda>_. None) True ?msg ''peer'' False fmempty [example_store] = (fs, ss, r)"
    by (rule prod_cases3)
  have "st_nsID example_store \<noteq> ''other''" by code_simp
  then show ?thesis
    using merge_message_isolates_namespaces [OF m, of 0] by (auto simp: m)
qed

section \<open>A complete exchange\<close>

definition ord_ok :: "(Snapshot \<Rightarrow> string list \<times> string list) \<Rightarrow> bool" where
  "ord_ok ord \<longleftrightarrow> (\<forall>s. range_order (fst (ord s)) (ks_entries s) \<and> range_order (snd (ord s)) (ks_deleted s))"

lemma wire_ok_current:
  assumes "log_ok l"
  shows "snapshot_wire_ok (log_current now l)"
proof -
  let ?c = "log_current now l"
  have reg: "kv_reg ?c k = Some v \<Longrightarrow> entry_ok (ver_entry k v)" for k v
    using kv_normal_current [OF assms] by (simp add: kv_normal_def)
  note ent = kv_reg_entries [OF kv_disjoint_current [OF assms], of now]
  have "utf8_valid k \<and> value_ok v" if "fmlookup (ks_entries ?c) k = Some v" for k v
    using reg [of k "VVal v"] that by (simp add: ent ver_entry_def set_entry_def entry_ok_def value_ok_def)
  moreover have "utf8_valid k \<and> tombstone_ok t" if "fmlookup (ks_deleted ?c) k = Some t" for k t
    using reg [of k "VTomb t"] that by (simp add: ent ver_entry_def delete_entry_def entry_ok_def tombstone_ok_def)
  ultimately show ?thesis
    using log_ok_vector_utf8 [OF assms, of now]
    by (auto simp: snapshot_wire_ok_def keys_utf8_iff [of "ks_entries ?c"] keys_utf8_iff [of "ks_deleted ?c"] list_all_iff)
qed

lemma DeltaSince_sel [simp]:
  "ks_vector (DeltaSince (Some s) seen) = ks_vector s" "ks_created (DeltaSince (Some s) seen) = ks_created s"
  by (simp_all add: DeltaSince_def)

lemma DeltaSince_lookup:
  "fmlookup (ks_entries (DeltaSince (Some s) seen)) k = Some v \<Longrightarrow> fmlookup (ks_entries s) k = Some v"
  "fmlookup (ks_deleted (DeltaSince (Some s) seen)) k = Some t \<Longrightarrow> fmlookup (ks_deleted s) k = Some t"
  by (auto simp: DeltaSince_def split: option.splits if_splits)

lemma DeltaSince_wire:
  assumes "kv_covered s" "snapshot_wire_ok s" "times_ok now s"
  shows "kv_covered (DeltaSince (Some s) seen)" "snapshot_wire_ok (DeltaSince (Some s) seen)"
    "times_ok now (DeltaSince (Some s) seen)"
proof -
  show "kv_covered (DeltaSince (Some s) seen)"
    using assms(1) by (auto simp: kv_covered_def DeltaSince_disjoint DeltaSince_reg split: option.splits if_splits)
  show "snapshot_wire_ok (DeltaSince (Some s) seen)"
    using assms(2) by (auto simp: snapshot_wire_ok_def keys_utf8_iff [of "ks_entries _"] keys_utf8_iff [of "ks_deleted _"]
        list_all_iff dest!: DeltaSince_lookup)
  show "times_ok now (DeltaSince (Some s) seen)"
    using assms(3) by (auto simp: times_ok_def list_all_iff dest!: DeltaSince_lookup)
qed

lemma merge_below_seen:
  assumes "kv_disjoint s" "\<And>k v. kv_reg s k = Some v \<Longrightarrow> Dominates seen (ver_full v) \<Longrightarrow> reflects r k v"
  shows "lww_fold ver_beats (option_list (kv_reg (DeltaSince (Some s) seen) k)) (kv_reg r k) =
         lww_fold ver_beats (option_list (kv_reg s k)) (kv_reg r k)"
  using assms(2) [of k] by (cases "kv_reg s k") (auto simp: DeltaSince_reg [OF assms(1)] reflects_def)

lemma no_state_reg: "\<not> HasState (Some d) \<Longrightarrow> kv_reg d k = None"
  by (simp add: HasState_def fm_size_def kv_reg_def fcard_0_eq fmdom_notI flip: fmdom'_alt_def)
    (metis fempty_iff fmdom_notD fcard_0_eq fmdom_empty option.case_eq_if option.map_disc_iff)

text \<open>A delta that arrives: the receiver's registers are joined with the sender's.\<close>

lemma receive_delta:
  assumes s: "kv_covered s" "kv_normal s" "snapshot_wire_ok s" "times_ok now s"
    and crypt: "\<And>j c. seal key j = Some c \<Longrightarrow> unseal key c = Some j"
    and keys: "st_nsKey u = Some key" "st_nsKey t = Some key" "st_nsID u = st_nsID t" "st_nsID t \<noteq> []"
    and m: "deltaMessage seal now u (DeltaSince (Some s) seen) = Some m"
    and t: "log_ok (st_localLog t)" "ord_ok ord"
    and refl: "\<And>k v. kv_reg s k = Some v \<Longrightarrow> Dominates seen (ver_full v) \<Longrightarrow> reflects (log_current 0 (st_localLog t)) k v"
    and merge: "mergeSnapshotMessage unseal ord bord now' (\<lambda>_. None) save m peer False files [t] = (files', ts, r)"
  shows "\<exists>t'. ts = [t'] \<and> log_ok (st_localLog t') \<and>
    (\<forall>k. kv_reg (log_current 0 (st_localLog t')) k =
       lww_fold ver_beats (option_list (kv_reg s k)) (kv_reg (log_current 0 (st_localLog t)) k))"
proof -
  let ?d = "DeltaSince (Some s) seen" and ?l = "st_localLog t"
  let ?r = "?d\<lparr>ks_updated := now\<rparr>"
  have dis: "kv_disjoint s" using s(1) by (simp add: kv_covered_def)
  note wire = DeltaSince_wire [OF s(1,3,4), of seen]
  obtain data where data: "encodeSnapshotData seal now u ?d = Some data" and msg: "pm_NSID m = st_nsID t" "pm_Data m = Some data"
    using m keys by (auto simp: deltaMessage_def split: if_splits)
  have dec: "decodeSnapshotData unseal t data = Some ?r"
    using data snapshot_rt [OF wire] crypt keys
    by (auto simp: encodeSnapshotData_def decodeSnapshotData_def split: bind_splits)
  have find: "storeForNSID [t] (pm_NSID m) = Some (0, True)"
    by (simp add: storeForNSID_def msg)
  obtain l n where dm: "diffAndMerge now' (\<lambda>_. None) (fst (ord ?r)) (snd (ord ?r)) (bord None) ?l ?r None = (l, n)"
    by fastforce
  have reg: "kv_reg ?r k = kv_reg ?d k" for k by (rule kv_reg_updated)
  have "kv_disjoint ?r" "kv_normal ?r"
    using DeltaSince_disjoint [OF dis] DeltaSince_normal [OF dis s(2)] by (simp_all add: kv_normal_def)
  moreover have "range_order (fst (ord ?r)) (ks_entries ?r)" "range_order (snd (ord ?r)) (ks_deleted ?r)"
    using t(2) unfolding ord_ok_def by blast+
  ultimately have l: "log_ok l" "kv_reg (log_current 0 l) k =
      lww_fold ver_beats (option_list (kv_reg ?d k)) (kv_reg (log_current 0 ?l) k)" for k
    using merge_reg [OF t(1) _ _ _ _ dm, of 0 k] by (simp_all add: reg)
  have "\<exists>t'. ts = [t'] \<and> st_localLog t' = l"
    using merge keys msg find dec dm by (auto simp: mergeSnapshotMessage_def Let_def split: if_splits)
  then show ?thesis
    using l merge_below_seen [OF dis refl] by auto
qed

text \<open>
  The exchange that \<open>syncWithPeer\<close> starts, when nothing fails: A asks with its summary, B answers, A
  sends B its delta, B sends A its follow-up delta.
\<close>

definition deliver ::
  "(bytes \<Rightarrow> 'c \<Rightarrow> json option) \<Rightarrow> (Snapshot \<Rightarrow> string list \<times> string list) \<Rightarrow> int \<Rightarrow> string
    \<Rightarrow> 'c p2pSyncMsg option \<Rightarrow> Store list \<Rightarrow> Store list" where
  "deliver unseal ord now peer m ss = (case m of None \<Rightarrow> ss
     | Some msg \<Rightarrow> fst (snd (mergeSnapshotMessage unseal ord (\<lambda>_. []) now (\<lambda>_. None) True msg peer False fmempty ss)))"

definition kv_exchange ::
  "(bytes \<Rightarrow> json \<Rightarrow> 'c option) \<Rightarrow> (bytes \<Rightarrow> 'c \<Rightarrow> json option) \<Rightarrow> (Snapshot \<Rightarrow> string list \<times> string list)
    \<Rightarrow> kv_env \<Rightarrow> kv_env \<Rightarrow> Store \<Rightarrow> Store \<Rightarrow> (Store list \<times> Store list) option" where
  "kv_exchange seal unseal ord ea eb a b = (case syncRequest ea a of
      (a1, None) \<Rightarrow> None
    | (a1, Some req) \<Rightarrow> (case handleSummary eb None ''A'' req [b] of
        (bs, None, fu) \<Rightarrow> None
      | (bs, Some rep, fu) \<Rightarrow>
          (case syncReply seal unseal ord ea (\<lambda>_. None) None ''B'' (Inr rep) 0 fmempty [a1] of
            (as, dm) \<Rightarrow> Some
              (deliver unseal ord (en_now ea) ''B'' (Option.bind fu (deltaMessage seal (en_now eb) (hd bs))) as,
               deliver unseal ord (en_now eb) ''A'' dm bs))))"

text \<open>What both ends of an exchange need: a well-formed dotted log, the namespace, and times that marshal.\<close>

definition sync_ready :: "kv_env \<Rightarrow> bytes \<Rightarrow> string \<Rightarrow> Store \<Rightarrow> bool" where
  "sync_ready e key ns s \<longleftrightarrow> env_ok e \<and> log_ok (st_localLog s) \<and>
     list_all entry_dotted (file_entries (ll_file (st_localLog s))) \<and>
     st_nsKey s = Some key \<and> st_nsID s = ns \<and> ns \<noteq> [] \<and>
     times_ok (en_now e) (log_current (en_now e) (st_localLog s))"

lemma sync_ready_snapshot:
  assumes "sync_ready e key ns s"
  obtains s1 where "store_Snapshot e s = (s1, Inr (log_current (en_now e) (st_localLog s)))"
    "st_nsKey s1 = Some key" "st_nsID s1 = ns" "st_localLog s1 = log_base (en_now e) (st_localLog s)"
proof -
  let ?l = "st_localLog s"
  have "Snapshot_of (en_now e) None ?l = (log_base (en_now e) ?l, Inr (log_current (en_now e) ?l))"
    by (simp add: Snapshot_of_def rebuildLocked_def readAllLocked_def log_base_def log_current_def Let_def
        file_entries_def split: option.split)
  with assms show thesis
    by (intro that [of "s\<lparr>st_localLog := log_base (en_now e) ?l\<rparr>"])
      (simp_all add: store_Snapshot_def sync_ready_def env_ok_def)
qed

lemma sync_ready_times:
  "sync_ready e key ns s \<Longrightarrow> times_ok (en_now e) (log_current (en_now e) (st_localLog s))"
  by (simp add: sync_ready_def)

lemma sync_ready_facts:
  assumes "sync_ready e key ns s"
  shows "kv_covered (log_current t (st_localLog s))" "kv_normal (log_current t (st_localLog s))"
    "snapshot_wire_ok (log_current t (st_localLog s))"
    "log_ok (log_base t (st_localLog s))"
  using assms current_covered kv_normal_current wire_ok_current log_ok_base by (auto simp: sync_ready_def)

lemma current_log_base [simp]: "log_current t (log_base u l) = log_current u l"
  by (simp add: log_current_def [of t])

lemma Summary_vector [simp]: "ss_Vector (Summary (Some s)) = ks_vector s"
  by (simp add: Summary_def)

lemma health_key [simp]:
  "st_nsKey (recordSyncSuccess now p s) = st_nsKey s" "st_nsKey (recordSyncError now p err s) = st_nsKey s"
  "st_nsKey (recordNamespaceMismatch now p g w s) = st_nsKey s"
  by (simp_all add: recordSyncSuccess_def recordSyncError_def recordNamespaceMismatch_def)

definition delta_to :: "(bytes \<Rightarrow> json \<Rightarrow> 'c option) \<Rightarrow> int \<Rightarrow> Store \<Rightarrow> Snapshot \<Rightarrow> VersionVector \<Rightarrow> 'c p2pSyncMsg option" where
  "delta_to seal now u s seen =
     (if HasState (Some (DeltaSince (Some s) seen)) then deltaMessage seal now u (DeltaSince (Some s) seen) else None)"

lemma deliver_delta:
  assumes s: "kv_covered s" "kv_normal s" "snapshot_wire_ok s" "times_ok now s"
    and crypt: "\<And>j. \<exists>c. seal key j = Some c" "\<And>j c. seal key j = Some c \<Longrightarrow> unseal key c = Some j"
    and keys: "st_nsKey u = Some key" "st_nsKey t = Some key" "st_nsID u = st_nsID t" "st_nsID t \<noteq> []"
    and t: "log_ok (st_localLog t)" "ord_ok ord"
    and refl: "\<And>k v. kv_reg s k = Some v \<Longrightarrow> Dominates seen (ver_full v) \<Longrightarrow> reflects (log_current 0 (st_localLog t)) k v"
  shows "\<exists>t'. deliver unseal ord now' peer (delta_to seal now u s seen) [t] = [t'] \<and>
    (\<forall>k. kv_reg (log_current 0 (st_localLog t')) k =
       lww_fold ver_beats (option_list (kv_reg s k)) (kv_reg (log_current 0 (st_localLog t)) k))"
proof (cases "HasState (Some (DeltaSince (Some s) seen))")
  case True
  have "MarshalSnapshot now (Some (DeltaSince (Some s) seen)) \<noteq> None"
    using DeltaSince_wire(3) [OF s(1,3,4)] by (simp add: MarshalSnapshot_def)
  then obtain m where m: "deltaMessage seal now u (DeltaSince (Some s) seen) = Some m"
    using crypt(1) keys by (fastforce simp: deltaMessage_def encodeSnapshotData_def)
  obtain fs ts r where merge: "mergeSnapshotMessage unseal ord (\<lambda>_. []) now' (\<lambda>_. None) True m peer False fmempty [t] = (fs, ts, r)"
    by (rule prod_cases3)
  then have "deliver unseal ord now' peer (delta_to seal now u s seen) [t] = ts"
    using True m by (simp add: deliver_def delta_to_def)
  then show ?thesis
    using receive_delta [OF s crypt(2) keys m t refl merge] by auto
next
  case False
  have dis: "kv_disjoint s" using s(1) by (simp add: kv_covered_def)
  from False show ?thesis
    using merge_below_seen [OF dis refl] no_state_reg [OF False]
    by (intro exI [of _ t]) (simp add: deliver_def delta_to_def flip: merge_below_seen [OF dis refl])
qed

lemma exchange_shape:
  assumes a: "sync_ready ea key ns a" and b: "sync_ready eb key ns b"
  defines "A \<equiv> log_current (en_now ea) (st_localLog a)" and "B \<equiv> log_current (en_now eb) (st_localLog b)"
  shows "\<exists>a2 b1. kv_exchange seal unseal ord ea eb a b = Some
      (deliver unseal ord (en_now ea) ''B'' (delta_to seal (en_now eb) b1 B (ks_vector A)) [a2],
       deliver unseal ord (en_now eb) ''A'' (delta_to seal (en_now ea) a2 A (ks_vector B)) [b1]) \<and>
     st_nsKey a2 = Some key \<and> st_nsID a2 = ns \<and> st_localLog a2 = log_base (en_now ea) (st_localLog a) \<and>
     st_nsKey b1 = Some key \<and> st_nsID b1 = ns \<and> st_localLog b1 = log_base (en_now eb) (st_localLog b)"
proof -
  obtain a1 where a1: "store_Snapshot ea a = (a1, Inr A)" "st_nsKey a1 = Some key" "st_nsID a1 = ns"
    "st_localLog a1 = log_base (en_now ea) (st_localLog a)"
    using sync_ready_snapshot [OF a] unfolding A_def by blast
  obtain b0 where b0: "store_Snapshot eb b = (b0, Inr B)" "st_nsKey b0 = Some key" "st_nsID b0 = ns"
    "st_localLog b0 = log_base (en_now eb) (st_localLog b)"
    using sync_ready_snapshot [OF b] unfolding B_def by blast
  have again: "store_Snapshot ea a1 = (a1, Inr A)"
    by (simp add: store_Snapshot_def Snapshot_of_def a1(4) A_def)
  have ns: "ns \<noteq> []" "st_nsID b = ns" using a b by (simp_all add: sync_ready_def)
  let ?b1 = "recordSyncSuccess (en_now eb) ''A'' b0"
  let ?fu = "if HasState (Some (DeltaSince (Some B) (ks_vector A))) then Some (DeltaSince (Some B) (ks_vector A)) else None"
  let ?req = "\<lparr>pm_Type = MSummary, pm_NSID = ns, pm_Summary = Some (Summary (Some A)),
               pm_Data = None, pm_Error = [], pm_ExpectedNSID = [], pm_ObservedNSID = []\<rparr> :: 'a p2pSyncMsg"
  let ?rep = "\<lparr>pm_Type = MSummary, pm_NSID = ns, pm_Summary = Some (Summary (Some B)),
               pm_Data = None, pm_Error = [], pm_ExpectedNSID = [], pm_ObservedNSID = []\<rparr> :: 'a p2pSyncMsg"
  have req: "syncRequest ea a = (a1, Some ?req)"
    using ns by (simp add: syncRequest_def a1)
  have hs: "handleSummary eb None ''A'' ?req [b] = ([?b1], Some ?rep, ?fu)"
    using ns by (simp add: handleSummary_def storeForNSID_def Let_def b0)
  have mm: "mergeSnapshotMessage unseal ord (\<lambda>_. []) (en_now ea) (\<lambda>_. None) True ?rep ''B'' False fmempty [a1] =
      (fmempty, [a1], Inr 0)"
    using ns a1 by (simp add: mergeSnapshotMessage_def storeForNSID_def)
  have dm: "deltaMessage seal now (recordSyncSuccess t p x) d = deltaMessage seal now x d"
      "deltaMessage seal now (recordSyncError t p err x) d = deltaMessage seal now x d" for now t p x d err
    by (simp_all add: deltaMessage_def encodeSnapshotData_def)
  have "\<exists>a2. syncReply seal unseal ord ea (\<lambda>_. None) None ''B'' (Inr ?rep) 0 fmempty [a1] =
      ([a2], delta_to seal (en_now ea) a2 A (ks_vector B)) \<and>
      st_nsKey a2 = Some key \<and> st_nsID a2 = ns \<and> st_localLog a2 = log_base (en_now ea) (st_localLog a)"
    by (cases "HasState (Some (DeltaSince (Some A) (ks_vector B)))";
        cases "deltaMessage seal (en_now ea) a1 (DeltaSince (Some A) (ks_vector B))")
      (simp_all add: syncReply_def Let_def mm again delta_to_def dm a1(2-4))
  then obtain a2 where a2: "syncReply seal unseal ord ea (\<lambda>_. None) None ''B'' (Inr ?rep) 0 fmempty [a1] =
      ([a2], delta_to seal (en_now ea) a2 A (ks_vector B))"
      "st_nsKey a2 = Some key" "st_nsID a2 = ns" "st_localLog a2 = log_base (en_now ea) (st_localLog a)"
    by blast
  have "Option.bind ?fu (deltaMessage seal (en_now eb) ?b1) = delta_to seal (en_now eb) ?b1 B (ks_vector A)"
    by (simp add: delta_to_def)
  then show ?thesis
    using a2 b0 by (intro exI [of _ a2] exI [of _ ?b1]) (simp add: kv_exchange_def req hs)
qed


definition sync_A :: Store where
  "sync_A = example_store\<lparr>st_nsKey := Some [1], st_nsID := ''n'', st_localLog := compact_example\<rparr>"

definition sync_B :: Store where
  "sync_B = example_store\<lparr>st_nsKey := Some [1], st_nsID := ''n'', st_localLog := NewLocalLog None ''B''\<rparr>"

lemma sync_AB_ready: "sync_ready example_env [1] ''n'' sync_A" "sync_ready example_env [1] ''n'' sync_B"
proof -
  have log: "st_localLog sync_A = compact_example" "st_localLog sync_B = NewLocalLog None ''B''"
    by (simp_all add: sync_A_def sync_B_def)
  have b: "log_ok (NewLocalLog None ''B'')" unfolding NewLocalLog_def by (rule log_ok_new) code_simp+
  have "list_all entry_dotted (file_entries (ll_file compact_example))"
    "times_ok (en_now example_env) (log_current (en_now example_env) compact_example)"
    "list_all entry_dotted (file_entries (ll_file (NewLocalLog None ''B'')))"
    "times_ok (en_now example_env) (log_current (en_now example_env) (NewLocalLog None ''B''))"
    by code_simp+
  then show "sync_ready example_env [1] ''n'' sync_A" "sync_ready example_env [1] ''n'' sync_B"
    using example_store_inv(2) b compact_example_ok
    by (simp_all add: sync_ready_def log) (simp_all add: sync_A_def sync_B_def)
qed


end
