(* ===== verification/Kv_Collections.thy ===== *)
theory Kv_Collections
  imports Kv_Store_Props
begin

text \<open>
  The collections of \<open>pkg/kv/collections\<close>: the append log, the lease and the payload reference. They
  are written against the \<open>KVStore\<close> interface, so their definitions take its operations as
  arguments; their laws are proved once in the locale \<open>kv_store\<close> and hold for the store model through
  its interpretation. Times are nanoseconds. A UUID drawn by the code is an argument. The JSON text
  of a lease record is a pair of functions \<open>enc\<close> and \<open>dec\<close>, with \<open>dec\<close> undoing \<open>enc\<close>.
\<close>

section \<open>Append log\<close>

record AppendLogEntry =
  al_ID :: string
  al_CreatedAt :: int
  al_Value :: bytes

definition normalizeCollectionPrefix :: "string \<Rightarrow> string" where
  "normalizeCollectionPrefix p = TrimSuffix (TrimSpace p) ''/''"

definition listPrefix :: "string \<Rightarrow> string" where
  "listPrefix p = p @ ''/''"

definition entryKey :: "string \<Rightarrow> string \<Rightarrow> string" where
  "entryKey p i = listPrefix p @ i"

text \<open>\<open>uuid\<close> replaces an empty suffix.\<close>

definition appendLogID :: "int \<Rightarrow> string \<Rightarrow> string \<Rightarrow> string" where
  "appendLogID at sfx uuid = pad0 20 at @ CHR ''-'' # (if sfx = [] then uuid else sfx)"

definition parseAppendLogID :: "string \<Rightarrow> int option" where
  "parseAppendLogID i = Option.bind (Cut (CHR ''-'') i) (\<lambda>(head, _). ParseInt64 head)"

datatype 'err log_result = LogStoreErr 'err | LogBadID string

definition log_Append ::
  "(string \<Rightarrow> bytes \<Rightarrow> 's \<Rightarrow> 's \<times> 'err option) \<Rightarrow> string \<Rightarrow> int \<Rightarrow> string \<Rightarrow> string \<Rightarrow> bytes \<Rightarrow> 's
    \<Rightarrow> 's \<times> ('err + AppendLogEntry)" where
  "log_Append set_op p now sfx uuid val s =
     (let i = appendLogID now sfx uuid in
      case set_op (entryKey p i) val s of
        (s1, Some err) \<Rightarrow> (s1, Inl err)
      | (s1, None) \<Rightarrow> (s1, Inr \<lparr>al_ID = i, al_CreatedAt = now, al_Value = val\<rparr>))"

definition log_Get ::
  "(string \<Rightarrow> 's \<Rightarrow> 's \<times> bytes option) \<Rightarrow> string \<Rightarrow> string \<Rightarrow> 's \<Rightarrow> 's \<times> (string + AppendLogEntry option)" where
  "log_Get get_op p i s = (case get_op (entryKey p i) s of
      (s1, None) \<Rightarrow> (s1, Inr None)
    | (s1, Some val) \<Rightarrow> (case parseAppendLogID i of
        None \<Rightarrow> (s1, Inl i)
      | Some at \<Rightarrow> (s1, Inr (Some \<lparr>al_ID = i, al_CreatedAt = at, al_Value = val\<rparr>))))"

fun log_List_loop ::
  "(string \<Rightarrow> 's \<Rightarrow> 's \<times> bytes option) \<Rightarrow> string \<Rightarrow> string list \<Rightarrow> 's \<Rightarrow> 's \<times> (string + AppendLogEntry list)" where
  "log_List_loop get_op p [] s = (s, Inr [])"
| "log_List_loop get_op p (key # keys) s = (case CutPrefix key (listPrefix p) of
      None \<Rightarrow> log_List_loop get_op p keys s
    | Some i \<Rightarrow>
        if i = [] then log_List_loop get_op p keys s
        else (case log_Get get_op p i s of
            (s1, Inl err) \<Rightarrow> (s1, Inl err)
          | (s1, Inr None) \<Rightarrow> log_List_loop get_op p keys s1
          | (s1, Inr (Some entry)) \<Rightarrow> (case log_List_loop get_op p keys s1 of
              (s2, Inl err) \<Rightarrow> (s2, Inl err)
            | (s2, Inr out) \<Rightarrow> (s2, Inr (entry # out)))))"

definition log_List ::
  "(string \<Rightarrow> 's \<Rightarrow> 's \<times> string list) \<Rightarrow> (string \<Rightarrow> 's \<Rightarrow> 's \<times> bytes option) \<Rightarrow> string \<Rightarrow> 's
    \<Rightarrow> 's \<times> (string + AppendLogEntry list)" where
  "log_List list_op get_op p s = (case list_op (listPrefix p) s of
      (s1, keys) \<Rightarrow> log_List_loop get_op p (sort keys) s1)"

section \<open>Identifiers\<close>

lemma show_nat_length: "n < 10 ^ k \<Longrightarrow> 0 < k \<Longrightarrow> length (show_nat n) \<le> k"
proof (induction n arbitrary: k rule: show_nat.induct)
  case (1 n)
  show ?case
  proof (cases "n < 10")
    case False
    then obtain j where j: "k = Suc j" "0 < j"
      using "1.prems" by (cases k; cases "k - 1") auto
    have "n div 10 < 10 ^ j" using "1.prems" j by (simp add: less_mult_imp_div_less mult.commute)
    then have "length (show_nat (n div 10)) \<le> j" using 1 False j by blast
    then show ?thesis using False j by (subst show_nat.simps) simp
  qed (use 1 in \<open>subst show_nat.simps, simp\<close>)
qed

lemma pad0_digits: "0 \<le> i \<Longrightarrow> list_all is_digit (pad0 w i)"
  by (auto simp: pad0_def list_all_iff dest: show_nat_digits)

lemma pad0_read: "0 \<le> i \<Longrightarrow> read_nat (pad0 w i) = nat i"
  by (simp add: pad0_def read_nat_append)

lemma pad0_length: "0 \<le> i \<Longrightarrow> i < 10 ^ w \<Longrightarrow> 0 < w \<Longrightarrow> length (pad0 w i) = w"
  using show_nat_length [of "nat i" w] by (simp add: pad0_def nat_less_iff)

lemma pad0_not_Nil [simp]: "pad0 w i \<noteq> []"
  by (simp add: pad0_def)

lemma digits_no_sign: "list_all is_digit s \<Longrightarrow> c \<in> set s \<Longrightarrow> c \<noteq> CHR ''-'' \<and> c \<noteq> CHR ''+''"
  by (auto simp: list_all_iff is_digit_def)

lemma ParseInt64_digits:
  assumes "list_all is_digit s" "s \<noteq> []" "int64_ok (int (read_nat s))"
  shows "ParseInt64 s = Some (int (read_nat s))"
proof -
  obtain c r where "s = c # r" using assms(2) by (cases s) auto
  then have "\<not> HasPrefix s ''-''" "\<not> HasPrefix s ''+''"
    using digits_no_sign [OF assms(1), of c] by (auto simp: HasPrefix_def)
  with assms show ?thesis by (simp add: ParseInt64_def Let_def)
qed

lemma parse_appendLogID: "0 \<le> at \<Longrightarrow> at < 2 ^ 63 \<Longrightarrow> parseAppendLogID (appendLogID at sfx uuid) = Some at"
proof -
  assume at: "0 \<le> at" "at < 2 ^ 63"
  have "CHR ''-'' \<notin> set (pad0 20 at)" using digits_no_sign [OF pad0_digits [OF at(1)]] by blast
  then show ?thesis
    using at ParseInt64_digits [OF pad0_digits [OF at(1), of 20]]
    by (simp add: parseAppendLogID_def appendLogID_def Cut_append pad0_read int64_ok_def)
qed

lemma digits_less:
  assumes "list_all is_digit s" "list_all is_digit t" "length s = length t" "read_nat s < read_nat t"
  shows "s @ u < t @ (v :: string)"
  using assms(3,1,2,4)
proof (induction s t rule: list_induct2)
  case (Cons x xs y ys)
  note hyps = Cons
  have rd: "read_nat (c # cs) = digit_val c * 10 ^ length cs + read_nat cs" for c cs
    using read_nat_append [of "[c]" cs] by (simp add: read_nat_def)
  have bound: "list_all is_digit cs \<Longrightarrow> read_nat cs < 10 ^ length cs" for cs
  proof (induction cs)
    case (Cons c cs)
    then have "digit_val c \<le> 9" using digit_val_less [of c] by auto
    then have "digit_val c * 10 ^ length cs \<le> 9 * 10 ^ length cs" by simp
    moreover have "read_nat cs < 10 ^ length cs" using Cons by simp
    ultimately have "digit_val c * 10 ^ length cs + read_nat cs < 9 * 10 ^ length cs + 10 ^ length cs" by linarith
    then show ?case by (simp add: rd)
  qed simp
  show ?case
  proof (cases "x = y")
    case True
    then show ?thesis using hyps by (simp add: rd)
  next
    case False
    have dig: "is_digit x" "is_digit y" using hyps by auto
    have "digit_val x \<le> digit_val y"
    proof (rule ccontr)
      assume "\<not> digit_val x \<le> digit_val y"
      then have "(digit_val y + 1) * 10 ^ length ys \<le> digit_val x * 10 ^ length ys"
        by (intro mult_right_mono) simp_all
      moreover have "read_nat ys < 10 ^ length ys" using hyps bound by simp
      ultimately have "read_nat (y # ys) < digit_val x * 10 ^ length ys" by (simp add: rd)
      then show False using hyps by (simp add: rd)
    qed
    moreover have "digit_val x \<noteq> digit_val y" using False dig digit_char_of_val by metis
    ultimately have "digit_val x < digit_val y" by simp
    then have "(of_char x :: nat) < of_char y" using dig by (simp add: digit_val_def is_digit_def)
    then show ?thesis by (simp add: less_char_def)
  qed
qed (simp add: read_nat_def)

text \<open>
  Append-log identifiers carry their time: the identifier of any time from 1970 to 2262 parses
  back to that time, and identifiers of later times are greater as strings, whatever their suffixes,
  so that sorting keys sorts by time.
\<close>
lemma appendLogID_time_order:
  assumes "0 \<le> t" "t < u" "u < 2 ^ 63"
  shows "parseAppendLogID (appendLogID t x x') = Some t \<and> appendLogID t x x' < appendLogID u y y'"
proof
  show "parseAppendLogID (appendLogID t x x') = Some t"
    using assms by (simp add: parse_appendLogID)
  have "length (pad0 20 t) = length (pad0 20 u)" using assms by (simp add: pad0_length)
  moreover have "read_nat (pad0 20 t) < read_nat (pad0 20 u)" using assms by (simp add: pad0_read)
  ultimately show "appendLogID t x x' < appendLogID u y y'"
    unfolding appendLogID_def using assms by (intro digits_less pad0_digits) auto
qed

section \<open>What the log lists\<close>

text \<open>The listing as a function of the abstract map.\<close>

fun gather :: "(string \<Rightarrow> bytes option) \<Rightarrow> string \<Rightarrow> string list \<Rightarrow> string + AppendLogEntry list" where
  "gather vw p [] = Inr []"
| "gather vw p (key # keys) = (case CutPrefix key (listPrefix p) of
      None \<Rightarrow> gather vw p keys
    | Some i \<Rightarrow>
        if i = [] then gather vw p keys
        else (case vw key of None \<Rightarrow> gather vw p keys
          | Some val \<Rightarrow> (case parseAppendLogID i of None \<Rightarrow> Inl i
              | Some at \<Rightarrow> (case gather vw p keys of Inl err \<Rightarrow> Inl err
                  | Inr out \<Rightarrow> Inr (\<lparr>al_ID = i, al_CreatedAt = at, al_Value = val\<rparr> # out)))))"

definition log_keys :: "(string \<Rightarrow> bytes option) \<Rightarrow> string \<Rightarrow> string list" where
  "log_keys vw p = sorted_list_of_set {k. vw k \<noteq> None \<and> prefix (listPrefix p) k}"

lemma gather_cong: "(\<And>k. k \<in> set keys \<Longrightarrow> vw k = vw' k) \<Longrightarrow> gather vw p keys = gather vw' p keys"
proof (induction keys)
  case (Cons key keys)
  then have "gather vw p keys = gather vw' p keys" "vw key = vw' key" by auto
  then show ?case by (simp only: gather.simps)
qed simp

lemma gather_snoc:
  assumes "gather vw p keys = Inr out" "vw (entryKey p i) = Some v" "parseAppendLogID i = Some at" "i \<noteq> []"
  shows "gather vw p (keys @ [entryKey p i]) = Inr (out @ [\<lparr>al_ID = i, al_CreatedAt = at, al_Value = v\<rparr>])"
  using assms(1)
proof (induction keys arbitrary: out)
  case Nil
  then show ?case using assms by (simp add: entryKey_def)
next
  case (Cons key keys)
  then show ?case
    by (auto split: option.splits if_splits sum.splits)
qed

lemma log_keys_insert:
  assumes "finite {k. vw k \<noteq> None \<and> prefix (listPrefix p) k}"
    and "\<And>k. vw k \<noteq> None \<Longrightarrow> prefix (listPrefix p) k \<Longrightarrow> k < entryKey p i"
  shows "log_keys (vw(entryKey p i \<mapsto> v)) p = log_keys vw p @ [entryKey p i]"
proof -
  let ?A = "{k. vw k \<noteq> None \<and> prefix (listPrefix p) k}"
  let ?l = "sorted_list_of_set ?A @ [entryKey p i]"
  have "entryKey p i \<notin> ?A" using assms(2) by blast
  then have "sorted ?l" "distinct ?l"
    using assms by (auto simp: sorted_append less_imp_le)
  then have "sorted_list_of_set (set ?l) = ?l"
    by (rule sorted_list_of_set.idem_if_sorted_distinct)
  moreover have "set ?l = {k. (vw(entryKey p i \<mapsto> v)) k \<noteq> None \<and> prefix (listPrefix p) k}"
    using assms(1) by (auto simp: entryKey_def)
  ultimately show ?thesis unfolding log_keys_def by metis
qed

context kv_store
begin

lemma get_step:
  assumes "inv n s" "env_ok e"
  obtains s' where "get_op e k s = (s', view s k)" "inv n s'" "view s' = view s"
  using get_law [OF assms] that by (metis surj_pair)

lemma list_loop_gathers:
  "inv n s \<Longrightarrow> env_ok e \<Longrightarrow> log_List_loop (get_op e) p keys s = (s', r) \<Longrightarrow>
   inv n s' \<and> view s' = view s \<and> r = gather (view s) p keys"
proof (induction keys arbitrary: s s' r)
  case (Cons key keys)
  show ?case
  proof (cases "CutPrefix key (listPrefix p)")
    case None
    then show ?thesis using Cons by auto
  next
    case (Some i)
    then have key: "entryKey p i = key" by (simp add: CutPrefix_Some entryKey_def)
    obtain s1 where s1: "get_op e key s = (s1, view s key)" "inv n s1" "view s1 = view s"
      using get_step [OF Cons.prems(1,2)] by blast
    obtain s2 r2 where rest: "log_List_loop (get_op e) p keys s1 = (s2, r2)" by fastforce
    note ih1 = Cons.IH [OF s1(2) Cons.prems(2) rest]
    show ?thesis
    proof (cases "i = []")
      case True
      then show ?thesis using Cons Some by simp
    next
      case False
      then show ?thesis
        using Cons.prems(3) s1 ih1
        by (auto simp: Some key log_Get_def rest split: option.splits sum.splits)
    qed
  qed
qed simp

lemma log_List_gathers:
  assumes "inv n s" "env_ok e" "log_List (list_op e) (get_op e) p s = (s', r)"
  shows "inv n s' \<and> view s' = view s \<and> r = gather (view s) p (log_keys (view s) p) \<and>
         finite {k. view s k \<noteq> None \<and> prefix (listPrefix p) k}"
proof -
  obtain s1 keys where l: "list_op e (listPrefix p) s = (s1, keys)" by fastforce
  note law = list_law [OF assms(1,2) l]
  have "sort keys = log_keys (view s) p"
    using law sorted_list_of_set.idem_if_sorted_distinct [of keys] by (simp add: log_keys_def sorted_sort_id)
  moreover have "log_List_loop (get_op e) p (sort keys) s1 = (s', r)"
    using assms(3) l by (simp add: log_List_def)
  ultimately have "inv n s' \<and> view s' = view s1 \<and> r = gather (view s1) p (log_keys (view s) p)"
    using list_loop_gathers [OF _ assms(2)] law by metis
  moreover have "finite {k. view s k \<noteq> None \<and> prefix (listPrefix p) k}"
    using law List.finite_set by metis
  ultimately show ?thesis using law by auto
qed

lemma append_extends_list:
  assumes "inv (Suc n) s" "env_ok e" "utf8_valid (entryKey p (appendLogID now sfx uuid))"
    and "0 \<le> now" "now < 2 ^ 63"
    and "log_List (list_op e) (get_op e) p s = (s0, Inr out)"
    and "\<And>k. view s k \<noteq> None \<Longrightarrow> prefix (listPrefix p) k \<Longrightarrow> k < entryKey p (appendLogID now sfx uuid)"
    and "log_Append (set_op e) p now sfx uuid v s = (s1, Inr entry)"
    and "log_List (list_op e') (get_op e') p s1 = (s2, r)" "env_ok e'"
  shows "r = Inr (out @ [entry]) \<and> al_CreatedAt entry = now \<and> al_Value entry = v"
proof -
  let ?i = "appendLogID now sfx uuid"
  note before = log_List_gathers [OF assms(1,2,6)]
  have set: "set_op e (entryKey p ?i) v s = (s1, None)" and entry: "entry = \<lparr>al_ID = ?i, al_CreatedAt = now, al_Value = v\<rparr>"
    using assms(8) by (auto simp: log_Append_def Let_def split: prod.splits option.splits)
  note law = set_law [OF assms(1-3) set, simplified]
  note after = log_List_gathers [OF conjunct1 [OF law] assms(10,9)]
  have keys: "log_keys (view s1) p = log_keys (view s) p @ [entryKey p ?i]"
    using log_keys_insert [of "view s" p ?i v] before assms(7) law by simp
  have "gather (view s1) p (log_keys (view s) p) = gather (view s) p (log_keys (view s) p)"
    using law before assms(7) by (intro gather_cong) (auto simp: log_keys_def)
  then have "gather (view s1) p (log_keys (view s) p) = Inr out" using before by simp
  from gather_snoc [OF this, of ?i v now] show ?thesis
    using after law keys entry parse_appendLogID [OF assms(4,5)] by (simp add: appendLogID_def)
qed

end

text \<open>
  Appending extends the list: when the new identifier is above every key of the log (its time is
  later than theirs), a successful \<open>Append\<close> on the store makes \<open>List\<close> return exactly the old entries
  in their order followed by the new one.
\<close>
lemma append_log_extends:
  assumes "store_inv (Suc n) s" "env_ok e" "env_ok e'" "utf8_valid (entryKey p (appendLogID now sfx uuid))"
    and "0 \<le> now" "now < 2 ^ 63"
    and "log_List (List_kv e) (Get_kv e) p s = (s0, Inr out)"
    and "\<And>k. store_view s k \<noteq> None \<Longrightarrow> prefix (listPrefix p) k \<Longrightarrow> k < entryKey p (appendLogID now sfx uuid)"
    and "log_Append (Set_kv e) p now sfx uuid v s = (s1, Inr entry)"
    and "log_List (List_kv e') (Get_kv e') p s1 = (s2, r)"
  shows "r = Inr (out @ [entry]) \<and> al_CreatedAt entry = now \<and> al_Value entry = v"
  using store.append_extends_list [OF assms(1,2,4-10,3)] by simp

section \<open>Lease\<close>

record LeaseRecord =
  le_Name :: string
  le_Holder :: string
  le_Token :: string
  le_AcquiredAt :: int
  le_ExpiresAt :: int

datatype 'err lease_error = LeaseNameRequired | LeaseHolderRequired | LeaseTTL | LeaseTokenRequired
  | LeaseParse | LeaseMarshal | LeaseStore 'err

definition Expired :: "LeaseRecord \<Rightarrow> int \<Rightarrow> bool" where
  "Expired r now \<longleftrightarrow> \<not> now < le_ExpiresAt r"

definition lease_key :: "string \<Rightarrow> string \<Rightarrow> string" where
  "lease_key p name = p @ ''/'' @ name"

definition validateLeaseInput :: "string \<Rightarrow> string \<Rightarrow> int \<Rightarrow> 'err lease_error option" where
  "validateLeaseInput name holder ttl =
     (if TrimSpace name = [] then Some LeaseNameRequired
      else if TrimSpace holder = [] then Some LeaseHolderRequired
      else if ttl \<le> 0 then Some LeaseTTL else None)"

definition lease_getRaw ::
  "(bytes \<Rightarrow> LeaseRecord option) \<Rightarrow> (string \<Rightarrow> 's \<Rightarrow> 's \<times> bytes option) \<Rightarrow> string \<Rightarrow> string \<Rightarrow> 's
    \<Rightarrow> 's \<times> ('err lease_error + LeaseRecord option)" where
  "lease_getRaw dec get_op p name s =
     (if TrimSpace name = [] then (s, Inl LeaseNameRequired)
      else case get_op (lease_key p name) s of
        (s1, None) \<Rightarrow> (s1, Inr None)
      | (s1, Some raw) \<Rightarrow> (case dec raw of None \<Rightarrow> (s1, Inl LeaseParse) | Some r \<Rightarrow> (s1, Inr (Some r))))"

text \<open>\<open>Get\<close> hides an expired record; \<open>now\<close> is the time of its own clock reading.\<close>

definition lease_Get ::
  "(bytes \<Rightarrow> LeaseRecord option) \<Rightarrow> (string \<Rightarrow> 's \<Rightarrow> 's \<times> bytes option) \<Rightarrow> string \<Rightarrow> int \<Rightarrow> string \<Rightarrow> 's
    \<Rightarrow> 's \<times> ('err lease_error + LeaseRecord option)" where
  "lease_Get dec get_op p now name s = (case lease_getRaw dec get_op p name s of
      (s1, Inr (Some r)) \<Rightarrow> (s1, Inr (if Expired r now then None else Some r))
    | res \<Rightarrow> res)"

definition lease_put ::
  "(LeaseRecord \<Rightarrow> bytes option) \<Rightarrow> (string \<Rightarrow> bytes \<Rightarrow> 's \<Rightarrow> 's \<times> 'err option) \<Rightarrow> string \<Rightarrow> LeaseRecord \<Rightarrow> 's
    \<Rightarrow> 's \<times> 'err lease_error option" where
  "lease_put enc set_op p r s = (case enc r of None \<Rightarrow> (s, Some LeaseMarshal)
     | Some data \<Rightarrow> (case set_op (lease_key p (le_Name r)) data s of
         (s1, e) \<Rightarrow> (s1, map_option LeaseStore e)))"

text \<open>The record read back after the write, and whether it is still the written one.\<close>

definition lease_confirm ::
  "string \<Rightarrow> 's \<times> ('err lease_error + LeaseRecord option) \<Rightarrow> 's \<times> ('err lease_error + LeaseRecord option \<times> bool)" where
  "lease_confirm token res = (case res of
      (s, Inl err) \<Rightarrow> (s, Inl err)
    | (s, Inr None) \<Rightarrow> (s, Inr (None, False))
    | (s, Inr (Some r)) \<Rightarrow> (s, Inr (Some r, le_Token r = token)))"

text \<open>The three clock readings \<open>t1\<close>, \<open>t2\<close>, \<open>t3\<close> of a call are taken in that order.\<close>

definition lease_Claim ::
  "(LeaseRecord \<Rightarrow> bytes option) \<Rightarrow> (bytes \<Rightarrow> LeaseRecord option)
    \<Rightarrow> (string \<Rightarrow> bytes \<Rightarrow> 's \<Rightarrow> 's \<times> 'err option) \<Rightarrow> (string \<Rightarrow> 's \<Rightarrow> 's \<times> bytes option)
    \<Rightarrow> string \<Rightarrow> int \<times> int \<times> int \<Rightarrow> string \<Rightarrow> string \<Rightarrow> string \<Rightarrow> int \<Rightarrow> 's
    \<Rightarrow> 's \<times> ('err lease_error + LeaseRecord option \<times> bool)" where
  "lease_Claim enc dec set_op get_op p tms token name holder ttl s =
     (case validateLeaseInput name holder ttl of Some err \<Rightarrow> (s, Inl err)
      | None \<Rightarrow> (case tms of (t1, t2, t3) \<Rightarrow>
          (case lease_Get dec get_op p t1 name s of
             (s1, Inl err) \<Rightarrow> (s1, Inl err)
           | (s1, Inr cur) \<Rightarrow>
               (case (case cur of None \<Rightarrow> None | Some r \<Rightarrow> if Expired r t2 then None else Some r) of
                  Some r \<Rightarrow> (s1, Inr (Some r, False))
                | None \<Rightarrow>
                    (let r = \<lparr>le_Name = name, le_Holder = holder, le_Token = token, le_AcquiredAt = t2,
                              le_ExpiresAt = t2 + ttl\<rparr>
                     in case lease_put enc set_op p r s1 of
                          (s2, Some err) \<Rightarrow> (s2, Inl err)
                        | (s2, None) \<Rightarrow> lease_confirm token (lease_Get dec get_op p t3 name s2))))))"

definition lease_Renew ::
  "(LeaseRecord \<Rightarrow> bytes option) \<Rightarrow> (bytes \<Rightarrow> LeaseRecord option)
    \<Rightarrow> (string \<Rightarrow> bytes \<Rightarrow> 's \<Rightarrow> 's \<times> 'err option) \<Rightarrow> (string \<Rightarrow> 's \<Rightarrow> 's \<times> bytes option)
    \<Rightarrow> string \<Rightarrow> int \<times> int \<times> int \<Rightarrow> string \<Rightarrow> string \<Rightarrow> string \<Rightarrow> int \<Rightarrow> 's
    \<Rightarrow> 's \<times> ('err lease_error + LeaseRecord option \<times> bool)" where
  "lease_Renew enc dec set_op get_op p tms token name holder ttl s =
     (case validateLeaseInput name holder ttl of Some err \<Rightarrow> (s, Inl err)
      | None \<Rightarrow> if token = [] then (s, Inl LeaseTokenRequired)
          else (case tms of (t1, t2, t3) \<Rightarrow>
          (case lease_Get dec get_op p t1 name s of
             (s1, Inl err) \<Rightarrow> (s1, Inl err)
           | (s1, Inr None) \<Rightarrow> (s1, Inr (None, False))
           | (s1, Inr (Some r)) \<Rightarrow>
               if Expired r t2 then (s1, Inr (None, False))
               else if le_Holder r \<noteq> holder \<or> le_Token r \<noteq> token then (s1, Inr (Some r, False))
               else (case lease_put enc set_op p (r\<lparr>le_ExpiresAt := t2 + ttl\<rparr>) s1 of
                   (s2, Some err) \<Rightarrow> (s2, Inl err)
                 | (s2, None) \<Rightarrow> lease_confirm token (lease_Get dec get_op p t3 name s2)))))"

definition lease_Release ::
  "(bytes \<Rightarrow> LeaseRecord option) \<Rightarrow> (string \<Rightarrow> 's \<Rightarrow> 's \<times> 'err option) \<Rightarrow> (string \<Rightarrow> 's \<Rightarrow> 's \<times> bytes option)
    \<Rightarrow> string \<Rightarrow> string \<Rightarrow> string \<Rightarrow> string \<Rightarrow> 's \<Rightarrow> 's \<times> ('err lease_error + bool)" where
  "lease_Release dec del_op get_op p token name holder s =
     (if TrimSpace name = [] then (s, Inl LeaseNameRequired)
      else if TrimSpace holder = [] then (s, Inl LeaseHolderRequired)
      else if token = [] then (s, Inl LeaseTokenRequired)
      else (case lease_getRaw dec get_op p name s of
          (s1, Inl err) \<Rightarrow> (s1, Inl err)
        | (s1, Inr None) \<Rightarrow> (s1, Inr False)
        | (s1, Inr (Some r)) \<Rightarrow>
            if le_Holder r \<noteq> holder \<or> le_Token r \<noteq> token then (s1, Inr False)
            else (case del_op (lease_key p name) s1 of
                (s2, Some err) \<Rightarrow> (s2, Inl (LeaseStore err))
              | (s2, None) \<Rightarrow> (s2, Inr True))))"

section \<open>Exclusion\<close>

text \<open>What a lease key holds, according to the abstract map.\<close>

definition held :: "(bytes \<Rightarrow> LeaseRecord option) \<Rightarrow> (string \<Rightarrow> bytes option) \<Rightarrow> string \<Rightarrow> string \<Rightarrow> LeaseRecord option" where
  "held dec vw p name = Option.bind (vw (lease_key p name)) dec"

context kv_store
begin

lemma lease_getRaw_step:
  fixes r :: "'err lease_error + LeaseRecord option"
  assumes "inv n s" "env_ok e" "lease_getRaw dec (get_op e) p name s = (s', r)"
  shows "inv n s' \<and> view s' = view s \<and>
         (held dec (view s) p name = Some x \<longrightarrow> TrimSpace name \<noteq> [] \<longrightarrow> r = Inr (Some x)) \<and>
         (r = Inr (Some y) \<longrightarrow> held dec (view s) p name = Some y)"
proof -
  obtain s1 where g: "get_op e (lease_key p name) s = (s1, view s (lease_key p name))" "inv n s1" "view s1 = view s"
    using get_step [OF assms(1,2)] by blast
  show ?thesis
    using assms(1,3) g(2,3)
    by (cases "view s (lease_key p name)") (auto simp: lease_getRaw_def held_def g(1) split: if_splits option.splits)
qed

lemma lease_Get_step:
  fixes r :: "'err lease_error + LeaseRecord option"
  assumes "inv n s" "env_ok e" "lease_Get dec (get_op e) p t name s = (s', r)"
  shows "inv n s' \<and> view s' = view s \<and>
         (held dec (view s) p name = Some x \<longrightarrow> \<not> Expired x t \<longrightarrow> TrimSpace name \<noteq> [] \<longrightarrow> r = Inr (Some x)) \<and>
         (r = Inr (Some y) \<longrightarrow> held dec (view s) p name = Some y \<and> \<not> Expired y t)"
proof -
  obtain s1 r1 where raw: "lease_getRaw dec (get_op e) p name s = (s1, r1 :: 'err lease_error + LeaseRecord option)" by fastforce
  have res: "s' = s1" "r = (case r1 of Inr (Some z) \<Rightarrow> Inr (if Expired z t then None else Some z) | _ \<Rightarrow> r1)"
    using assms(3) by (auto simp: lease_Get_def raw split: sum.splits option.splits)
  show ?thesis
    using lease_getRaw_step [OF assms(1,2) raw, of x y] res
    by (auto split: sum.splits option.splits if_splits)
qed

lemma lease_put_step:
  assumes "inv (Suc n) s" "env_ok e" "utf8_valid (lease_key p (le_Name r))" "lease_put enc (set_op e) p r s = (s', x)"
    and dec: "\<And>r d. enc r = Some d \<Longrightarrow> dec d = Some r"
  shows "(x = None \<longrightarrow> inv n s' \<and> held dec (view s') p (le_Name r) = Some r) \<and>
         (\<forall>k. k \<noteq> lease_key p (le_Name r) \<longrightarrow> view s' k = view s k)"
proof (cases "enc r")
  case None
  then show ?thesis using assms(4) by (auto simp: lease_put_def)
next
  case (Some d)
  obtain s1 z where set: "set_op e (lease_key p (le_Name r)) d s = (s1, z)" by fastforce
  show ?thesis
    using assms(4) set_law [OF assms(1-3) set] dec [OF Some] by (auto simp: lease_put_def Some set held_def)
qed

lemma lease_confirm_step:
  assumes "inv n s" "env_ok e"
    and "lease_confirm token (lease_Get dec (get_op e) p t name s :: 's \<times> ('err lease_error + LeaseRecord option)) =
      (s', Inr (Some r, True))"
  shows "inv n s' \<and> view s' = view s \<and> held dec (view s) p name = Some r \<and> le_Token r = token \<and> \<not> Expired r t"
proof -
  obtain s1 g where get: "lease_Get dec (get_op e) p t name s = (s1, g :: 'err lease_error + LeaseRecord option)" by fastforce
  have "g = Inr (Some r) \<and> s' = s1 \<and> le_Token r = token"
    using assms(3) by (auto simp: get lease_confirm_def split: sum.splits option.splits)
  then show ?thesis using lease_Get_step [OF assms(1,2) get] by blast
qed

lemma claim_success:
  assumes "inv (Suc n) s" "env_ok e" "utf8_valid (lease_key p name)"
    and dec: "\<And>r d. enc r = Some d \<Longrightarrow> dec d = Some r"
    and "lease_Claim enc dec (set_op e) (get_op e) p (t1, t2, t3) token name holder ttl s = (s', Inr (Some r, True))"
  shows "inv n s' \<and> held dec (view s') p name = Some r \<and> TrimSpace name \<noteq> [] \<and>
         r = \<lparr>le_Name = name, le_Holder = holder, le_Token = token, le_AcquiredAt = t2, le_ExpiresAt = t2 + ttl\<rparr> \<and>
         (\<forall>x. held dec (view s) p name = Some x \<longrightarrow> Expired x t1 \<or> Expired x t2)"
proof -
  let ?r = "\<lparr>le_Name = name, le_Holder = holder, le_Token = token, le_AcquiredAt = t2, le_ExpiresAt = t2 + ttl\<rparr>"
  have valid: "validateLeaseInput name holder ttl = (None :: 'err lease_error option)"
    using assms(5) by (auto simp: lease_Claim_def split: option.splits)
  then have name: "TrimSpace name \<noteq> []" by (auto simp: validateLeaseInput_def split: if_splits)
  obtain s1 g where get: "lease_Get dec (get_op e) p t1 name s = (s1, g :: 'err lease_error + LeaseRecord option)" by fastforce
  note one = lease_Get_step [OF assms(1,2) get]
  obtain s2 z where put: "lease_put enc (set_op e) p ?r s1 = (s2, z)" by fastforce
  have free: "\<forall>x. g = Inr (Some x) \<longrightarrow> Expired x t2" and z: "z = None"
    and conf: "lease_confirm token (lease_Get dec (get_op e) p t3 name s2 :: 's \<times> ('err lease_error + LeaseRecord option)) =
      (s', Inr (Some r, True))"
    using assms(5) by (auto simp: lease_Claim_def valid get put Let_def split: sum.splits option.splits if_splits)
  have "inv (Suc n) s1" using one by blast
  from lease_put_step [OF this assms(2) _ put dec] assms(3) z
  have two: "inv n s2" "held dec (view s2) p name = Some ?r" by simp_all
  note three = lease_confirm_step [OF two(1) assms(2) conf]
  have "Expired x t1 \<or> Expired x t2" if "held dec (view s) p name = Some x" for x
    using that lease_Get_step [OF assms(1,2) get, of x] name free by blast
  with three two name show ?thesis by auto
qed

lemma claim_blocked:
  assumes "inv n s" "env_ok e" "held dec (view s) p name = Some x" "\<not> Expired x t1" "\<not> Expired x t2"
    and "TrimSpace name \<noteq> []" "TrimSpace holder \<noteq> []" "0 < ttl"
    and "lease_Claim enc dec (set_op e) (get_op e) p (t1, t2, t3) token name holder ttl s = (s', r)"
  shows "inv n s' \<and> view s' = view s \<and> r = Inr (Some x, False)"
proof -
  obtain s1 g where get: "lease_Get dec (get_op e) p t1 name s = (s1, g :: 'err lease_error + LeaseRecord option)" by fastforce
  note one = lease_Get_step [OF assms(1,2) get, of x]
  have "validateLeaseInput name holder ttl = (None :: 'err lease_error option)"
    using assms(6-8) by (simp add: validateLeaseInput_def)
  moreover have "g = Inr (Some x)" "inv n s1" "view s1 = view s" using one assms(3,4,6) by blast+
  ultimately show ?thesis
    using assms(5,9) by (simp add: lease_Claim_def get)
qed

end


definition example_lease_enc :: "LeaseRecord \<Rightarrow> bytes option" where
  "example_lease_enc r = (if r = \<lparr>le_Name = ''job'', le_Holder = ''h'', le_Token = ''t'', le_AcquiredAt = 5,
     le_ExpiresAt = 15\<rparr> then Some [1] else None)"

definition example_lease_dec :: "bytes \<Rightarrow> LeaseRecord option" where
  "example_lease_dec d = (if d = [1] then Some \<lparr>le_Name = ''job'', le_Holder = ''h'', le_Token = ''t'',
     le_AcquiredAt = 5, le_ExpiresAt = 15\<rparr> else None)"


section \<open>Payload references\<close>

record PayloadRef =
  pr_Kind :: string
  pr_Key :: string
  pr_Size :: int
  pr_Digest :: string

datatype ref_error = RefKind | RefKey | RefSize | RefDigest

definition PayloadRef_Validate :: "PayloadRef \<Rightarrow> ref_error option" where
  "PayloadRef_Validate r =
     (if pr_Kind r = [] then Some RefKind
      else if pr_Key r = [] then Some RefKey
      else if pr_Size r < 0 then Some RefSize
      else if pr_Digest r \<noteq> [] \<and> length (pr_Digest r) < length ''sha256:'' + 64 then Some RefDigest
      else None)"

definition ShouldInline :: "int \<Rightarrow> int \<Rightarrow> bool" where
  "ShouldInline sz maxInline = (if maxInline \<le> 0 then False else sz \<le> maxInline)"

definition NewPayloadRef :: "string \<Rightarrow> string \<Rightarrow> int \<Rightarrow> string \<Rightarrow> ref_error + PayloadRef" where
  "NewPayloadRef kind key sz digest =
     (let r = \<lparr>pr_Kind = kind, pr_Key = key, pr_Size = sz, pr_Digest = digest\<rparr> in
      case PayloadRef_Validate r of Some err \<Rightarrow> Inl err | None \<Rightarrow> Inr r)"

end
