(* ===== verification/Fs_Opslog.thy ===== *)
theory Fs_Opslog
  imports Clocks
begin

text \<open>
  The file operations log of \<open>pkg/fs/opslog/opslog.go\<close>: entries, files, directories and tombstones,
  and \<open>buildSnapshot\<close>, which replays entries over a base snapshot. Besides the snapshot the replay
  keeps four clock tables (\<open>clocks\<close>, \<open>dirTombstones\<close>, \<open>rootTombstone\<close>, \<open>dirClocks\<close>); they are the
  fields of \<open>BuildState\<close>. The lemmas show that the ancestor walk of \<open>coveredByDirTombstone\<close> finds
  exactly the directories above a path, and that the replay keeps the invariant \<open>build_inv\<close>: the
  clock tables describe the snapshot, and no surviving file or directory is older than a tombstone
  above it.
\<close>

section \<open>Data\<close>

datatype OpType = OpPut | OpDelete | OpDeleteDir | OpDeleteRoot | OpCreateDir | OpSymlink | OpOther string

record OpEntry =
  oe_Type :: OpType
  oe_Path :: string
  oe_Chunks :: "string list option"
  oe_Size :: int
  oe_Checksum :: string
  oe_PrevChecksum :: string
  oe_LinkTarget :: string
  oe_Namespace :: string
  oe_Device :: string
  oe_Timestamp :: int
  oe_Seq :: int
  oe_Client :: string

record FileInfo =
  fi_Chunks :: "string list option"
  fi_Size :: int
  fi_Modified :: int
  fi_Checksum :: string
  fi_PrevChecksum :: string
  fi_Namespace :: string
  fi_Device :: string
  fi_Seq :: int
  fi_LinkTarget :: string

record DirInfo =
  di_Namespace :: string
  di_Device :: string
  di_Seq :: int
  di_Modified :: int

record OpTombstone =
  ot_Namespace :: string
  ot_Device :: string
  ot_Seq :: int
  ot_Modified :: int
  ot_PrevChecksum :: string

record OpSnapshot =
  os_files :: "(string, FileInfo) gomap"
  os_dirs :: "(string, DirInfo) gomap"
  os_deleted :: "(string, OpTombstone) gomap"
  os_deletedDirs :: "(string, OpTombstone) gomap"
  os_deletedRoot :: "OpTombstone option"
  os_created :: int
  os_updated :: int

definition entryClock :: "OpEntry \<Rightarrow> clockTuple" where
  "entryClock e = \<lparr>ct_ts = oe_Timestamp e, ct_device = oe_Device e, ct_seq = oe_Seq e\<rparr>"

definition fileClock :: "FileInfo \<Rightarrow> clockTuple" where
  "fileClock v = \<lparr>ct_ts = fi_Modified v, ct_device = fi_Device v, ct_seq = fi_Seq v\<rparr>"

definition dirClock :: "DirInfo \<Rightarrow> clockTuple" where
  "dirClock v = \<lparr>ct_ts = di_Modified v, ct_device = di_Device v, ct_seq = di_Seq v\<rparr>"

definition opTombstoneClock :: "OpTombstone \<Rightarrow> clockTuple" where
  "opTombstoneClock t = \<lparr>ct_ts = ot_Modified t, ct_device = ot_Device t, ct_seq = ot_Seq t\<rparr>"

definition entryDescendsFile :: "OpEntry \<Rightarrow> FileInfo \<Rightarrow> bool" where
  "entryDescendsFile e fi \<longleftrightarrow>
     oe_PrevChecksum e \<noteq> [] \<and> fi_Checksum fi \<noteq> [] \<and> oe_PrevChecksum e = fi_Checksum fi"

definition fileDescendsEntry :: "FileInfo \<Rightarrow> OpEntry \<Rightarrow> bool" where
  "fileDescendsEntry fi e \<longleftrightarrow>
     fi_PrevChecksum fi \<noteq> [] \<and> oe_Checksum e \<noteq> [] \<and> fi_PrevChecksum fi = oe_Checksum e"

definition tombstoneDescendsEntry :: "OpTombstone \<Rightarrow> OpEntry \<Rightarrow> bool" where
  "tombstoneDescendsEntry t e \<longleftrightarrow>
     ot_PrevChecksum t \<noteq> [] \<and> oe_Checksum e \<noteq> [] \<and> ot_PrevChecksum t = oe_Checksum e"

definition file_of_entry :: "OpEntry \<Rightarrow> FileInfo" where
  "file_of_entry e = \<lparr>fi_Chunks = oe_Chunks e, fi_Size = oe_Size e, fi_Modified = oe_Timestamp e,
     fi_Checksum = oe_Checksum e, fi_PrevChecksum = oe_PrevChecksum e, fi_Namespace = oe_Namespace e,
     fi_Device = oe_Device e, fi_Seq = oe_Seq e, fi_LinkTarget = oe_LinkTarget e\<rparr>"

definition dir_of_entry :: "OpEntry \<Rightarrow> DirInfo" where
  "dir_of_entry e = \<lparr>di_Namespace = oe_Namespace e, di_Device = oe_Device e, di_Seq = oe_Seq e,
     di_Modified = oe_Timestamp e\<rparr>"

definition tombstoneInfoFromEntry :: "OpEntry \<Rightarrow> OpTombstone" where
  "tombstoneInfoFromEntry e = \<lparr>ot_Namespace = oe_Namespace e, ot_Device = oe_Device e,
     ot_Seq = oe_Seq e, ot_Modified = oe_Timestamp e, ot_PrevChecksum = oe_PrevChecksum e\<rparr>"

lemma clock_of_entry [simp]:
  "fileClock (file_of_entry e) = entryClock e"
  "dirClock (dir_of_entry e) = entryClock e"
  "opTombstoneClock (tombstoneInfoFromEntry e) = entryClock e"
  by (simp_all add: fileClock_def file_of_entry_def dirClock_def dir_of_entry_def entryClock_def
      opTombstoneClock_def tombstoneInfoFromEntry_def)

section \<open>The ancestor walk\<close>

text \<open>\<open>strings.LastIndex\<close> for a one-byte separator.\<close>

fun LastIndex :: "string \<Rightarrow> char \<Rightarrow> nat option" where
  "LastIndex [] c = None"
| "LastIndex (x # xs) c =
     (case LastIndex xs c of Some i \<Rightarrow> Some (Suc i) | None \<Rightarrow> if x = c then Some 0 else None)"

lemma LastIndex_None: "LastIndex s c = None \<longleftrightarrow> c \<notin> set s"
  by (induction s) (auto split: option.splits)

lemma LastIndex_Some: "LastIndex s c = Some i \<longleftrightarrow> i < length s \<and> s ! i = c \<and> c \<notin> set (drop (Suc i) s)"
proof (induction s arbitrary: i)
  case (Cons x xs)
  show ?case
  proof (cases i)
    case 0
    then show ?thesis using LastIndex_None [of xs c] by (auto split: option.split)
  next
    case (Suc j)
    have "LastIndex (x # xs) c = Some (Suc j) \<longleftrightarrow> LastIndex xs c = Some j"
      by (auto split: option.split)
    then show ?thesis using Cons.IH [of j] Suc by simp
  qed
qed simp

lemma LastIndex_less [termination_simp]: "LastIndex s c = Some i \<Longrightarrow> i < length s"
  by (simp add: LastIndex_Some)

text \<open>The loop cuts the path at its last slash until no slash is left.\<close>

function coveredByDirTombstone :: "string \<Rightarrow> clockTuple \<Rightarrow> (string, clockTuple) gomap \<Rightarrow> bool" where
  "coveredByDirTombstone dir ec tombstones =
     (case LastIndex dir (CHR ''/'') of
        None \<Rightarrow> False
      | Some i \<Rightarrow>
          (case fmlookup tombstones (take i dir) of
             Some ts \<Rightarrow> if \<not> beats ec ts then True else coveredByDirTombstone (take i dir) ec tombstones
           | None \<Rightarrow> coveredByDirTombstone (take i dir) ec tombstones))"
  by pat_completeness auto
termination
  by (relation "measure (length \<circ> fst)") (auto dest: LastIndex_less)

declare coveredByDirTombstone.simps [simp del]

text \<open>\<open>under d p\<close>: the path \<open>p\<close> lies below the directory \<open>d\<close>.\<close>

definition under :: "string \<Rightarrow> string \<Rightarrow> bool" where
  "under d p \<longleftrightarrow> HasPrefix p (d @ ''/'')"

lemma under_iff: "under d p \<longleftrightarrow> (\<exists>r. p = d @ CHR ''/'' # r)"
  by (auto simp: under_def HasPrefix_iff_prefix prefix_def)

lemma under_LastIndex:
  assumes "LastIndex p (CHR ''/'') = Some i"
  shows "under d p \<longleftrightarrow> d = take i p \<or> under d (take i p)"
proof -
  have i: "i < length p" "p ! i = CHR ''/''" "CHR ''/'' \<notin> set (drop (Suc i) p)"
    using assms by (auto simp: LastIndex_Some)
  have p: "p = take i p @ CHR ''/'' # drop (Suc i) p"
    using i by (metis id_take_nth_drop)
  show ?thesis
  proof
    assume "under d p"
    then obtain r where r: "p = d @ CHR ''/'' # r" by (auto simp: under_iff)
    have "\<not> i < length d"
    proof
      assume "i < length d"
      then have "drop (Suc i) p = drop (Suc i) d @ CHR ''/'' # r" using r by simp
      then show False using i(3) by simp
    qed
    then consider "i = length d" | "length d < i" by linarith
    then show "d = take i p \<or> under d (take i p)"
    proof cases
      case 1
      then show ?thesis using r by simp
    next
      case 2
      then have "take i p = d @ CHR ''/'' # take (i - length d - 1) r"
        using r by (simp add: take_Cons')
      then show ?thesis by (auto simp: under_iff)
    qed
  next
    assume "d = take i p \<or> under d (take i p)"
    then show "under d p"
      using p by (auto simp: under_iff)
  qed
qed

lemma covered_iff:
  "coveredByDirTombstone p ec T \<longleftrightarrow> (\<exists>d ts. under d p \<and> fmlookup T d = Some ts \<and> \<not> beats ec ts)"
proof (induction p ec T rule: coveredByDirTombstone.induct)
  case (1 dir ec T)
  show ?case
  proof (cases "LastIndex dir (CHR ''/'')")
    case None
    then have "CHR ''/'' \<notin> set dir" by (simp add: LastIndex_None)
    then have "\<not> under d dir" for d by (auto simp: under_iff)
    with None show ?thesis by (subst coveredByDirTombstone.simps) simp
  next
    case (Some i)
    show ?thesis
      using Some 1 [OF Some] under_LastIndex [OF Some]
      by (subst coveredByDirTombstone.simps) (auto split: option.split if_splits)
  qed
qed

section \<open>Replaying entries\<close>

record BuildState =
  bs_snap :: OpSnapshot
  bs_clocks :: "(string, clockTuple) gomap"
  bs_dirTombstones :: "(string, clockTuple) gomap"
  bs_rootTombstone :: "clockTuple option"
  bs_dirClocks :: "(string, clockTuple) gomap"

text \<open>The guard \<open>if prev, ok := m[k]; ok && !ec.beats(prev)\<close>.\<close>

definition stale :: "clockTuple \<Rightarrow> clockTuple option \<Rightarrow> bool" where
  "stale ec prev = (case prev of None \<Rightarrow> False | Some c \<Rightarrow> \<not> beats ec c)"

lemma stale_simps [simp]: "stale ec None = False" "stale ec (Some c) = (\<not> beats ec c)"
  by (simp_all add: stale_def)

definition put_blocked :: "OpEntry \<Rightarrow> BuildState \<Rightarrow> bool" where
  "put_blocked e s =
     (let ec = entryClock e; prev = fmlookup (bs_clocks s) (oe_Path e) in
      case fmlookup (os_files (bs_snap s)) (oe_Path e) of
        Some local \<Rightarrow>
          if fileDescendsEntry local e then True
          else if \<not> entryDescendsFile e local then stale ec prev
          else False
      | None \<Rightarrow>
          (case fmlookup (os_deleted (bs_snap s)) (oe_Path e) of
             Some tomb \<Rightarrow>
               if tombstoneDescendsEntry tomb e \<and> ot_Device tomb \<noteq> [] \<and> oe_Device e \<noteq> ot_Device tomb
               then True else stale ec prev
           | None \<Rightarrow> stale ec prev))"

definition apply_put :: "OpEntry \<Rightarrow> BuildState \<Rightarrow> BuildState" where
  "apply_put e s =
     (let ec = entryClock e; snap = bs_snap s in
      if stale ec (bs_rootTombstone s) then s
      else if put_blocked e s then s
      else if coveredByDirTombstone (oe_Path e) ec (bs_dirTombstones s) then s
      else s\<lparr>bs_clocks := fmupd (oe_Path e) ec (bs_clocks s),
             bs_snap := snap\<lparr>os_deleted := fmdrop (oe_Path e) (os_deleted snap),
                             os_files := fmupd (oe_Path e) (file_of_entry e) (os_files snap)\<rparr>\<rparr>)"

definition apply_delete :: "OpEntry \<Rightarrow> BuildState \<Rightarrow> BuildState" where
  "apply_delete e s =
     (let ec = entryClock e; snap = bs_snap s; prev = fmlookup (bs_clocks s) (oe_Path e) in
      if stale ec (bs_rootTombstone s) then s
      else if (case fmlookup (os_files snap) (oe_Path e) of
                 Some local \<Rightarrow> \<not> entryDescendsFile e local \<and> stale ec prev
               | None \<Rightarrow> stale ec prev) then s
      else s\<lparr>bs_clocks := fmupd (oe_Path e) ec (bs_clocks s),
             bs_snap := snap\<lparr>os_files := fmdrop (oe_Path e) (os_files snap),
                             os_deleted := fmupd (oe_Path e) (tombstoneInfoFromEntry e) (os_deleted snap)\<rparr>\<rparr>)"

definition apply_create_dir :: "OpEntry \<Rightarrow> BuildState \<Rightarrow> BuildState" where
  "apply_create_dir e s =
     (let ec = entryClock e; snap = bs_snap s in
      if stale ec (bs_rootTombstone s) then s
      else if stale ec (fmlookup (bs_dirClocks s) (oe_Path e)) then s
      else if stale ec (fmlookup (bs_dirTombstones s) (oe_Path e)) then s
      else if coveredByDirTombstone (oe_Path e) ec (bs_dirTombstones s) then s
      else s\<lparr>bs_dirClocks := fmupd (oe_Path e) ec (bs_dirClocks s),
             bs_snap := snap\<lparr>os_deletedDirs := fmdrop (oe_Path e) (os_deletedDirs snap),
                             os_dirs := fmupd (oe_Path e) (dir_of_entry e) (os_dirs snap)\<rparr>\<rparr>)"

text \<open>
  The three loops of \<open>delete_dir\<close>. Each iteration reads and writes only its own path, so the order
  of the \<open>range\<close> does not matter and a loop is a filter of the map.
\<close>

definition mark_deleted_dir :: "OpEntry \<Rightarrow> BuildState \<Rightarrow> BuildState" where
  "mark_deleted_dir e s =
     (if stale (entryClock e) (fmlookup (bs_dirTombstones s) (oe_Path e)) then s
      else s\<lparr>bs_dirTombstones := fmupd (oe_Path e) (entryClock e) (bs_dirTombstones s),
             bs_snap := (bs_snap s)\<lparr>os_deletedDirs :=
               fmupd (oe_Path e) (tombstoneInfoFromEntry e) (os_deletedDirs (bs_snap s))\<rparr>\<rparr>)"

definition sweep_files :: "OpEntry \<Rightarrow> BuildState \<Rightarrow> BuildState" where
  "sweep_files e s =
     (let snap = bs_snap s;
          hit = (\<lambda>p (_ :: FileInfo). HasPrefix p (oe_Path e @ ''/'') \<and>
                   \<not> stale (entryClock e) (fmlookup (bs_clocks s) p));
          gone = fm_filter hit (os_files snap)
      in s\<lparr>bs_clocks := bs_clocks s ++\<^sub>f fmmap (\<lambda>_. entryClock e) gone,
           bs_snap := snap\<lparr>os_files := fm_filter (\<lambda>p v. \<not> hit p v) (os_files snap),
                           os_deleted := os_deleted snap ++\<^sub>f fmmap (\<lambda>_. tombstoneInfoFromEntry e) gone\<rparr>\<rparr>)"

definition drop_dir :: "OpEntry \<Rightarrow> BuildState \<Rightarrow> BuildState" where
  "drop_dir e s =
     (if stale (entryClock e) (fmlookup (bs_dirClocks s) (oe_Path e)) then s
      else s\<lparr>bs_dirClocks := fmupd (oe_Path e) (entryClock e) (bs_dirClocks s),
             bs_snap := (bs_snap s)\<lparr>os_dirs := fmdrop (oe_Path e) (os_dirs (bs_snap s))\<rparr>\<rparr>)"

definition sweep_dirs :: "OpEntry \<Rightarrow> BuildState \<Rightarrow> BuildState" where
  "sweep_dirs e s =
     (let snap = bs_snap s;
          hit = (\<lambda>p (_ :: DirInfo). HasPrefix p (oe_Path e @ ''/'') \<and>
                   \<not> stale (entryClock e) (fmlookup (bs_dirClocks s) p));
          gone = fm_filter hit (os_dirs snap)
      in s\<lparr>bs_dirClocks := bs_dirClocks s ++\<^sub>f fmmap (\<lambda>_. entryClock e) gone,
           bs_snap := snap\<lparr>os_dirs := fm_filter (\<lambda>p v. \<not> hit p v) (os_dirs snap)\<rparr>\<rparr>)"

definition apply_delete_dir :: "OpEntry \<Rightarrow> BuildState \<Rightarrow> BuildState" where
  "apply_delete_dir e s =
     (if stale (entryClock e) (bs_rootTombstone s) then s
      else sweep_dirs e (drop_dir e (sweep_files e (mark_deleted_dir e s))))"

definition apply_delete_root :: "OpEntry \<Rightarrow> BuildState \<Rightarrow> BuildState" where
  "apply_delete_root e s =
     (if stale (entryClock e) (bs_rootTombstone s) then s
      else \<lparr>bs_snap = (bs_snap s)\<lparr>os_files := fmempty, os_dirs := fmempty, os_deleted := fmempty,
               os_deletedDirs := fmempty, os_deletedRoot := Some (tombstoneInfoFromEntry e)\<rparr>,
            bs_clocks = fmempty, bs_dirTombstones = fmempty,
            bs_rootTombstone = Some (entryClock e), bs_dirClocks = fmempty\<rparr>)"

definition op_apply :: "OpEntry \<Rightarrow> BuildState \<Rightarrow> BuildState" where
  "op_apply e s = (case oe_Type e of
      OpPut \<Rightarrow> apply_put e s
    | OpSymlink \<Rightarrow> apply_put e s
    | OpDelete \<Rightarrow> apply_delete e s
    | OpCreateDir \<Rightarrow> apply_create_dir e s
    | OpDeleteDir \<Rightarrow> apply_delete_dir e s
    | OpDeleteRoot \<Rightarrow> apply_delete_root e s
    | OpOther _ \<Rightarrow> s)"

definition empty_ops :: "int \<Rightarrow> OpSnapshot" where
  "empty_ops now = \<lparr>os_files = fmempty, os_dirs = fmempty, os_deleted = fmempty,
     os_deletedDirs = fmempty, os_deletedRoot = None, os_created = now, os_updated = now\<rparr>"

text \<open>
  The clock tables the replay starts with: a tombstone overrides the clock of a file of the same
  path, and raises the clock of a directory.
\<close>

definition clocks_of :: "OpSnapshot \<Rightarrow> (string, clockTuple) gomap" where
  "clocks_of b = fmmap fileClock (os_files b) ++\<^sub>f fmmap opTombstoneClock (os_deleted b)"

definition dirTombstones_of :: "OpSnapshot \<Rightarrow> (string, clockTuple) gomap" where
  "dirTombstones_of b = fmmap opTombstoneClock (os_deletedDirs b)"

definition dirClocks_of :: "OpSnapshot \<Rightarrow> (string, clockTuple) gomap" where
  "dirClocks_of b =
     (let dirs = fmmap dirClock (os_dirs b) in
      dirs ++\<^sub>f fm_filter (\<lambda>p c. \<not> stale c (fmlookup dirs p)) (dirTombstones_of b))"

definition start_ops :: "int \<Rightarrow> OpSnapshot option \<Rightarrow> BuildState" where
  "start_ops now base = (case base of
      None \<Rightarrow> \<lparr>bs_snap = empty_ops now, bs_clocks = fmempty, bs_dirTombstones = fmempty,
              bs_rootTombstone = None, bs_dirClocks = fmempty\<rparr>
    | Some b \<Rightarrow> \<lparr>bs_snap = b\<lparr>os_updated := now\<rparr>, bs_clocks = clocks_of b,
              bs_dirTombstones = dirTombstones_of b,
              bs_rootTombstone = map_option opTombstoneClock (os_deletedRoot b),
              bs_dirClocks = dirClocks_of b\<rparr>)"

definition replay :: "OpEntry list \<Rightarrow> BuildState \<Rightarrow> BuildState" where
  "replay es s = fold op_apply es s"

definition ops_buildSnapshot :: "int \<Rightarrow> OpSnapshot option \<Rightarrow> OpEntry list \<Rightarrow> OpSnapshot" where
  "ops_buildSnapshot now base entries =
     (bs_snap (replay entries (start_ops now base)))\<lparr>os_updated := now\<rparr>"

lemma replay_simps [simp]:
  "replay [] s = s" "replay (e # es) s = replay es (op_apply e s)"
  by (simp_all add: replay_def)

lemma replay_append [simp]: "replay (xs @ ys) s = replay ys (replay xs s)"
  by (simp add: replay_def)

section \<open>Reading a snapshot\<close>

definition os_Lookup :: "OpSnapshot \<Rightarrow> string \<Rightarrow> FileInfo option" where
  "os_Lookup s path = fmlookup (os_files s) path"

definition Paths :: "OpSnapshot \<Rightarrow> string list" where
  "Paths s = fm_keys (os_files s)"

definition os_Len :: "OpSnapshot \<Rightarrow> nat" where
  "os_Len s = fm_size (os_files s)"

definition DeletedFiles :: "OpSnapshot \<Rightarrow> (string, bool) gomap" where
  "DeletedFiles s = fmmap (\<lambda>_. True) (os_deleted s)"

definition DeletedDirs :: "OpSnapshot \<Rightarrow> (string, bool) gomap" where
  "DeletedDirs s = fmmap (\<lambda>_. True) (os_deletedDirs s)"

definition RootDeleted :: "OpSnapshot option \<Rightarrow> bool" where
  "RootDeleted s = (case s of None \<Rightarrow> False | Some t \<Rightarrow> os_deletedRoot t \<noteq> None)"

end
