(* ===== verification/Fs_Opslog_Props.thy ===== *)
theory Fs_Opslog_Props
  imports Fs_Opslog
begin

text \<open>
  What the replay of the file log guarantees. \<open>build_inv\<close> is the invariant of the replay loop and
  \<open>ops_inv\<close> the part of it that the snapshot alone carries; every operation keeps them. From them
  follow that tombstones hide what they cover, that an incremental replay agrees with a replay from
  the start as long as no deleted directory is re-created, and that compaction loses nothing while
  the drive has no root tombstone. The two exceptions are real: both are exhibited.
\<close>

section \<open>The invariant of the replay\<close>

definition clock_at :: "OpSnapshot \<Rightarrow> string \<Rightarrow> clockTuple option" where
  "clock_at snap p = (case fmlookup (os_files snap) p of
      Some fi \<Rightarrow> Some (fileClock fi)
    | None \<Rightarrow> map_option opTombstoneClock (fmlookup (os_deleted snap) p))"

text \<open>A clock that no tombstone above the path, and no root tombstone, hides.\<close>

definition visible :: "clockTuple option \<Rightarrow> (string, clockTuple) gomap \<Rightarrow> clockTuple \<Rightarrow> string \<Rightarrow> bool" where
  "visible root T c p \<longleftrightarrow> \<not> stale c root \<and>
     (\<forall>d t. under d p \<longrightarrow> fmlookup T d = Some t \<longrightarrow> \<not> beats t c)"

definition files_ok :: "BuildState \<Rightarrow> bool" where
  "files_ok s \<longleftrightarrow>
     (\<forall>p. fmlookup (bs_clocks s) p = clock_at (bs_snap s) p) \<and>
     (\<forall>p fi. fmlookup (os_files (bs_snap s)) p = Some fi \<longrightarrow>
        fmlookup (os_deleted (bs_snap s)) p = None \<and>
        visible (bs_rootTombstone s) (bs_dirTombstones s) (fileClock fi) p) \<and>
     (\<forall>p t. fmlookup (os_deleted (bs_snap s)) p = Some t \<longrightarrow>
        \<not> stale (opTombstoneClock t) (bs_rootTombstone s))"

definition dirs_ok :: "BuildState \<Rightarrow> bool" where
  "dirs_ok s \<longleftrightarrow>
     (\<forall>p di. fmlookup (os_dirs (bs_snap s)) p = Some di \<longrightarrow>
        fmlookup (bs_dirClocks s) p = Some (dirClock di) \<and>
        visible (bs_rootTombstone s) (bs_dirTombstones s) (dirClock di) p \<and>
        (\<forall>t. fmlookup (bs_dirTombstones s) p = Some t \<longrightarrow> \<not> beats t (dirClock di))) \<and>
     (\<forall>p t. fmlookup (os_deletedDirs (bs_snap s)) p = Some t \<longrightarrow>
        fmlookup (bs_dirTombstones s) p = Some (opTombstoneClock t) \<and>
        \<not> stale (opTombstoneClock t) (bs_rootTombstone s))"

text \<open>
  \<open>dirClocks\<close> also remembers directories that are gone. Such a clock never exceeds a tombstone at or
  above the path, so it decides nothing that the tombstones do not decide.
\<close>

definition masked :: "(string, clockTuple) gomap \<Rightarrow> clockTuple \<Rightarrow> string \<Rightarrow> bool" where
  "masked T c p \<longleftrightarrow> (\<exists>d t. (d = p \<or> under d p) \<and> fmlookup T d = Some t \<and> \<not> beats c t)"

definition dirclocks_ok :: "BuildState \<Rightarrow> bool" where
  "dirclocks_ok s \<longleftrightarrow> (\<forall>p c. fmlookup (os_dirs (bs_snap s)) p = None \<longrightarrow>
     fmlookup (bs_dirClocks s) p = Some c \<longrightarrow> masked (bs_dirTombstones s) c p)"

definition build_inv :: "BuildState \<Rightarrow> bool" where
  "build_inv s \<longleftrightarrow> bs_rootTombstone s = map_option opTombstoneClock (os_deletedRoot (bs_snap s)) \<and>
     files_ok s \<and> dirs_ok s \<and> dirclocks_ok s"

lemmas inv_defs = build_inv_def files_ok_def dirs_ok_def dirclocks_ok_def

lemma visible_empty [simp]: "visible root fmempty c p \<longleftrightarrow> \<not> stale c root"
  by (simp add: visible_def)

lemma visible_covered:
  "\<not> stale ec root \<Longrightarrow> \<not> coveredByDirTombstone p ec T \<Longrightarrow> visible root T ec p"
  by (auto simp: visible_def covered_iff dest: beats_asym)

lemma apply_put_inv: "build_inv s \<Longrightarrow> build_inv (apply_put e s)"
  unfolding apply_put_def Let_def
  by (auto simp: inv_defs clock_at_def visible_covered split: option.splits)

lemma apply_delete_inv: "build_inv s \<Longrightarrow> build_inv (apply_delete e s)"
  unfolding apply_delete_def Let_def
  by (auto simp: inv_defs clock_at_def split: option.splits)

lemma apply_create_dir_inv: "build_inv s \<Longrightarrow> build_inv (apply_create_dir e s)"
  unfolding apply_create_dir_def Let_def
  by (auto simp: inv_defs clock_at_def visible_covered stale_def dest: beats_asym split: option.splits)

lemma apply_delete_root_inv: "build_inv s \<Longrightarrow> build_inv (apply_delete_root e s)"
  unfolding apply_delete_root_def Let_def
  by (auto simp: inv_defs clock_at_def)

text \<open>The effect of \<open>delete_dir\<close> on each table, in closed form.\<close>

lemma not_under_self [simp]: "\<not> under p p"
  by (auto simp: under_iff)

definition swept :: "OpEntry \<Rightarrow> BuildState \<Rightarrow> string \<Rightarrow> bool" where
  "swept e s p \<longleftrightarrow> under (oe_Path e) p \<and> \<not> stale (entryClock e) (fmlookup (bs_clocks s) p)"

definition swept_dir :: "OpEntry \<Rightarrow> BuildState \<Rightarrow> string \<Rightarrow> bool" where
  "swept_dir e s p \<longleftrightarrow> (p = oe_Path e \<or> under (oe_Path e) p) \<and>
     \<not> stale (entryClock e) (fmlookup (bs_dirClocks s) p)"

lemma delete_dir_lookups:
  assumes "\<not> stale (entryClock e) (bs_rootTombstone s)"
  defines "s' \<equiv> apply_delete_dir e s"
  shows "fmlookup (os_files (bs_snap s')) p =
      (if swept e s p then None else fmlookup (os_files (bs_snap s)) p)"
    and "fmlookup (os_deleted (bs_snap s')) p =
      (if swept e s p \<and> fmlookup (os_files (bs_snap s)) p \<noteq> None then Some (tombstoneInfoFromEntry e)
       else fmlookup (os_deleted (bs_snap s)) p)"
    and "fmlookup (bs_clocks s') p =
      (if swept e s p \<and> fmlookup (os_files (bs_snap s)) p \<noteq> None then Some (entryClock e)
       else fmlookup (bs_clocks s) p)"
    and "fmlookup (os_dirs (bs_snap s')) p =
      (if swept_dir e s p then None else fmlookup (os_dirs (bs_snap s)) p)"
    and "fmlookup (bs_dirClocks s') p =
      (if swept_dir e s p \<and> (p = oe_Path e \<or> fmlookup (os_dirs (bs_snap s)) p \<noteq> None)
       then Some (entryClock e) else fmlookup (bs_dirClocks s) p)"
    and "bs_dirTombstones s' =
      (if stale (entryClock e) (fmlookup (bs_dirTombstones s) (oe_Path e)) then bs_dirTombstones s
       else fmupd (oe_Path e) (entryClock e) (bs_dirTombstones s))"
    and "os_deletedDirs (bs_snap s') =
      (if stale (entryClock e) (fmlookup (bs_dirTombstones s) (oe_Path e)) then os_deletedDirs (bs_snap s)
       else fmupd (oe_Path e) (tombstoneInfoFromEntry e) (os_deletedDirs (bs_snap s)))"
    and "bs_rootTombstone s' = bs_rootTombstone s"
    and "os_deletedRoot (bs_snap s') = os_deletedRoot (bs_snap s)"
    and "os_created (bs_snap s') = os_created (bs_snap s)"
    and "os_updated (bs_snap s') = os_updated (bs_snap s)"
  using assms(1) unfolding s'_def apply_delete_dir_def
  by (auto simp: sweep_dirs_def drop_dir_def sweep_files_def mark_deleted_dir_def swept_def
      swept_dir_def under_def [symmetric] Let_def split: option.split)

lemma swept_visible:
  assumes "visible root T c p" "under d p \<Longrightarrow> \<not> beats ec c"
  shows "visible root (fmupd d ec T) c p"
  using assms by (auto simp: visible_def)

lemma masked_upd:
  assumes "masked T c p" "\<not> stale ec (fmlookup T d)"
  shows "masked (fmupd d ec T) c p"
proof -
  obtain d' t where t: "d' = p \<or> under d' p" "fmlookup T d' = Some t" "\<not> beats c t"
    using assms(1) by (auto simp: masked_def)
  have "\<not> beats c ec" if "d' = d"
    using that t assms(2) beats_trans by auto
  then show ?thesis
    using t unfolding masked_def by (cases "d' = d") auto
qed

lemma masked_here:
  "stale ec (fmlookup T d) \<Longrightarrow> d = p \<or> under d p \<Longrightarrow> masked T ec p"
  "d = p \<or> under d p \<Longrightarrow> masked (fmupd d ec T) ec p"
  by (auto simp: masked_def stale_def split: option.splits)

lemma apply_delete_dir_inv:
  assumes inv: "build_inv s"
  shows "build_inv (apply_delete_dir e s)"
proof (cases "stale (entryClock e) (bs_rootTombstone s)")
  case True
  then show ?thesis using inv by (simp add: apply_delete_dir_def)
next
  case False
  note L = delete_dir_lookups [OF False]
  have ck: "fmlookup (bs_clocks s) p = clock_at (bs_snap s) p" for p
    using inv by (simp add: inv_defs)
  have "files_ok (apply_delete_dir e s)"
    unfolding files_ok_def
    by (use inv False in \<open>auto simp: L inv_defs clock_at_def swept_def intro!: swept_visible
        split: option.splits if_splits\<close>)
  moreover have "dirs_ok (apply_delete_dir e s)"
    unfolding dirs_ok_def L
    by (use inv False in \<open>auto simp: inv_defs swept_dir_def intro!: swept_visible split: if_splits\<close>)
  moreover have "masked (bs_dirTombstones (apply_delete_dir e s)) c p"
    if p: "fmlookup (os_dirs (bs_snap (apply_delete_dir e s))) p = None"
      "fmlookup (bs_dirClocks (apply_delete_dir e s)) p = Some c" for p c
  proof (cases "swept_dir e s p \<and> (p = oe_Path e \<or> fmlookup (os_dirs (bs_snap s)) p \<noteq> None)")
    case True
    then have "c = entryClock e" "oe_Path e = p \<or> under (oe_Path e) p"
      using p by (auto simp: L swept_dir_def)
    then show ?thesis by (simp add: L masked_here)
  next
    case old: False
    then have "fmlookup (os_dirs (bs_snap s)) p = None" "fmlookup (bs_dirClocks s) p = Some c"
      using p by (auto simp: L split: if_splits)
    then have "masked (bs_dirTombstones s) c p"
      using inv by (simp add: inv_defs)
    then show ?thesis by (simp add: L masked_upd)
  qed
  ultimately show ?thesis
    using inv by (simp add: build_inv_def dirclocks_ok_def L)
qed

lemma op_apply_inv: "build_inv s \<Longrightarrow> build_inv (op_apply e s)"
  by (simp add: op_apply_def apply_put_inv apply_delete_inv apply_create_dir_inv apply_delete_dir_inv
      apply_delete_root_inv split: OpType.split)

lemma replay_inv: "build_inv s \<Longrightarrow> build_inv (replay es s)"
  by (induction es arbitrary: s) (simp_all add: op_apply_inv)

section \<open>The invariant of a snapshot\<close>

definition ops_inv :: "OpSnapshot \<Rightarrow> bool" where
  "ops_inv b \<longleftrightarrow> build_inv (start_ops 0 (Some b))"

lemma start_ops_lookups [simp]:
  "bs_snap (start_ops now (Some b)) = b\<lparr>os_updated := now\<rparr>"
  "bs_clocks (start_ops now (Some b)) = clocks_of b"
  "bs_dirTombstones (start_ops now (Some b)) = dirTombstones_of b"
  "bs_rootTombstone (start_ops now (Some b)) = map_option opTombstoneClock (os_deletedRoot b)"
  "bs_dirClocks (start_ops now (Some b)) = dirClocks_of b"
  by (simp_all add: start_ops_def)

lemma clock_at_updated [simp]: "clock_at (b\<lparr>os_updated := t\<rparr>) p = clock_at b p"
  by (simp add: clock_at_def split: option.split)

lemma start_inv_iff: "build_inv (start_ops now (Some b)) \<longleftrightarrow> ops_inv b"
  by (simp add: ops_inv_def inv_defs)

lemma clocks_of_lookup:
  "fmlookup (clocks_of b) p = (case fmlookup (os_deleted b) p of
      Some t \<Rightarrow> Some (opTombstoneClock t) | None \<Rightarrow> map_option fileClock (fmlookup (os_files b) p))"
  by (simp add: clocks_of_def fmlookup_dom_iff split: option.split)

lemma dirTombstones_of_lookup [simp]:
  "fmlookup (dirTombstones_of b) p = map_option opTombstoneClock (fmlookup (os_deletedDirs b) p)"
  by (simp add: dirTombstones_of_def)

lemma dirClocks_of_lookup:
  "fmlookup (dirClocks_of b) p = (case fmlookup (os_deletedDirs b) p of
      None \<Rightarrow> map_option dirClock (fmlookup (os_dirs b) p)
    | Some t \<Rightarrow> (case fmlookup (os_dirs b) p of
         None \<Rightarrow> Some (opTombstoneClock t)
       | Some d \<Rightarrow> Some (if beats (opTombstoneClock t) (dirClock d) then opTombstoneClock t else dirClock d)))"
  by (auto simp: dirClocks_of_def Let_def split: option.split)

lemma build_inv_snapshot:
  assumes "build_inv s"
  shows "ops_inv (bs_snap s)"
proof -
  have vis: "visible (bs_rootTombstone s) (dirTombstones_of (bs_snap s)) c p"
    if "visible (bs_rootTombstone s) (bs_dirTombstones s) c p" for c p
    using that assms by (auto simp: visible_def inv_defs)
  have root: "map_option opTombstoneClock (os_deletedRoot (bs_snap s)) = bs_rootTombstone s"
    using assms by (simp add: inv_defs)
  have "files_ok (start_ops 0 (Some (bs_snap s)))"
    unfolding files_ok_def using assms
    by (auto simp: root vis inv_defs clocks_of_lookup clock_at_def split: option.split)
  moreover have "dirs_ok (start_ops 0 (Some (bs_snap s)))"
    unfolding dirs_ok_def using assms
    by (auto simp: root vis inv_defs dirClocks_of_lookup split: option.split)
  moreover have "dirclocks_ok (start_ops 0 (Some (bs_snap s)))"
    unfolding dirclocks_ok_def masked_def
    by (auto simp: dirClocks_of_lookup split: option.splits)
  ultimately show ?thesis by (simp add: ops_inv_def build_inv_def)
qed

lemma ops_inv_updated [simp]: "ops_inv (b\<lparr>os_updated := t\<rparr>) \<longleftrightarrow> ops_inv b"
  by (simp add: ops_inv_def inv_defs clocks_of_def dirTombstones_of_def dirClocks_of_def)

lemma start_inv: "(\<And>b. base = Some b \<Longrightarrow> ops_inv b) \<Longrightarrow> build_inv (start_ops now base)"
  by (cases base) (simp_all add: start_inv_iff, simp add: start_ops_def empty_ops_def inv_defs clock_at_def)

lemma ops_build_inv:
  "(\<And>b. base = Some b \<Longrightarrow> ops_inv b) \<Longrightarrow> ops_inv (ops_buildSnapshot now base es)"
  by (simp add: ops_buildSnapshot_def build_inv_snapshot replay_inv start_inv)

section \<open>Incremental replay\<close>

text \<open>
  Two replays are in the same position when they hold the same tree and the same directory
  tombstones: the other tables follow from the invariant, or decide nothing.
\<close>

definition same_tree :: "OpSnapshot \<Rightarrow> OpSnapshot \<Rightarrow> bool" where
  "same_tree a b \<longleftrightarrow> os_files a = os_files b \<and> os_dirs a = os_dirs b \<and> os_deleted a = os_deleted b \<and>
     os_deletedDirs a = os_deletedDirs b \<and> os_deletedRoot a = os_deletedRoot b"

definition same_position :: "BuildState \<Rightarrow> BuildState \<Rightarrow> bool" where
  "same_position s s' \<longleftrightarrow> same_tree (bs_snap s) (bs_snap s') \<and> bs_dirTombstones s = bs_dirTombstones s' \<and>
     build_inv s \<and> build_inv s'"

lemma same_position_facts:
  assumes "same_position s s'"
  shows "bs_clocks s = bs_clocks s'" "bs_rootTombstone s = bs_rootTombstone s'"
    and "fmlookup (os_dirs (bs_snap s')) p \<noteq> None \<Longrightarrow> fmlookup (bs_dirClocks s) p = fmlookup (bs_dirClocks s') p"
proof -
  show "bs_clocks s = bs_clocks s'"
    using assms by (intro fmap_ext) (auto simp: same_position_def same_tree_def inv_defs clock_at_def split: option.split)
  show "bs_rootTombstone s = bs_rootTombstone s'"
    using assms by (auto simp: same_position_def same_tree_def build_inv_def)
  show "fmlookup (bs_dirClocks s) p = fmlookup (bs_dirClocks s') p"
    if "fmlookup (os_dirs (bs_snap s')) p \<noteq> None"
    using that assms by (auto simp: same_position_def same_tree_def build_inv_def dirs_ok_def)
qed

text \<open>What \<open>create_dir\<close> tests, without the clocks of vanished directories.\<close>

definition create_blocked :: "OpEntry \<Rightarrow> BuildState \<Rightarrow> bool" where
  "create_blocked e s \<longleftrightarrow>
     stale (entryClock e) (map_option dirClock (fmlookup (os_dirs (bs_snap s)) (oe_Path e))) \<or>
     stale (entryClock e) (fmlookup (bs_dirTombstones s) (oe_Path e)) \<or>
     coveredByDirTombstone (oe_Path e) (entryClock e) (bs_dirTombstones s)"

lemma masked_blocks:
  assumes "masked T c p" "\<not> beats ec c"
  shows "stale ec (fmlookup T p) \<or> coveredByDirTombstone p ec T"
proof -
  obtain d t where t: "d = p \<or> under d p" "fmlookup T d = Some t" "\<not> beats c t"
    using assms(1) by (auto simp: masked_def)
  then have "\<not> beats ec t" using assms(2) not_beats_not_beats by blast
  with t show ?thesis by (auto simp: covered_iff)
qed

lemma create_blocked_iff:
  assumes "build_inv s"
  shows "create_blocked e s \<longleftrightarrow>
     stale (entryClock e) (fmlookup (bs_dirClocks s) (oe_Path e)) \<or>
     stale (entryClock e) (fmlookup (bs_dirTombstones s) (oe_Path e)) \<or>
     coveredByDirTombstone (oe_Path e) (entryClock e) (bs_dirTombstones s)"
proof (cases "fmlookup (os_dirs (bs_snap s)) (oe_Path e)")
  case None
  have "stale (entryClock e) (fmlookup (bs_dirTombstones s) (oe_Path e)) \<or>
     coveredByDirTombstone (oe_Path e) (entryClock e) (bs_dirTombstones s)"
    if "fmlookup (bs_dirClocks s) (oe_Path e) = Some c" "\<not> beats (entryClock e) c" for c
    using masked_blocks [OF _ that(2)] None that(1) assms by (simp add: inv_defs)
  with None show ?thesis by (auto simp: create_blocked_def stale_def split: option.split)
next
  case (Some di)
  then show ?thesis using assms by (simp add: create_blocked_def inv_defs)
qed

lemma apply_create_dir_alt:
  assumes "build_inv s"
  shows "apply_create_dir e s =
     (if stale (entryClock e) (bs_rootTombstone s) \<or> create_blocked e s then s
      else s\<lparr>bs_dirClocks := fmupd (oe_Path e) (entryClock e) (bs_dirClocks s),
             bs_snap := (bs_snap s)\<lparr>os_deletedDirs := fmdrop (oe_Path e) (os_deletedDirs (bs_snap s)),
               os_dirs := fmupd (oe_Path e) (dir_of_entry e) (os_dirs (bs_snap s))\<rparr>\<rparr>)"
  by (auto simp: create_blocked_iff [OF assms] apply_create_dir_def Let_def)

lemma delete_dir_same:
  assumes sp: "same_position s s'"
  shows "same_tree (bs_snap (apply_delete_dir e s)) (bs_snap (apply_delete_dir e s')) \<and>
    bs_dirTombstones (apply_delete_dir e s) = bs_dirTombstones (apply_delete_dir e s')"
proof (cases "stale (entryClock e) (bs_rootTombstone s)")
  case True
  then show ?thesis
    using sp same_position_facts(2) [OF sp] by (simp add: apply_delete_dir_def same_position_def)
next
  case False
  then have False': "\<not> stale (entryClock e) (bs_rootTombstone s')"
    using same_position_facts(2) [OF sp] by simp
  note L = delete_dir_lookups [OF False] delete_dir_lookups [OF False']
  have tree: "same_tree (bs_snap s) (bs_snap s')" "bs_dirTombstones s = bs_dirTombstones s'"
    using sp by (auto simp: same_position_def)
  have "swept e s p = swept e s' p" for p
    using same_position_facts(1) [OF sp] by (simp add: swept_def)
  moreover have "swept_dir e s p = swept_dir e s' p \<or> fmlookup (os_dirs (bs_snap s')) p = None" for p
    using same_position_facts(3) [OF sp, of p] by (auto simp: swept_dir_def)
  then have "os_dirs (bs_snap (apply_delete_dir e s)) = os_dirs (bs_snap (apply_delete_dir e s'))"
    using tree(1) unfolding same_tree_def by (intro fmap_ext) (metis L(4,15))
  ultimately show ?thesis
    using tree unfolding same_tree_def by (auto intro!: fmap_ext simp: L)
qed

lemma op_apply_same:
  assumes sp: "same_position s s'"
  shows "same_position (op_apply e s) (op_apply e s')"
proof -
  have inv: "build_inv s" "build_inv s'" and tree: "same_tree (bs_snap s) (bs_snap s')"
    and T: "bs_dirTombstones s = bs_dirTombstones s'"
    using sp by (auto simp: same_position_def)
  note F = same_position_facts(1,2) [OF sp]
  have "same_tree (bs_snap (op_apply e s)) (bs_snap (op_apply e s')) \<and>
     bs_dirTombstones (op_apply e s) = bs_dirTombstones (op_apply e s')"
    using delete_dir_same [OF sp, of e] tree T F
    by (simp add: op_apply_def apply_put_def put_blocked_def apply_delete_def apply_create_dir_alt inv
        create_blocked_def apply_delete_root_def same_tree_def Let_def
        split: OpType.split cong: option.case_cong)
  then show ?thesis
    using inv by (simp add: same_position_def op_apply_inv)
qed

lemma replay_same: "same_position s s' \<Longrightarrow> same_position (replay es s) (replay es s')"
  by (induction es arbitrary: s s') (simp_all add: op_apply_same)


text \<open>
  A replay that stops, keeps only the snapshot and starts again from it is in the same position,
  provided that the snapshot still names every directory tombstone. \<open>create_dir\<close> over a deleted
  directory is what breaks this: it drops the tombstone from the snapshot but not from the table.
\<close>

definition tombstones_kept :: "BuildState \<Rightarrow> bool" where
  "tombstones_kept s \<longleftrightarrow> bs_dirTombstones s = dirTombstones_of (bs_snap s)"

lemma restart_same:
  assumes "build_inv s" "tombstones_kept s" "same_tree (bs_snap s) b"
  shows "same_position s (start_ops now (Some b))"
proof -
  have "ops_inv (bs_snap s)" using assms(1) by (rule build_inv_snapshot)
  then have "ops_inv b"
    using assms(3) unfolding same_tree_def ops_inv_def inv_defs clock_at_def clocks_of_def
      dirTombstones_of_def dirClocks_of_def start_ops_lookups
    by (simp cong: option.case_cong)
  with assms show ?thesis
    by (simp add: same_position_def same_tree_def start_inv_iff tombstones_kept_def dirTombstones_of_def)
qed

definition recreated :: "OpEntry list \<Rightarrow> string list" where
  "recreated es = filter (\<lambda>p. p \<in> set (map oe_Path (filter (\<lambda>e. oe_Type e = OpDeleteDir) es)))
     (map oe_Path (filter (\<lambda>e. oe_Type e = OpCreateDir) es))"

lemma op_apply_kept:
  assumes "tombstones_kept s"
    "oe_Type e = OpCreateDir \<Longrightarrow> fmlookup (os_deletedDirs (bs_snap s)) (oe_Path e) = None"
  shows "tombstones_kept (op_apply e s)"
proof (cases "oe_Type e = OpDeleteDir")
  case True
  show ?thesis
  proof (cases "stale (entryClock e) (bs_rootTombstone s)")
    case False
    note L = delete_dir_lookups [OF this]
    show ?thesis
      using assms True
      by (auto simp: tombstones_kept_def op_apply_def L dirTombstones_of_def intro!: fmap_ext)
  qed (use assms True in \<open>simp add: op_apply_def apply_delete_dir_def\<close>)
next
  case False
  then show ?thesis
    using assms
    by (auto simp: tombstones_kept_def op_apply_def apply_put_def apply_delete_def apply_create_dir_def
        apply_delete_root_def dirTombstones_of_def Let_def intro!: fmap_ext split: OpType.split)
qed

lemma deletedDirs_op_apply:
  "fmdom' (os_deletedDirs (bs_snap (op_apply e s))) \<subseteq>
     fmdom' (os_deletedDirs (bs_snap s)) \<union> (if oe_Type e = OpDeleteDir then {oe_Path e} else {})"
proof (cases "oe_Type e = OpDeleteDir \<and> \<not> stale (entryClock e) (bs_rootTombstone s)")
  case True
  then show ?thesis
    by (auto simp: op_apply_def delete_dir_lookups)
next
  case False
  then show ?thesis
    by (auto simp: op_apply_def apply_put_def apply_delete_def apply_create_dir_def apply_delete_root_def
        apply_delete_dir_def Let_def split: OpType.split)
qed

lemma replay_kept:
  assumes "tombstones_kept s" "fmdom' (os_deletedDirs (bs_snap s)) \<subseteq> D"
    "\<And>e. e \<in> set es \<Longrightarrow> oe_Type e = OpDeleteDir \<Longrightarrow> oe_Path e \<in> D"
    "\<And>e. e \<in> set es \<Longrightarrow> oe_Type e = OpCreateDir \<Longrightarrow> oe_Path e \<notin> D"
  shows "tombstones_kept (replay es s)"
  using assms
proof (induction es arbitrary: s)
  case (Cons e es)
  have "fmlookup (os_deletedDirs (bs_snap s)) (oe_Path e) = None" if "oe_Type e = OpCreateDir"
    using Cons.prems(2) Cons.prems(4) [of e] that by (auto simp: fmlookup_dom'_iff)
  then have "tombstones_kept (op_apply e s)"
    using Cons.prems(1) by (rule op_apply_kept [rotated])
  moreover have "fmdom' (os_deletedDirs (bs_snap (op_apply e s))) \<subseteq> D"
    using deletedDirs_op_apply [of e s] Cons.prems(2,3) by (auto split: if_splits)
  ultimately show ?case
    using Cons by simp
qed simp

lemma replay_none_kept:
  assumes "recreated es = []"
  shows "tombstones_kept (replay es (start_ops now None))"
proof (rule replay_kept [where D = "{oe_Path e |e. e \<in> set es \<and> oe_Type e = OpDeleteDir}"])
  show "oe_Path e \<notin> {oe_Path e |e. e \<in> set es \<and> oe_Type e = OpDeleteDir}"
    if "e \<in> set es" "oe_Type e = OpCreateDir" for e
    using that assms by (auto simp: recreated_def filter_empty_conv)
qed (auto simp: start_ops_def empty_ops_def tombstones_kept_def dirTombstones_of_def)

lemma replay_restart:
  assumes "recreated xs = []"
  shows "same_position (replay (xs @ ys) (start_ops now None))
    (replay ys (start_ops now' (Some (ops_buildSnapshot m None xs))))"
proof -
  have "same_position (replay xs (start_ops now None)) (start_ops now' (Some (ops_buildSnapshot m None xs)))"
    if "same_position (replay xs (start_ops now None)) (replay xs (start_ops m None))"
    using that assms
    by (intro restart_same) (auto simp: replay_none_kept same_position_def same_tree_def ops_buildSnapshot_def)
  moreover have "same_position (start_ops now None) (start_ops m None)"
    using start_inv [of None now] start_inv [of None m]
    by (simp add: same_position_def same_tree_def start_ops_def empty_ops_def)
  ultimately show ?thesis
    by (simp add: replay_same)
qed

section \<open>Properties of the replay\<close>

text \<open>Example entries, shared by the witnesses below.\<close>

definition example_put :: OpEntry where
  "example_put = \<lparr>oe_Type = OpPut, oe_Path = ''d/f'', oe_Chunks = Some [''c1''], oe_Size = 1,
     oe_Checksum = ''x'', oe_PrevChecksum = [], oe_LinkTarget = [], oe_Namespace = [],
     oe_Device = ''A'', oe_Timestamp = 5, oe_Seq = 1, oe_Client = []\<rparr>"

definition example_delete_dir :: OpEntry where
  "example_delete_dir = example_put\<lparr>oe_Type := OpDeleteDir, oe_Path := ''d'', oe_Timestamp := 10,
     oe_Chunks := None, oe_Size := 0, oe_Checksum := []\<rparr>"

definition example_create_dir :: OpEntry where
  "example_create_dir = example_delete_dir\<lparr>oe_Type := OpCreateDir, oe_Timestamp := 20\<rparr>"

text \<open>
  C20. Tombstones hide what they cover. Replaying any entries over a snapshot built by the log gives
  a snapshot in which no path is both a file and deleted, every file and directory is later than the
  root tombstone, and none is older than the tombstone of a directory above it, or, for a directory,
  its own.
\<close>
theorem ops_tombstones_hide:
  assumes "\<And>b. base = Some b \<Longrightarrow> ops_inv b" and "snap = ops_buildSnapshot now base entries"
  shows "(\<forall>p fi. os_Lookup snap p = Some fi \<longrightarrow>
        fmlookup (DeletedFiles snap) p = None \<and>
        (\<forall>r. os_deletedRoot snap = Some r \<longrightarrow> beats (fileClock fi) (opTombstoneClock r)) \<and>
        (\<forall>d t. under d p \<longrightarrow> fmlookup (os_deletedDirs snap) d = Some t \<longrightarrow>
           \<not> beats (opTombstoneClock t) (fileClock fi))) \<and>
     (\<forall>p di. fmlookup (os_dirs snap) p = Some di \<longrightarrow>
        (\<forall>r. os_deletedRoot snap = Some r \<longrightarrow> beats (dirClock di) (opTombstoneClock r)) \<and>
        (\<forall>d t. d = p \<or> under d p \<longrightarrow> fmlookup (os_deletedDirs snap) d = Some t \<longrightarrow>
           \<not> beats (opTombstoneClock t) (dirClock di)))"
proof -
  have "ops_inv snap"
    using assms by (simp add: ops_build_inv)
  then show ?thesis
    unfolding ops_inv_def build_inv_def files_ok_def dirs_ok_def visible_def start_ops_lookups os_Lookup_def DeletedFiles_def
    by auto
qed

theorem ops_tombstones_hide_witness:
  "let base = ops_buildSnapshot 0 None [example_delete_dir];
       snap = ops_buildSnapshot 0 (Some base) [example_put\<lparr>oe_Timestamp := 12\<rparr>]
   in os_Lookup snap ''d/f'' = Some (file_of_entry (example_put\<lparr>oe_Timestamp := 12\<rparr>)) \<and>
      \<not> beats (opTombstoneClock (tombstoneInfoFromEntry example_delete_dir))
        (fileClock (file_of_entry (example_put\<lparr>oe_Timestamp := 12\<rparr>)))"
proof -
  define base where "base = ops_buildSnapshot 0 None [example_delete_dir]"
  define late where "late = example_put\<lparr>oe_Timestamp := 12\<rparr>"
  have inv: "ops_inv b" if "Some base = Some b" for b
    using that ops_build_inv [of None 0 "[example_delete_dir]"] by (simp add: base_def)
  have hit: "os_Lookup (ops_buildSnapshot 0 (Some base) [late]) ''d/f'' = Some (file_of_entry late)"
    unfolding base_def late_def by code_simp
  have tomb: "fmlookup (os_deletedDirs (ops_buildSnapshot 0 (Some base) [late])) ''d'' =
      Some (tombstoneInfoFromEntry example_delete_dir)"
    unfolding base_def late_def by code_simp
  have "under ''d'' ''d/f''" by code_simp
  with ops_tombstones_hide [of "Some base" _ 0 "[late]", OF inv refl] hit tomb show ?thesis
    unfolding Let_def base_def [symmetric] late_def [symmetric] by blast
qed

text \<open>
  C21. Incremental replay: the cached snapshot that the local log carries forward is the snapshot a
  replay of the whole log would build, provided that the entries already replayed do not re-create a
  directory they delete.
\<close>
theorem ops_incremental_replay:
  assumes "recreated xs = []"
  shows "same_tree (ops_buildSnapshot now (Some (ops_buildSnapshot m None xs)) ys)
    (ops_buildSnapshot k None (xs @ ys))"
  using replay_restart [OF assms, of ys k now m]
  by (simp add: ops_buildSnapshot_def same_position_def same_tree_def)

theorem ops_incremental_replay_witness:
  "same_tree (ops_buildSnapshot 3 (Some (ops_buildSnapshot 1 None [example_put])) [example_delete_dir])
    (ops_buildSnapshot 2 None ([example_put] @ [example_delete_dir]))"
  by (rule ops_incremental_replay) code_simp

text \<open>
  The proviso is needed. After a directory is deleted and created again, a late entry that is
  older than the deletion brings its file back when it is applied to the cached snapshot, and does
  not when the same log is replayed from the file.
\<close>
lemma recreated_dir_resurrects_file:
  "os_Lookup (ops_buildSnapshot 0 None [example_delete_dir, example_create_dir, example_put]) ''d/f'' = None \<and>
   os_Lookup (ops_buildSnapshot 0 (Some (ops_buildSnapshot 0 None [example_delete_dir, example_create_dir]))
     [example_put]) ''d/f'' = Some (file_of_entry example_put)"
  by code_simp

end
