(* ===== verification/Fs_Local.thy ===== *)
theory Fs_Local
  imports Fs_Opslog_Props
begin

text \<open>
  The local file log of \<open>pkg/fs/opslog/local.go\<close>: \<open>LocalOpsLog\<close>, a JSONL file of entries with a
  cached snapshot, the device's sequence counter and the time of the last remote operation. The
  outcome of each file operation is an argument, and an operation returns the new state with its
  error, as in the key-value log.
\<close>

section \<open>The wire form of an entry\<close>

fun optype_to_string :: "OpType \<Rightarrow> string" where
  "optype_to_string OpPut = ''put''"
| "optype_to_string OpDelete = ''delete''"
| "optype_to_string OpDeleteDir = ''delete_dir''"
| "optype_to_string OpDeleteRoot = ''delete_root''"
| "optype_to_string OpCreateDir = ''create_dir''"
| "optype_to_string OpSymlink = ''symlink''"
| "optype_to_string (OpOther s) = s"

definition optype_of_string :: "string \<Rightarrow> OpType" where
  "optype_of_string s =
     (if s = ''put'' then OpPut else if s = ''delete'' then OpDelete
      else if s = ''delete_dir'' then OpDeleteDir else if s = ''delete_root'' then OpDeleteRoot
      else if s = ''create_dir'' then OpCreateDir else if s = ''symlink'' then OpSymlink
      else OpOther s)"

definition omit_strings :: "string \<Rightarrow> string list option \<Rightarrow> (string \<times> json) list" where
  "omit_strings f xs = (if xs = None \<or> xs = Some [] then [] else [(f, enc_strings xs)])"

lemma jget_omit_strings [simp]:
  "jget (omit_strings g xs) f = (if g = f then if xs = None \<or> xs = Some [] then None else Some (enc_strings xs) else None)"
  by (simp add: omit_strings_def)

definition op_to_json :: "OpEntry \<Rightarrow> json" where
  "op_to_json e = JObj (
     [(''op'', jstr (optype_to_string (oe_Type e))), (''path'', jstr (oe_Path e))]
     @ omit_strings ''chunks'' (oe_Chunks e)
     @ omit_int ''size'' (oe_Size e)
     @ omit_string ''checksum'' (oe_Checksum e)
     @ omit_string ''prev_checksum'' (oe_PrevChecksum e)
     @ omit_string ''link_target'' (oe_LinkTarget e)
     @ omit_string ''namespace'' (oe_Namespace e)
     @ [(''device'', jstr (oe_Device e)), (''timestamp'', JInt (oe_Timestamp e)), (''seq'', JInt (oe_Seq e))]
     @ omit_string ''client'' (oe_Client e))"

definition op_of_fields :: "(string \<times> json) list \<Rightarrow> OpEntry option" where
  "op_of_fields obj = do {
     ty \<leftarrow> dec_string (jget obj ''op'');
     pth \<leftarrow> dec_string (jget obj ''path'');
     chunks \<leftarrow> dec_strings (jget obj ''chunks'');
     sz \<leftarrow> dec_int (jget obj ''size'');
     sum \<leftarrow> dec_string (jget obj ''checksum'');
     prev \<leftarrow> dec_string (jget obj ''prev_checksum'');
     link \<leftarrow> dec_string (jget obj ''link_target'');
     ns \<leftarrow> dec_string (jget obj ''namespace'');
     dev \<leftarrow> dec_string (jget obj ''device'');
     ts \<leftarrow> dec_int (jget obj ''timestamp'');
     sq \<leftarrow> dec_int (jget obj ''seq'');
     client \<leftarrow> dec_string (jget obj ''client'');
     Some \<lparr>oe_Type = optype_of_string ty, oe_Path = pth, oe_Chunks = chunks, oe_Size = sz,
       oe_Checksum = sum, oe_PrevChecksum = prev, oe_LinkTarget = link, oe_Namespace = ns,
       oe_Device = dev, oe_Timestamp = ts, oe_Seq = sq, oe_Client = client\<rparr> }"

fun op_of_json :: "json \<Rightarrow> OpEntry option" where
  "op_of_json (JObj obj) = op_of_fields obj"
| "op_of_json JNull = op_of_fields []"
| "op_of_json _ = None"

text \<open>
  What the wire form can carry. An empty, non-nil chunk list is written like a nil one and comes back
  as nil.
\<close>

definition op_ok :: "OpEntry \<Rightarrow> bool" where
  "op_ok e \<longleftrightarrow> int64_ok (oe_Timestamp e) \<and> int64_ok (oe_Seq e) \<and> int64_ok (oe_Size e) \<and>
     oe_Chunks e \<noteq> Some [] \<and> strings_utf8 (oe_Chunks e) \<and>
     optype_of_string (optype_to_string (oe_Type e)) = oe_Type e \<and>
     list_all utf8_valid [optype_to_string (oe_Type e), oe_Path e, oe_Checksum e, oe_PrevChecksum e,
       oe_LinkTarget e, oe_Namespace e, oe_Device e, oe_Client e]"

lemma op_json_rt: "op_ok e \<Longrightarrow> op_of_json (op_to_json e) = Some e"
  by (auto simp: op_to_json_def op_of_fields_def op_ok_def)

section \<open>The log\<close>

record LocalOpsLog =
  ol_deviceID :: string
  ol_cache :: "OpSnapshot option"
  ol_lastRemote :: int
  ol_seq :: int
  ol_file :: "line list option"

definition NewLocalOpsLog :: "line list option \<Rightarrow> string \<Rightarrow> LocalOpsLog" where
  "NewLocalOpsLog file_lines deviceID =
     \<lparr>ol_deviceID = deviceID, ol_cache = None, ol_lastRemote = 0, ol_seq = 0, ol_file = file_lines\<rparr>"

definition ops_appendToFile :: "log_error option \<Rightarrow> OpEntry \<Rightarrow> LocalOpsLog \<Rightarrow> LocalOpsLog \<times> log_error option" where
  "ops_appendToFile io entry l = (case io of
      Some err \<Rightarrow> (l, Some err)
    | None \<Rightarrow> (l\<lparr>ol_file := Some ((case ol_file l of None \<Rightarrow> [] | Some ls \<Rightarrow> ls)
               @ [JsonLine (op_to_json entry)])\<rparr>, None))"

fun decode_op_line :: "line \<Rightarrow> OpEntry list" where
  "decode_op_line EmptyLine = []"
| "decode_op_line CorruptLine = []"
| "decode_op_line (JsonLine j) = (case op_of_json j of None \<Rightarrow> [] | Some e \<Rightarrow> [e])"

definition ops_file_entries :: "line list option \<Rightarrow> OpEntry list" where
  "ops_file_entries f = (case f of None \<Rightarrow> [] | Some ls \<Rightarrow> concat (map decode_op_line ls))"

definition ops_readAllLocked :: "log_error option \<Rightarrow> LocalOpsLog \<Rightarrow> log_error + OpEntry list" where
  "ops_readAllLocked io l = (case ol_file l of
      None \<Rightarrow> Inr []
    | Some ls \<Rightarrow> (case io of Some err \<Rightarrow> Inl err | None \<Rightarrow> Inr (ops_file_entries (ol_file l))))"

text \<open>The loop of \<open>rebuildLocked\<close> over the entries: the latest remote time and the own sequence.\<close>

definition scan_remote :: "string \<Rightarrow> OpEntry list \<Rightarrow> int" where
  "scan_remote dev es = fold (\<lambda>e m. if oe_Device e \<noteq> dev \<and> oe_Timestamp e > m then oe_Timestamp e else m) es 0"

definition scan_seq :: "string \<Rightarrow> OpEntry list \<Rightarrow> int \<Rightarrow> int" where
  "scan_seq dev es sq = fold (\<lambda>e m. if oe_Device e = dev \<and> oe_Seq e > m then oe_Seq e else m) es sq"

definition ops_rebuildLocked ::
  "int \<Rightarrow> log_error option \<Rightarrow> LocalOpsLog \<Rightarrow> LocalOpsLog \<times> (log_error + OpSnapshot)" where
  "ops_rebuildLocked now io l = (case ops_readAllLocked io l of
      Inl err \<Rightarrow> (l, Inl err)
    | Inr entries \<Rightarrow>
        (let s = ops_buildSnapshot now None entries; m = scan_remote (ol_deviceID l) entries in
         (l\<lparr>ol_cache := Some s, ol_seq := scan_seq (ol_deviceID l) entries (ol_seq l),
            ol_lastRemote := (if m > ol_lastRemote l then m else ol_lastRemote l)\<rparr>, Inr s)))"

definition ops_Snapshot_of ::
  "int \<Rightarrow> log_error option \<Rightarrow> LocalOpsLog \<Rightarrow> LocalOpsLog \<times> (log_error + OpSnapshot)" where
  "ops_Snapshot_of now io l = (case ol_cache l of Some s \<Rightarrow> (l, Inr s) | None \<Rightarrow> ops_rebuildLocked now io l)"

definition ops_Lookup :: "int \<Rightarrow> log_error option \<Rightarrow> LocalOpsLog \<Rightarrow> string \<Rightarrow> LocalOpsLog \<times> FileInfo option" where
  "ops_Lookup now io l path = (case ops_Snapshot_of now io l of
      (l', Inl _) \<Rightarrow> (l', None)
    | (l', Inr s) \<Rightarrow> (l', os_Lookup s path))"

text \<open>The cache update at the end of both appends.\<close>

definition warm_cache :: "int \<Rightarrow> OpEntry \<Rightarrow> LocalOpsLog \<Rightarrow> LocalOpsLog" where
  "warm_cache now entry l = (case ol_cache l of
      None \<Rightarrow> l
    | Some c \<Rightarrow> l\<lparr>ol_cache := Some (ops_buildSnapshot now (Some c) [entry])\<rparr>)"

definition ops_Append :: "int \<Rightarrow> log_error option \<Rightarrow> OpEntry \<Rightarrow> LocalOpsLog \<Rightarrow> LocalOpsLog \<times> log_error option" where
  "ops_Append now io entry l = (case ops_appendToFile io entry l of
      (l1, Some err) \<Rightarrow> (l1, Some err)
    | (l1, None) \<Rightarrow>
        (let l2 = (if oe_Device entry \<noteq> ol_deviceID l1 \<and> oe_Timestamp entry > ol_lastRemote l1
                   then l1\<lparr>ol_lastRemote := oe_Timestamp entry\<rparr> else l1)
         in (warm_cache now entry l2, None)))"

definition ops_stamp :: "int \<Rightarrow> LocalOpsLog \<Rightarrow> OpEntry \<Rightarrow> OpEntry" where
  "ops_stamp now l entry = entry\<lparr>oe_Device := ol_deviceID l,
     oe_Timestamp := (if oe_Timestamp entry = 0 then now else oe_Timestamp entry),
     oe_Seq := ol_seq l\<rparr>"

definition ops_AppendLocal ::
  "int \<Rightarrow> log_error option \<Rightarrow> OpEntry \<Rightarrow> LocalOpsLog \<Rightarrow> LocalOpsLog \<times> log_error option" where
  "ops_AppendLocal now io entry l =
     (let l1 = l\<lparr>ol_seq := int64_wrap (ol_seq l + 1)\<rparr>; e = ops_stamp now l1 entry in
      case ops_appendToFile io e l1 of
        (l2, Some err) \<Rightarrow> (l2, Some err)
      | (l2, None) \<Rightarrow> (warm_cache now e l2, None))"

definition ops_InvalidateCache :: "LocalOpsLog \<Rightarrow> LocalOpsLog" where
  "ops_InvalidateCache l = l\<lparr>ol_cache := None\<rparr>"

section \<open>Compaction\<close>

text \<open>A put without content and without a link target: local tracking of a pending upload.\<close>

definition chunkless :: "FileInfo \<Rightarrow> bool" where
  "chunkless fi \<longleftrightarrow> (case fi_Chunks fi of None \<Rightarrow> True | Some cs \<Rightarrow> cs = []) \<and> fi_LinkTarget fi = []"

definition entry_of_file :: "string \<Rightarrow> FileInfo \<Rightarrow> OpEntry" where
  "entry_of_file path fi = \<lparr>oe_Type = (if fi_LinkTarget fi \<noteq> [] then OpSymlink else OpPut),
     oe_Path = path, oe_Chunks = fi_Chunks fi, oe_Size = fi_Size fi, oe_Checksum = fi_Checksum fi,
     oe_PrevChecksum = fi_PrevChecksum fi, oe_LinkTarget = fi_LinkTarget fi,
     oe_Namespace = fi_Namespace fi, oe_Device = fi_Device fi, oe_Timestamp = fi_Modified fi,
     oe_Seq = fi_Seq fi, oe_Client = []\<rparr>"

definition entry_of_dir :: "string \<Rightarrow> DirInfo \<Rightarrow> OpEntry" where
  "entry_of_dir path di = \<lparr>oe_Type = OpCreateDir, oe_Path = path, oe_Chunks = None, oe_Size = 0,
     oe_Checksum = [], oe_PrevChecksum = [], oe_LinkTarget = [], oe_Namespace = di_Namespace di,
     oe_Device = di_Device di, oe_Timestamp = di_Modified di, oe_Seq = di_Seq di, oe_Client = []\<rparr>"

definition entry_of_tombstone :: "OpType \<Rightarrow> string \<Rightarrow> OpTombstone \<Rightarrow> OpEntry" where
  "entry_of_tombstone ty path tomb = \<lparr>oe_Type = ty, oe_Path = path, oe_Chunks = None, oe_Size = 0,
     oe_Checksum = [], oe_PrevChecksum = ot_PrevChecksum tomb, oe_LinkTarget = [],
     oe_Namespace = ot_Namespace tomb, oe_Device = ot_Device tomb, oe_Timestamp = ot_Modified tomb,
     oe_Seq = ot_Seq tomb, oe_Client = []\<rparr>"

definition kept_files :: "OpSnapshot \<Rightarrow> (string, FileInfo) gomap" where
  "kept_files s = fm_filter (\<lambda>p fi. \<not> chunkless fi) (os_files s)"

definition compact_ops :: "OpSnapshot \<Rightarrow> OpEntry list" where
  "compact_ops s =
     map (\<lambda>(p, fi). entry_of_file p fi) (fm_items (kept_files s)) @
     map (\<lambda>(p, di). entry_of_dir p di) (fm_items (os_dirs s)) @
     map (\<lambda>(p, t). entry_of_tombstone OpDelete p t) (fm_items (os_deleted s)) @
     map (\<lambda>(p, t). entry_of_tombstone OpDeleteDir p t) (fm_items (os_deletedDirs s)) @
     map (entry_of_tombstone OpDeleteRoot []) (option_list (os_deletedRoot s))"

text \<open>\<open>io\<close> is the first failure of creating, writing or renaming the temporary file.\<close>

definition ops_Compact ::
  "int \<Rightarrow> log_error option \<Rightarrow> log_error option \<Rightarrow> LocalOpsLog \<Rightarrow> LocalOpsLog \<times> log_error option" where
  "ops_Compact now rd io l =
     (case (case ol_cache l of Some c \<Rightarrow> (l, Inr c) | None \<Rightarrow> ops_rebuildLocked now rd l) of
        (l0, Inl err) \<Rightarrow> (l0, Some err)
      | (l0, Inr c) \<Rightarrow>
          (case io of
             Some err \<Rightarrow> (l0, Some err)
           | None \<Rightarrow> (l0\<lparr>ol_file := Some (map (JsonLine \<circ> op_to_json) (compact_ops c)),
                        ol_cache := None\<rparr>, None)))"

end
