(* ===== verification/Fs_Compact.thy ===== *)
theory Fs_Compact
  imports Fs_Local
begin

text \<open>
  Compaction of the local file log. Replaying the entries that \<open>Compact\<close> writes rebuilds the snapshot
  it wrote them from, except for pending uploads, as long as the drive carries no root tombstone.
  With one, every file is lost: the \<open>delete_root\<close> line comes last and clears what was replayed before.
\<close>

section \<open>Replaying one entry per path\<close>

lemma fold_fmupd: "fold (\<lambda>(k, v). fmupd k v) xs fmempty = fmap_of_list (rev xs)"
proof (rule fmap_ext)
  have "fmlookup (fold (\<lambda>(k, v). fmupd k v) xs m) k = (fmlookup m ++ map_of (rev xs)) k" for k m
    by (induction xs arbitrary: m) (auto simp: map_add_def split: option.split)
  then show "fmlookup (fold (\<lambda>(k, v). fmupd k v) xs fmempty) k = fmlookup (fmap_of_list (rev xs)) k" for k
    by (simp add: fmap_of_list.rep_eq map_add_def split: option.split)
qed

lemma fold_fmupd_items [simp]: "fold (\<lambda>(k, v). fmupd k v) (fm_items m) fmempty = m"
  by (simp add: fold_fmupd fmap_of_list_rev_items)

lemma replay_items:
  assumes "\<And>p v m s. (p, v) \<in> set xs \<Longrightarrow> fmlookup m p = None \<Longrightarrow> P s m \<Longrightarrow> P (op_apply (g p v) s) (fmupd p v m)"
    and "P s m" "distinct (map fst xs)" "\<And>p. p \<in> set (map fst xs) \<Longrightarrow> fmlookup m p = None"
  shows "P (replay (map (\<lambda>(p, v). g p v) xs) s) (fold (\<lambda>(k, v). fmupd k v) xs m)"
  using assms
proof (induction xs arbitrary: s m)
  case (Cons x xs)
  obtain p v where x: "x = (p, v)" by (cases x)
  have "P (op_apply (g p v) s) (fmupd p v m)"
    using Cons.prems(2,4) by (intro Cons.prems(1)) (simp_all add: x)
  then have "P (replay (map (\<lambda>(p, v). g p v) xs) (op_apply (g p v) s)) (fold (\<lambda>(k, v). fmupd k v) xs (fmupd p v m))"
    using Cons.prems by (intro Cons.IH) (auto simp: x image_iff)
  then show ?case by (simp add: x)
qed simp

lemma replay_map:
  assumes "\<And>p v m s. fmlookup M p = Some v \<Longrightarrow> fmlookup m p = None \<Longrightarrow> P s m \<Longrightarrow> P (op_apply (g p v) s) (fmupd p v m)"
    and "P s fmempty"
  shows "P (replay (map (\<lambda>(p, v). g p v) (fm_items M)) s) M"
proof -
  have distinct: "distinct (map fst (fm_items M))"
    by (simp add: fm_items_eq range_items_def comp_def)
  have "P (replay (map (\<lambda>(p, v). g p v) (fm_items M)) s) (fold (\<lambda>(k, v). fmupd k v) (fm_items M) fmempty)"
  proof (rule replay_items [where P = P])
    show "P (op_apply (g p v) s) (fmupd p v m)"
      if "(p, v) \<in> set (fm_items M)" "fmlookup m p = None" "P s m" for p v m s
      using that by (intro assms(1)) simp_all
  qed (simp_all add: assms(2) distinct)
  then show ?thesis by simp
qed

section \<open>The phases of a compacted log\<close>

text \<open>The replay stands at a tree without root tombstone, with exactly its directory tombstones.\<close>

definition stands_at :: "BuildState \<Rightarrow> (string, FileInfo) gomap \<Rightarrow> (string, DirInfo) gomap
  \<Rightarrow> (string, OpTombstone) gomap \<Rightarrow> (string, OpTombstone) gomap \<Rightarrow> bool" where
  "stands_at s fs ds dels ddirs \<longleftrightarrow> build_inv s \<and> bs_rootTombstone s = None \<and>
     os_files (bs_snap s) = fs \<and> os_dirs (bs_snap s) = ds \<and> os_deleted (bs_snap s) = dels \<and>
     os_deletedDirs (bs_snap s) = ddirs \<and> os_deletedRoot (bs_snap s) = None \<and>
     bs_dirTombstones s = fmmap opTombstoneClock ddirs"

lemma entry_of_rt [simp]:
  "file_of_entry (entry_of_file p fi) = fi" "dir_of_entry (entry_of_dir p di) = di"
  "tombstoneInfoFromEntry (entry_of_tombstone ty p t) = t"
  "oe_Path (entry_of_file p fi) = p" "oe_Path (entry_of_dir p di) = p"
  "oe_Path (entry_of_tombstone ty p t) = p" "oe_Type (entry_of_tombstone ty p t) = ty"
  "entryClock (entry_of_file p fi) = fileClock fi" "entryClock (entry_of_dir p di) = dirClock di"
  "entryClock (entry_of_tombstone ty p t) = opTombstoneClock t"
  by (simp_all add: file_of_entry_def entry_of_file_def dir_of_entry_def entry_of_dir_def
      tombstoneInfoFromEntry_def entry_of_tombstone_def entryClock_def fileClock_def dirClock_def
      opTombstoneClock_def)

lemma not_covered_empty [simp]: "\<not> coveredByDirTombstone p ec fmempty"
  by (simp add: covered_iff)

lemma phase_file:
  assumes "stands_at s m fmempty fmempty fmempty" "fmlookup m p = None"
  shows "stands_at (op_apply (entry_of_file p fi) s) (fmupd p fi m) fmempty fmempty fmempty"
proof -
  have ck: "fmlookup (bs_clocks s) p = None"
    using assms by (simp add: stands_at_def inv_defs clock_at_def)
  have "op_apply (entry_of_file p fi) s = apply_put (entry_of_file p fi) s"
    by (simp add: op_apply_def entry_of_file_def)
  with assms ck op_apply_inv [of s "entry_of_file p fi"] show ?thesis
    by (simp add: stands_at_def apply_put_def put_blocked_def Let_def)
qed

lemma phase_dir:
  assumes "stands_at s fs m fmempty fmempty" "fmlookup m p = None"
  shows "stands_at (op_apply (entry_of_dir p di) s) fs (fmupd p di m) fmempty fmempty"
proof -
  have "op_apply (entry_of_dir p di) s = apply_create_dir (entry_of_dir p di) s"
    by (simp add: op_apply_def entry_of_dir_def)
  with assms op_apply_inv [of s "entry_of_dir p di"] show ?thesis
    by (simp add: stands_at_def apply_create_dir_alt create_blocked_def)
qed

lemma phase_delete:
  assumes "stands_at s fs ds m fmempty" "fmlookup m p = None" "fmlookup fs p = None"
  shows "stands_at (op_apply (entry_of_tombstone OpDelete p t) s) fs ds (fmupd p t m) fmempty"
proof -
  have ck: "fmlookup (bs_clocks s) p = None"
    using assms by (simp add: stands_at_def inv_defs clock_at_def)
  have "fmdrop p fs = fs"
    using assms(3) by (intro fmap_ext) auto
  with assms ck op_apply_inv [of s "entry_of_tombstone OpDelete p t"] show ?thesis
    by (auto simp: stands_at_def op_apply_def apply_delete_def Let_def)
qed

lemma phase_delete_dir:
  assumes at: "stands_at s fs ds dels m" "fmlookup m p = None"
    and files: "\<And>q fi. fmlookup fs q = Some fi \<Longrightarrow> under p q \<Longrightarrow> \<not> beats (opTombstoneClock t) (fileClock fi)"
    and dirs: "\<And>q di. fmlookup ds q = Some di \<Longrightarrow> q = p \<or> under p q \<Longrightarrow> \<not> beats (opTombstoneClock t) (dirClock di)"
  shows "stands_at (op_apply (entry_of_tombstone OpDeleteDir p t) s) fs ds dels (fmupd p t m)"
proof -
  let ?e = "entry_of_tombstone OpDeleteDir p t"
  have root: "\<not> stale (entryClock ?e) (bs_rootTombstone s)"
    using at by (simp add: stands_at_def)
  note L = delete_dir_lookups [OF root]
  have "fmlookup (bs_clocks s) q = Some (fileClock fi)" if "fmlookup fs q = Some fi" for q fi
    using that at by (simp add: stands_at_def inv_defs clock_at_def)
  then have swept: "fmlookup fs q = None" if "swept ?e s q" for q
    using that files by (cases "fmlookup fs q") (auto simp: swept_def)
  have "fmlookup (bs_dirClocks s) q = Some (dirClock di)" if "fmlookup ds q = Some di" for q di
    using that at by (simp add: stands_at_def build_inv_def dirs_ok_def)
  then have swept_dir: "fmlookup ds q = None" if "swept_dir ?e s q" for q
    using that dirs by (cases "fmlookup ds q") (auto simp: swept_dir_def)
  have op: "op_apply ?e s = apply_delete_dir ?e s"
    by (simp add: op_apply_def)
  have "os_files (bs_snap (apply_delete_dir ?e s)) = fs" "os_dirs (bs_snap (apply_delete_dir ?e s)) = ds"
    "os_deleted (bs_snap (apply_delete_dir ?e s)) = dels"
    using at swept swept_dir by (auto simp: L stands_at_def intro!: fmap_ext)
  with at op_apply_inv [of s ?e] show ?thesis
    by (auto simp: op stands_at_def L intro!: fmap_ext)
qed

definition stripped :: "OpSnapshot \<Rightarrow> OpSnapshot" where
  "stripped b = b\<lparr>os_files := kept_files b\<rparr>"

lemma replay_compact:
  assumes inv: "ops_inv b" and root: "os_deletedRoot b = None"
  shows "stands_at (replay (compact_ops b) (start_ops now None))
    (kept_files b) (os_dirs b) (os_deleted b) (os_deletedDirs b)"
proof -
  have files: "fmlookup (os_deleted b) q = None"
    "\<And>d t. under d q \<Longrightarrow> fmlookup (os_deletedDirs b) d = Some t \<Longrightarrow> \<not> beats (opTombstoneClock t) (fileClock fi)"
    if "fmlookup (kept_files b) q = Some fi" for q fi
    using that inv unfolding ops_inv_def build_inv_def files_ok_def visible_def
    by (auto simp: kept_files_def split: option.splits if_splits)
  have dirs: "\<not> beats (opTombstoneClock t) (dirClock di)"
    if "fmlookup (os_dirs b) q = Some di" "q = d \<or> under d q" "fmlookup (os_deletedDirs b) d = Some t" for q di d t
    using that inv unfolding ops_inv_def build_inv_def dirs_ok_def visible_def by fastforce
  have 0: "stands_at (start_ops now None) fmempty fmempty fmempty fmempty"
    using start_inv [of None now] by (simp add: stands_at_def start_ops_def empty_ops_def)
  have 1: "stands_at (replay (map (\<lambda>(p, fi). entry_of_file p fi) (fm_items (kept_files b))) (start_ops now None))
      (kept_files b) fmempty fmempty fmempty"
    using phase_file 0 by (intro replay_map [where P = "\<lambda>s m. stands_at s m fmempty fmempty fmempty"])
  have 2: "stands_at (replay (map (\<lambda>(p, di). entry_of_dir p di) (fm_items (os_dirs b))) s)
      (kept_files b) (os_dirs b) fmempty fmempty" if "stands_at s (kept_files b) fmempty fmempty fmempty" for s
    using phase_dir that by (intro replay_map [where P = "\<lambda>s m. stands_at s (kept_files b) m fmempty fmempty"])
  have 3: "stands_at (replay (map (\<lambda>(p, t). entry_of_tombstone OpDelete p t) (fm_items (os_deleted b))) s)
      (kept_files b) (os_dirs b) (os_deleted b) fmempty" if "stands_at s (kept_files b) (os_dirs b) fmempty fmempty" for s
    using that files(1)
    by (intro replay_map [where P = "\<lambda>s m. stands_at s (kept_files b) (os_dirs b) m fmempty"] phase_delete)
      (auto, metis not_None_eq)
  have 4: "stands_at (replay (map (\<lambda>(p, t). entry_of_tombstone OpDeleteDir p t) (fm_items (os_deletedDirs b))) s)
      (kept_files b) (os_dirs b) (os_deleted b) (os_deletedDirs b)"
    if "stands_at s (kept_files b) (os_dirs b) (os_deleted b) fmempty" for s
    using that files(2) dirs
    by (intro replay_map [where P = "\<lambda>s m. stands_at s (kept_files b) (os_dirs b) (os_deleted b) m"]
        phase_delete_dir) auto
  from 4 [OF 3 [OF 2 [OF 1]]] root show ?thesis by (simp add: compact_ops_def)
qed

section \<open>The log and its cache\<close>

text \<open>
  The operations of the log as a step relation. A caller appends entries the wire form can carry;
  every file operation may fail.
\<close>

inductive ops_step :: "LocalOpsLog \<Rightarrow> LocalOpsLog \<Rightarrow> bool" where
  step_append: "op_ok e \<Longrightarrow> ops_step l (fst (ops_Append now io e l))"
| step_local: "op_ok (ops_stamp now (l\<lparr>ol_seq := int64_wrap (ol_seq l + 1)\<rparr>) e) \<Longrightarrow>
    ops_step l (fst (ops_AppendLocal now io e l))"
| step_snapshot: "ops_step l (fst (ops_Snapshot_of now io l))"
| step_invalidate: "ops_step l (ops_InvalidateCache l)"
| step_compact: "ops_step l (fst (ops_Compact now rd io l))"

abbreviation log_entries :: "LocalOpsLog \<Rightarrow> OpEntry list" where
  "log_entries l \<equiv> ops_file_entries (ol_file l)"

definition ops_log_inv :: "LocalOpsLog \<Rightarrow> bool" where
  "ops_log_inv l \<longleftrightarrow> (\<forall>c. ol_cache l = Some c \<longrightarrow> ops_inv c \<and>
     (recreated (log_entries l) = [] \<longrightarrow> same_tree c (ops_buildSnapshot 0 None (log_entries l))))"

lemma same_tree_build: "same_tree (ops_buildSnapshot now None es) (ops_buildSnapshot m None es)"
  using replay_restart [of "[]" es now m 0] replay_restart [of "[]" es m m 0]
  by (simp add: recreated_def same_position_def same_tree_def ops_buildSnapshot_def)

lemma same_tree_sym: "same_tree a b \<Longrightarrow> same_tree b a"
  by (simp add: same_tree_def)

lemma recreated_append: "recreated (xs @ ys) = [] \<Longrightarrow> recreated xs = []"
  by (auto simp: recreated_def filter_empty_conv)

lemma same_tree_extend:
  assumes "recreated es = []" "same_tree c (ops_buildSnapshot 0 None es)"
  shows "same_tree (ops_buildSnapshot now (Some c) [e]) (ops_buildSnapshot 0 None (es @ [e]))"
proof -
  have "same_position (replay es (start_ops 0 None)) (start_ops now (Some c))"
    using assms(2)
    by (intro restart_same replay_none_kept assms(1) replay_inv start_inv)
      (simp_all add: same_tree_def ops_buildSnapshot_def)
  then have "same_position (op_apply e (replay es (start_ops 0 None))) (op_apply e (start_ops now (Some c)))"
    by (rule op_apply_same)
  then show ?thesis
    by (simp add: ops_buildSnapshot_def same_position_def same_tree_def)
qed

lemma ops_file_entries_append:
  "op_ok e \<Longrightarrow> ops_file_entries (Some ((case f of None \<Rightarrow> [] | Some ls \<Rightarrow> ls) @ [JsonLine (op_to_json e)])) =
     ops_file_entries f @ [e]"
  by (cases f) (simp_all add: ops_file_entries_def op_json_rt)

lemma append_warm_inv:
  assumes "ops_log_inv l" "op_ok e" "ol_cache l' = ol_cache l"
    "ol_file l' = Some ((case ol_file l of None \<Rightarrow> [] | Some ls \<Rightarrow> ls) @ [JsonLine (op_to_json e)])"
  shows "ops_log_inv (warm_cache now e l')"
proof (cases "ol_cache l")
  case None
  then show ?thesis using assms by (simp add: ops_log_inv_def warm_cache_def)
next
  case (Some c)
  have es: "ops_file_entries (ol_file l') = log_entries l @ [e]"
    using assms by (simp add: ops_file_entries_append)
  have "ops_inv (ops_buildSnapshot now (Some c) [e])"
    using assms(1) Some by (auto simp: ops_log_inv_def intro: ops_build_inv)
  moreover have "same_tree (ops_buildSnapshot now (Some c) [e]) (ops_buildSnapshot 0 None (log_entries l @ [e]))"
    if "recreated (log_entries l @ [e]) = []"
    using recreated_append [OF that] assms(1) Some by (auto simp: ops_log_inv_def intro: same_tree_extend)
  ultimately show ?thesis
    using Some assms(3) es by (simp add: ops_log_inv_def warm_cache_def)
qed

lemma rebuild_inv:
  assumes "ops_log_inv l"
  shows "ops_log_inv (fst (ops_rebuildLocked now io l))"
proof (cases "ops_readAllLocked io l")
  case (Inr es)
  then have "es = log_entries l"
    by (auto simp: ops_readAllLocked_def ops_file_entries_def split: option.splits)
  then show ?thesis
    using Inr ops_build_inv [of None now es] same_tree_build [of now es 0]
    by (simp add: ops_rebuildLocked_def ops_log_inv_def Let_def)
qed (use assms in \<open>simp add: ops_rebuildLocked_def\<close>)

lemma ops_step_inv:
  assumes "ops_step l l'" "ops_log_inv l"
  shows "ops_log_inv l'"
  using assms
proof (induction rule: ops_step.induct)
  case (step_append e l now io)
  then show ?case
    by (cases io) (auto simp: ops_Append_def ops_appendToFile_def Let_def intro!: append_warm_inv [of l])
next
  case (step_local now l e io)
  then have "ops_log_inv (l\<lparr>ol_seq := int64_wrap (ol_seq l + 1)\<rparr>)"
    by (simp add: ops_log_inv_def)
  with step_local show ?case
    by (cases io) (auto simp: ops_AppendLocal_def ops_appendToFile_def Let_def intro!: append_warm_inv [of l])
next
  case (step_snapshot l now io)
  then show ?case by (simp add: ops_Snapshot_of_def rebuild_inv split: option.split)
next
  case (step_invalidate l)
  then show ?case by (simp add: ops_InvalidateCache_def ops_log_inv_def)
next
  case (step_compact l now rd io)
  then have "ops_log_inv (fst (ops_rebuildLocked now rd l))" by (rule rebuild_inv)
  with step_compact show ?case
    by (auto simp: ops_Compact_def ops_log_inv_def split: option.split prod.split sum.split)
qed

lemma reachable_log_inv: "ops_step\<^sup>*\<^sup>* l l' \<Longrightarrow> ops_log_inv l \<Longrightarrow> ops_log_inv l'"
  by (induction rule: rtranclp_induct) (simp_all add: ops_step_inv)

lemma new_log_inv: "ops_log_inv (NewLocalOpsLog f dev)"
  by (simp add: ops_log_inv_def NewLocalOpsLog_def)

lemma compacted_file:
  assumes "list_all op_ok (compact_ops c)"
  shows "ops_file_entries (Some (map (JsonLine \<circ> op_to_json) (compact_ops c))) = compact_ops c"
proof -
  have "concat (map (decode_op_line \<circ> (JsonLine \<circ> op_to_json)) es) = es" if "list_all op_ok es" for es
    using that by (induction es) (simp_all add: op_json_rt)
  with assms show ?thesis by (simp add: ops_file_entries_def)
qed


definition example_log :: LocalOpsLog where
  "example_log = fst (ops_Append 9 None example_delete_dir
     (fst (ops_Snapshot_of 8 None (fst (ops_AppendLocal 7 None example_put (NewLocalOpsLog None ''A''))))))"

lemma example_log_reachable: "ops_step\<^sup>*\<^sup>* (NewLocalOpsLog None ''A'') example_log"
proof -
  let ?l0 = "NewLocalOpsLog None ''A''"
  let ?l1 = "fst (ops_AppendLocal 7 None example_put ?l0)"
  let ?l2 = "fst (ops_Snapshot_of 8 None ?l1)"
  have "op_ok (ops_stamp 7 (?l0\<lparr>ol_seq := int64_wrap (ol_seq ?l0 + 1)\<rparr>) example_put)" "op_ok example_delete_dir"
    by code_simp+
  then have "ops_step ?l0 ?l1" "ops_step ?l1 ?l2" "ops_step ?l2 example_log"
    unfolding example_log_def by (blast intro: ops_step.intros)+
  then show ?thesis by (meson converse_rtranclp_into_rtranclp rtranclp.rtrancl_refl)
qed


text \<open>
  C23. Compaction of the local file log keeps the tree: if the drive has no root tombstone, reading
  the log after a successful compaction gives the same directories and tombstones and the same files,
  less the puts without content. (The entries it writes must fit the wire form.)
\<close>
theorem ops_Compact_keeps_tree:
  assumes "ops_step\<^sup>*\<^sup>* (NewLocalOpsLog f dev) l" and "ol_cache l = Some c"
    and "os_deletedRoot c = None" and "list_all op_ok (compact_ops c)"
  shows "\<exists>l' l'' s. ops_Compact now None None l = (l', None) \<and>
    ops_Snapshot_of now' None l' = (l'', Inr s) \<and> same_tree s (stripped c)"
proof -
  have "ops_inv c"
    using reachable_log_inv [OF assms(1) new_log_inv] assms(2) by (simp add: ops_log_inv_def)
  then have "same_tree (ops_buildSnapshot now' None (compact_ops c)) (stripped c)"
    using replay_compact [of c now'] assms(3)
    by (simp add: stands_at_def same_tree_def stripped_def ops_buildSnapshot_def)
  then show ?thesis
    using assms(2) compacted_file [OF assms(4)]
    by (simp add: ops_Compact_def ops_Snapshot_of_def ops_rebuildLocked_def ops_readAllLocked_def Let_def)
qed

theorem ops_Compact_keeps_tree_witness:
  "\<exists>l' l'' s. ops_Compact 5 None None example_log = (l', None) \<and>
    ops_Snapshot_of 6 None l' = (l'', Inr s) \<and> same_tree s (stripped (the (ol_cache example_log)))"
proof (rule ops_Compact_keeps_tree [OF example_log_reachable])
  show "ol_cache example_log = Some (the (ol_cache example_log))" by code_simp
  show "os_deletedRoot (the (ol_cache example_log)) = None" by code_simp
  show "list_all op_ok (compact_ops (the (ol_cache example_log)))" by code_simp
qed

text \<open>
  With a root tombstone compaction loses every file: \<open>Compact\<close> writes the \<open>delete_root\<close> line last,
  and its replay clears what came before it without comparing clocks. Here a file is put after the
  drive was cleared; it is in the log before compaction and gone after it.
\<close>
lemma ops_Compact_loses_files_after_root_delete:
  "let root = example_delete_dir\<lparr>oe_Type := OpDeleteRoot, oe_Path := [], oe_Timestamp := 3\<rparr>;
       l = fst (ops_Append 0 None example_put (fst (ops_Append 0 None root (NewLocalOpsLog None ''A''))));
       l' = fst (ops_Compact 0 None None l)
   in snd (ops_Lookup 0 None l ''d/f'') = Some (file_of_entry example_put) \<and>
      snd (ops_Compact 0 None None l) = None \<and>
      snd (ops_Lookup 0 None l' ''d/f'') = None"
  by code_simp

text \<open>
  Reverting a file is ignored. After a file goes from content \<open>x\<close> to \<open>y\<close>, a later put of \<open>x\<close>
  that descends from \<open>y\<close> is taken for the ancestor of the current version, because the test
  \<open>fileDescendsEntry\<close> comes first, and the snapshot keeps \<open>y\<close>.
\<close>
lemma revert_is_ignored:
  "let v1 = example_put;
       v2 = example_put\<lparr>oe_Checksum := ''y'', oe_PrevChecksum := ''x'', oe_Timestamp := 6, oe_Seq := 2\<rparr>;
       v3 = example_put\<lparr>oe_Checksum := ''x'', oe_PrevChecksum := ''y'', oe_Timestamp := 7, oe_Seq := 3\<rparr>
   in os_Lookup (ops_buildSnapshot 0 None [v1, v2, v3]) ''d/f'' = Some (file_of_entry v2)"
  by code_simp

text \<open>
  \<open>AppendLocal\<close> on a log that has not been read since it was opened numbers its entry from 1
  again, because it does not rebuild first. In the same second as the previous session's writes the
  new write then loses to an older one: it is in the file and not in the snapshot.
\<close>
lemma ops_AppendLocal_cold_reuses_seq:
  "let put = (\<lambda>c. example_put\<lparr>oe_Checksum := c\<rparr>);
       l = fst (ops_AppendLocal 5 None (put ''v2'') (fst (ops_AppendLocal 5 None (put ''v1'') (NewLocalOpsLog None ''A''))));
       l' = fst (ops_AppendLocal 5 None (put ''v3'') (NewLocalOpsLog (ol_file l) ''A''))
   in map oe_Seq (ops_file_entries (ol_file l')) = [1, 2, 1] \<and>
      map_option fi_Checksum (snd (ops_Lookup 5 None l' ''d/f'')) = Some ''v2''"
  by code_simp

end
