(* ===== verification/Fs_Wire.thy ===== *)
theory Fs_Wire
  imports Fs_Local
begin

text \<open>
  The JSON forms of a file snapshot. \<open>pkg/fs/opslog/snapshot_json.go\<close> has two of them:
  \<open>MarshalSnapshot\<close>, without the tombstones of paths, and \<open>MarshalPeerSnapshot\<close>, with all of them; the
  manifest that \<open>saveSnapshot\<close> of \<open>opslog.go\<close> stores has the fields of the second and leaves out every
  put without content. \<open>time.Time\<close> refuses to marshal outside the years 0 to 9999, the only way to
  fail.
\<close>

section \<open>Encoding\<close>

definition fileInfo_to_json :: "FileInfo \<Rightarrow> json" where
  "fileInfo_to_json fi = JObj (
     [(''chunks'', enc_strings (fi_Chunks fi)), (''size'', JInt (fi_Size fi)),
      (''modified'', JTime (fi_Modified fi)), (''checksum'', jstr (fi_Checksum fi))]
     @ omit_string ''prev_checksum'' (fi_PrevChecksum fi)
     @ [(''namespace'', jstr (fi_Namespace fi))]
     @ omit_string ''device'' (fi_Device fi) @ omit_int ''seq'' (fi_Seq fi)
     @ omit_string ''link_target'' (fi_LinkTarget fi))"

definition dirInfo_to_json :: "DirInfo \<Rightarrow> json" where
  "dirInfo_to_json di = JObj (
     omit_string ''namespace'' (di_Namespace di) @ omit_string ''device'' (di_Device di)
     @ omit_int ''seq'' (di_Seq di) @ [(''modified'', JTime (di_Modified di))])"

definition opTombstone_to_json :: "OpTombstone \<Rightarrow> json" where
  "opTombstone_to_json t = JObj (
     omit_string ''namespace'' (ot_Namespace t) @ omit_string ''device'' (ot_Device t)
     @ omit_int ''seq'' (ot_Seq t) @ [(''modified'', JTime (ot_Modified t))]
     @ omit_string ''prev_checksum'' (ot_PrevChecksum t))"

definition fileInfo_of_fields :: "(string \<times> json) list \<Rightarrow> FileInfo option" where
  "fileInfo_of_fields obj = do {
     chunks \<leftarrow> dec_strings (jget obj ''chunks'');
     sz \<leftarrow> dec_int (jget obj ''size'');
     md \<leftarrow> dec_time (jget obj ''modified'');
     sum \<leftarrow> dec_string (jget obj ''checksum'');
     prev \<leftarrow> dec_string (jget obj ''prev_checksum'');
     ns \<leftarrow> dec_string (jget obj ''namespace'');
     dev \<leftarrow> dec_string (jget obj ''device'');
     sq \<leftarrow> dec_int (jget obj ''seq'');
     link \<leftarrow> dec_string (jget obj ''link_target'');
     Some \<lparr>fi_Chunks = chunks, fi_Size = sz, fi_Modified = md, fi_Checksum = sum,
       fi_PrevChecksum = prev, fi_Namespace = ns, fi_Device = dev, fi_Seq = sq, fi_LinkTarget = link\<rparr> }"

definition dirInfo_of_fields :: "(string \<times> json) list \<Rightarrow> DirInfo option" where
  "dirInfo_of_fields obj = do {
     ns \<leftarrow> dec_string (jget obj ''namespace'');
     dev \<leftarrow> dec_string (jget obj ''device'');
     sq \<leftarrow> dec_int (jget obj ''seq'');
     md \<leftarrow> dec_time (jget obj ''modified'');
     Some \<lparr>di_Namespace = ns, di_Device = dev, di_Seq = sq, di_Modified = md\<rparr> }"

definition opTombstone_of_fields :: "(string \<times> json) list \<Rightarrow> OpTombstone option" where
  "opTombstone_of_fields obj = do {
     ns \<leftarrow> dec_string (jget obj ''namespace'');
     dev \<leftarrow> dec_string (jget obj ''device'');
     sq \<leftarrow> dec_int (jget obj ''seq'');
     md \<leftarrow> dec_time (jget obj ''modified'');
     prev \<leftarrow> dec_string (jget obj ''prev_checksum'');
     Some \<lparr>ot_Namespace = ns, ot_Device = dev, ot_Seq = sq, ot_Modified = md, ot_PrevChecksum = prev\<rparr> }"

text \<open>A struct is decoded from an object; \<open>null\<close> leaves the zero value.\<close>

fun dec_struct :: "((string \<times> json) list \<Rightarrow> 'v option) \<Rightarrow> json \<Rightarrow> 'v option" where
  "dec_struct f (JObj obj) = f obj"
| "dec_struct f JNull = f []"
| "dec_struct f _ = None"

text \<open>Marshalling the times of a snapshot.\<close>

definition snap_times_ok :: "int \<Rightarrow> OpSnapshot \<Rightarrow> bool" where
  "snap_times_ok now s \<longleftrightarrow> time_json_ok now \<and> time_json_ok (os_created s) \<and>
     list_all (\<lambda>(p, fi). time_json_ok (fi_Modified fi)) (fm_items (os_files s)) \<and>
     list_all (\<lambda>(p, di). time_json_ok (di_Modified di)) (fm_items (os_dirs s)) \<and>
     list_all (\<lambda>(p, t). time_json_ok (ot_Modified t)) (fm_items (os_deleted s)) \<and>
     list_all (\<lambda>(p, t). time_json_ok (ot_Modified t)) (fm_items (os_deletedDirs s)) \<and>
     list_all (\<lambda>t. time_json_ok (ot_Modified t)) (option_list (os_deletedRoot s))"

text \<open>An upload that is still pending: no chunks, no link target and a positive size.\<close>

definition pending_upload :: "FileInfo \<Rightarrow> bool" where
  "pending_upload fi \<longleftrightarrow> fi_Chunks fi = None \<and> fi_LinkTarget fi = [] \<and> fi_Size fi > 0"

definition uploaded :: "OpSnapshot \<Rightarrow> (string, FileInfo) gomap" where
  "uploaded s = fm_filter (\<lambda>p fi. \<not> pending_upload fi) (os_files s)"

text \<open>The snapshot whose maps a marshaller writes, with their version number and time.\<close>

definition doc_fields :: "int \<Rightarrow> int \<Rightarrow> OpSnapshot \<Rightarrow> (string \<times> json) list" where
  "doc_fields ver now m =
     [(''version'', JInt ver), (''created'', JTime (os_created m)), (''updated'', JTime now),
      (''tree'', enc_map fileInfo_to_json (os_files m))]
     @ omit_map ''dirs'' dirInfo_to_json (os_dirs m)
     @ omit_map ''deleted'' opTombstone_to_json (os_deleted m)
     @ omit_map ''deleted_dirs'' opTombstone_to_json (os_deletedDirs m)
     @ omit_ptr ''deleted_root'' opTombstone_to_json (os_deletedRoot m)"

definition snapshot_doc :: "int \<Rightarrow> int \<Rightarrow> OpSnapshot \<Rightarrow> json option" where
  "snapshot_doc ver now m =
     (if \<not> snap_times_ok now m then None else Some (JObj (doc_fields ver now m)))"

definition nil_doc :: "int \<Rightarrow> json" where
  "nil_doc ver = JObj [(''version'', JInt ver), (''created'', JTime zero_time),
     (''updated'', JTime zero_time), (''tree'', JObj [])]"

definition ops_MarshalSnapshot :: "int \<Rightarrow> OpSnapshot option \<Rightarrow> json option" where
  "ops_MarshalSnapshot now snap = (case snap of
      None \<Rightarrow> Some (nil_doc 1)
    | Some s \<Rightarrow> snapshot_doc 1 now (s\<lparr>os_files := uploaded s, os_deleted := fmempty, os_deletedDirs := fmempty\<rparr>))"

definition MarshalPeerSnapshot :: "int \<Rightarrow> OpSnapshot option \<Rightarrow> json option" where
  "MarshalPeerSnapshot now snap = (case snap of
      None \<Rightarrow> Some (nil_doc 2)
    | Some s \<Rightarrow> snapshot_doc 2 now (s\<lparr>os_files := uploaded s\<rparr>))"

definition snapshot_of_doc :: "(string \<times> json) list \<Rightarrow> OpSnapshot option" where
  "snapshot_of_doc obj = do {
     ver \<leftarrow> dec_int (jget obj ''version'');
     created \<leftarrow> dec_time (jget obj ''created'');
     updated \<leftarrow> dec_time (jget obj ''updated'');
     tree \<leftarrow> dec_map (dec_struct fileInfo_of_fields) (jget obj ''tree'');
     dirs \<leftarrow> dec_map (dec_struct dirInfo_of_fields) (jget obj ''dirs'');
     dels \<leftarrow> dec_map (dec_struct opTombstone_of_fields) (jget obj ''deleted'');
     ddirs \<leftarrow> dec_map (dec_struct opTombstone_of_fields) (jget obj ''deleted_dirs'');
     root \<leftarrow> dec_ptr (dec_struct opTombstone_of_fields) (jget obj ''deleted_root'');
     Some \<lparr>os_files = tree, os_dirs = dirs, os_deleted = dels, os_deletedDirs = ddirs,
       os_deletedRoot = root, os_created = created, os_updated = updated\<rparr> }"

definition UnmarshalPeerSnapshot :: "json \<Rightarrow> OpSnapshot option" where
  "UnmarshalPeerSnapshot j = dec_struct snapshot_of_doc j"

text \<open>\<open>snapshotJSON\<close> has no fields for the tombstones of paths, so these are not decoded.\<close>

definition plain_of_doc :: "(string \<times> json) list \<Rightarrow> OpSnapshot option" where
  "plain_of_doc obj = snapshot_of_doc (filter (\<lambda>(k, v). k \<notin> {''deleted'', ''deleted_dirs''}) obj)"

definition ops_UnmarshalSnapshot :: "json \<Rightarrow> OpSnapshot option" where
  "ops_UnmarshalSnapshot j = dec_struct plain_of_doc j"

section \<open>Round trips\<close>

definition file_wire_ok :: "FileInfo \<Rightarrow> bool" where
  "file_wire_ok fi \<longleftrightarrow> int64_ok (fi_Size fi) \<and> int64_ok (fi_Seq fi) \<and> strings_utf8 (fi_Chunks fi) \<and>
     list_all utf8_valid [fi_Checksum fi, fi_PrevChecksum fi, fi_Namespace fi, fi_Device fi, fi_LinkTarget fi]"

definition dir_wire_ok :: "DirInfo \<Rightarrow> bool" where
  "dir_wire_ok di \<longleftrightarrow> int64_ok (di_Seq di) \<and> list_all utf8_valid [di_Namespace di, di_Device di]"

definition opTombstone_wire_ok :: "OpTombstone \<Rightarrow> bool" where
  "opTombstone_wire_ok t \<longleftrightarrow> int64_ok (ot_Seq t) \<and>
     list_all utf8_valid [ot_Namespace t, ot_Device t, ot_PrevChecksum t]"

definition map_wire_ok :: "('v \<Rightarrow> bool) \<Rightarrow> (string, 'v) gomap \<Rightarrow> bool" where
  "map_wire_ok P m \<longleftrightarrow> list_all (\<lambda>(k, v). utf8_valid k \<and> P v) (fm_items m)"

definition ops_wire_ok :: "OpSnapshot \<Rightarrow> bool" where
  "ops_wire_ok s \<longleftrightarrow> map_wire_ok file_wire_ok (os_files s) \<and> map_wire_ok dir_wire_ok (os_dirs s) \<and>
     map_wire_ok opTombstone_wire_ok (os_deleted s) \<and> map_wire_ok opTombstone_wire_ok (os_deletedDirs s) \<and>
     list_all opTombstone_wire_ok (option_list (os_deletedRoot s))"

lemma fileInfo_json_rt: "file_wire_ok fi \<Longrightarrow> dec_struct fileInfo_of_fields (fileInfo_to_json fi) = Some fi"
  by (simp add: fileInfo_to_json_def fileInfo_of_fields_def file_wire_ok_def)

lemma dirInfo_json_rt: "dir_wire_ok di \<Longrightarrow> dec_struct dirInfo_of_fields (dirInfo_to_json di) = Some di"
  by (simp add: dirInfo_to_json_def dirInfo_of_fields_def dir_wire_ok_def)

lemma opTombstone_json_rt:
  "opTombstone_wire_ok t \<Longrightarrow> dec_struct opTombstone_of_fields (opTombstone_to_json t) = Some t"
  by (simp add: opTombstone_to_json_def opTombstone_of_fields_def opTombstone_wire_ok_def)

lemma dec_enc_wire_map:
  assumes "map_wire_ok P m" "\<And>v. P v \<Longrightarrow> g (f v) = Some v"
  shows "dec_map g (Some (enc_map f m)) = Some m"
    and "dec_map g (if m = fmempty then None else Some (enc_map f m)) = Some m"
proof -
  show "dec_map g (Some (enc_map f m)) = Some m"
    using assms by (intro dec_enc_map) (auto simp: map_wire_ok_def keys_utf8_iff list_all_iff)
  then show "dec_map g (if m = fmempty then None else Some (enc_map f m)) = Some m" by simp
qed

lemmas dec_enc_files = dec_enc_wire_map [where P = file_wire_ok, OF _ fileInfo_json_rt]
lemmas dec_enc_dirs = dec_enc_wire_map [where P = dir_wire_ok, OF _ dirInfo_json_rt]
lemmas dec_enc_opTombstones = dec_enc_wire_map [where P = opTombstone_wire_ok, OF _ opTombstone_json_rt]

lemma dec_enc_root:
  "list_all opTombstone_wire_ok (option_list r) \<Longrightarrow>
   dec_ptr (dec_struct opTombstone_of_fields) (map_option opTombstone_to_json r) = Some r"
proof (cases r)
  case (Some t)
  assume "list_all opTombstone_wire_ok (option_list r)"
  with Some opTombstone_json_rt [of t] show ?thesis
    by (simp add: opTombstone_to_json_def)
qed simp

lemma jget_doc_fields:
  "jget (doc_fields ver now m) ''version'' = Some (JInt ver)"
  "jget (doc_fields ver now m) ''created'' = Some (JTime (os_created m))"
  "jget (doc_fields ver now m) ''updated'' = Some (JTime now)"
  "jget (doc_fields ver now m) ''tree'' = Some (enc_map fileInfo_to_json (os_files m))"
  "jget (doc_fields ver now m) ''dirs'' =
     (if os_dirs m = fmempty then None else Some (enc_map dirInfo_to_json (os_dirs m)))"
  "jget (doc_fields ver now m) ''deleted'' =
     (if os_deleted m = fmempty then None else Some (enc_map opTombstone_to_json (os_deleted m)))"
  "jget (doc_fields ver now m) ''deleted_dirs'' =
     (if os_deletedDirs m = fmempty then None else Some (enc_map opTombstone_to_json (os_deletedDirs m)))"
  "jget (doc_fields ver now m) ''deleted_root'' = map_option opTombstone_to_json (os_deletedRoot m)"
  by (auto simp: doc_fields_def split: option.split)

lemma snapshot_of_doc_rt:
  assumes "ops_wire_ok m" "int64_ok ver"
  shows "snapshot_of_doc (doc_fields ver now m) = Some (m\<lparr>os_updated := now\<rparr>)"
  using assms unfolding ops_wire_ok_def
  by (simp add: snapshot_of_doc_def jget_doc_fields dec_enc_files dec_enc_dirs dec_enc_opTombstones
      dec_enc_root)

lemma map_wire_ok_filter: "map_wire_ok P m \<Longrightarrow> map_wire_ok P (fm_filter Q m)"
  by (auto simp: map_wire_ok_def list_all_iff split: option.splits if_splits)

lemma map_wire_ok_empty [simp]: "map_wire_ok P fmempty"
  by (simp add: map_wire_ok_def list_all_iff)

lemma plain_fields:
  assumes "os_deleted m = fmempty" "os_deletedDirs m = fmempty"
  shows "filter (\<lambda>(k, v). k \<notin> {''deleted'', ''deleted_dirs''}) (doc_fields ver now m) = doc_fields ver now m"
  using assms by (simp add: doc_fields_def omit_defs split: option.split)

text \<open>
  C24. The two JSON forms of a file snapshot, for a snapshot whose strings are valid UTF-8 and whose
  times can be marshalled. The peer form brings back everything except pending uploads; the plain
  form also drops the tombstones of files and directories but keeps the root tombstone. Both carry
  the time of marshalling as update time.
\<close>
theorem file_snapshot_roundtrip:
  assumes "ops_wire_ok s" "snap_times_ok now s"
  shows "Option.bind (MarshalPeerSnapshot now (Some s)) UnmarshalPeerSnapshot =
      Some (s\<lparr>os_files := uploaded s, os_updated := now\<rparr>) \<and>
    Option.bind (ops_MarshalSnapshot now (Some s)) ops_UnmarshalSnapshot =
      Some (s\<lparr>os_files := uploaded s, os_deleted := fmempty, os_deletedDirs := fmempty, os_updated := now\<rparr>)"
proof -
  let ?peer = "s\<lparr>os_files := uploaded s\<rparr>"
  let ?plain = "s\<lparr>os_files := uploaded s, os_deleted := fmempty, os_deletedDirs := fmempty\<rparr>"
  have wire: "ops_wire_ok ?peer" "ops_wire_ok ?plain"
    using assms(1) by (simp_all add: ops_wire_ok_def uploaded_def map_wire_ok_filter)
  have tms: "snap_times_ok now ?peer" "snap_times_ok now ?plain"
    using assms(2) by (auto simp: snap_times_ok_def uploaded_def list_all_iff split: option.splits if_splits)
  have "plain_of_doc (doc_fields 1 now ?plain) = Some (?plain\<lparr>os_updated := now\<rparr>)"
    unfolding plain_of_doc_def using wire by (subst plain_fields) (simp_all add: snapshot_of_doc_rt int64_ok_def)
  with wire tms show ?thesis
    by (simp add: MarshalPeerSnapshot_def ops_MarshalSnapshot_def snapshot_doc_def UnmarshalPeerSnapshot_def
        ops_UnmarshalSnapshot_def snapshot_of_doc_rt int64_ok_def)
qed

theorem file_snapshot_roundtrip_witness:
  "let s = ops_buildSnapshot 7 None [example_put, example_delete_dir] in
   os_deleted s \<noteq> fmempty \<and>
   Option.bind (MarshalPeerSnapshot 9 (Some s)) UnmarshalPeerSnapshot = Some (s\<lparr>os_files := uploaded s, os_updated := 9\<rparr>)"
proof -
  let ?s = "ops_buildSnapshot 7 None [example_put, example_delete_dir]"
  have "ops_wire_ok ?s" "snap_times_ok 9 ?s" "os_deleted ?s \<noteq> fmempty" by code_simp+
  with file_snapshot_roundtrip [of ?s 9] show ?thesis by (simp add: Let_def)
qed

end
