(* ===== verification/Fs_S3.thy ===== *)
theory Fs_S3
  imports Fs_Wire "HOL-Library.Product_Lexorder"
begin

text \<open>
  The shared operations log of \<open>pkg/fs/opslog/opslog.go\<close>: \<open>OpsLog\<close>, whose entries and snapshots are
  encrypted objects of a storage backend. The backend is a map from keys to bytes that lists keys in
  order, as \<open>pkg/adapter\<close> documents, with the failures of a call as an argument. JSON text and AES-GCM
  come together as two parameters: \<open>enc\<close> seals a document and \<open>dec\<close> opens it, or fails. The parallel
  downloads write to separate slots and are joined before use, so they are a map over the keys.
\<close>

unbundle bit_operations_syntax

section \<open>Parsing helpers\<close>

text \<open>An optional sign and the rest.\<close>

fun split_sign :: "string \<Rightarrow> bool \<times> string" where
  "split_sign [] = (False, [])"
| "split_sign (c # cs) =
     (if c = CHR ''-'' then (True, cs) else if c = CHR ''+'' then (False, cs) else (False, c # cs))"

definition signed :: "bool \<Rightarrow> nat \<Rightarrow> int" where
  "signed neg n = (if neg then - int n else int n)"

text \<open>\<open>fmt.Sscanf(s, "%d", &ts)\<close> into a zero variable: 0 when there is no number or it overflows.\<close>

definition scan_d :: "string \<Rightarrow> int" where
  "scan_d s =
     (let (neg, r) = split_sign (dropWhile (\<lambda>c. of_char c \<in> {9, 11, 12, 13, 32 :: nat}) s);
          ds = takeWhile is_digit r; v = signed neg (read_nat ds)
      in if ds = [] \<or> \<not> int64_ok v then 0 else v)"

text \<open>The number \<open>strconv.Atoi\<close> returns beside its error: 0 for a syntax error, clamped out of range.\<close>

definition Atoi :: "string \<Rightarrow> int" where
  "Atoi s =
     (let (neg, ds) = split_sign s; v = signed neg (read_nat ds) in
      if ds = [] \<or> \<not> list_all is_digit ds then 0
      else if v \<ge> 2 ^ 63 then 2 ^ 63 - 1 else if v < - (2 ^ 63) then - (2 ^ 63) else v)"

definition SchemaVersion :: string where
  "SchemaVersion = ''1.1.0''"

definition parseSemver :: "string \<Rightarrow> bytes" where
  "parseSemver v =
     (let parts = SplitN 3 (CHR ''.'') v;
          at = (\<lambda>i. if i < length parts then word_of_int (Atoi (parts ! i)) else 0)
      in [at 0, at 1, at 2])"

definition semverMajor :: "string \<Rightarrow> int" where
  "semverMajor v = (case SplitN 2 (CHR ''.'') v of [] \<Rightarrow> 0 | p # _ \<Rightarrow> Atoi p)"

definition op_entryKey :: "OpEntry \<Rightarrow> string" where
  "op_entryKey e = ''ops/'' @ show_int (oe_Timestamp e) @ ''-'' @ oe_Device e @ ''-'' @ pad0 4 (oe_Seq e) @ ''.enc''"

definition parseEntryTimestamp :: "string \<Rightarrow> int" where
  "parseEntryTimestamp key =
     (case SplitN 2 (CHR ''-'') (TrimSuffix (TrimPrefix key ''ops/'') ''.enc'') of
        [] \<Rightarrow> 0 | p # _ \<Rightarrow> scan_d p)"

definition snapshot_key :: "int \<Rightarrow> string" where
  "snapshot_key now = ''manifests/snapshot-'' @ show_int now @ ''.enc''"

definition parseSnapshotTimestamp :: "string \<Rightarrow> int" where
  "parseSnapshotTimestamp key = scan_d (TrimSuffix (TrimPrefix key ''manifests/snapshot-'') ''.enc'')"

lemma takeWhile_digits_show [simp]: "takeWhile is_digit (show_nat n) = show_nat n"
  by (simp add: takeWhile_eq_all_conv show_nat_digits)

lemma show_nat_Cons: "\<exists>c cs. show_nat n = c # cs \<and> is_digit c"
  by (metis list.exhaust list.set_intros(1) show_nat_digits show_nat_not_Nil)

lemma scan_show: "0 \<le> t \<Longrightarrow> int64_ok t \<Longrightarrow> scan_d (show_int t) = t"
proof -
  assume t: "0 \<le> t" "int64_ok t"
  obtain c cs where c: "show_nat (nat t) = c # cs" "is_digit c" using show_nat_Cons by blast
  then have "c \<noteq> CHR ''-''" "c \<noteq> CHR ''+''" "of_char c \<notin> {9, 11, 12, 13, 32 :: nat}"
    by (auto simp: is_digit_def)
  then have "split_sign (dropWhile (\<lambda>c. of_char c \<in> {9, 11, 12, 13, 32 :: nat}) (show_nat (nat t))) =
      (False, show_nat (nat t))"
    using c by simp
  with t show ?thesis by (simp add: scan_d_def show_int_def signed_def)
qed

lemma dash_not_digit: "CHR ''-'' \<notin> set (show_nat n)"
  using show_nat_digits [of "CHR ''-''" n] by (auto simp: is_digit_def)

lemma parse_entryKey:
  assumes "0 \<le> oe_Timestamp e" "int64_ok (oe_Timestamp e)"
  shows "parseEntryTimestamp (op_entryKey e) = oe_Timestamp e"
proof -
  have "TrimSuffix (TrimPrefix (op_entryKey e) ''ops/'') ''.enc'' =
      show_int (oe_Timestamp e) @ CHR ''-'' # (oe_Device e @ ''-'' @ pad0 4 (oe_Seq e))"
    unfolding op_entryKey_def TrimPrefix_append
    using TrimSuffix_append [of "show_int (oe_Timestamp e) @ ''-'' @ oe_Device e @ ''-'' @ pad0 4 (oe_Seq e)" "''.enc''"]
    by simp
  moreover have "Cut (CHR ''-'') (show_int (oe_Timestamp e) @ CHR ''-'' # r) = Some (show_int (oe_Timestamp e), r)" for r
    using assms(1) by (intro Cut_append) (simp add: show_int_def dash_not_digit)
  ultimately show ?thesis
    using scan_show [OF assms] by (simp add: parseEntryTimestamp_def numeral_2_eq_2)
qed

lemma parse_snapshot_key: "0 \<le> t \<Longrightarrow> int64_ok t \<Longrightarrow> parseSnapshotTimestamp (snapshot_key t) = t"
  unfolding parseSnapshotTimestamp_def snapshot_key_def TrimPrefix_append TrimSuffix_append
  by (rule scan_show)

section \<open>The envelope\<close>

definition be64 :: "u64 \<Rightarrow> bytes" where
  "be64 w = map (\<lambda>i. ucast (drop_bit (8 * i) w)) (rev [0..<8])"

definition string_bytes :: "string \<Rightarrow> bytes" where
  "string_bytes s = map (\<lambda>c. word_of_nat (of_char c)) s"

definition opMagic :: bytes where
  "opMagic = [79, 80, 83]"

fun op_type_byte :: "OpType \<Rightarrow> byte" where
  "op_type_byte OpDelete = 1"
| "op_type_byte OpDeleteDir = 2"
| "op_type_byte OpCreateDir = 3"
| "op_type_byte OpSymlink = 4"
| "op_type_byte OpDeleteRoot = 5"
| "op_type_byte _ = 0"

definition envelopeSize :: nat where
  "envelopeSize = 22"

definition makeEnvelope :: "OpEntry \<Rightarrow> bytes \<Rightarrow> bytes" where
  "makeEnvelope e encrypted =
     (let dev = take 6 (string_bytes (oe_Device e)) in
      opMagic @ [1] @ parseSemver SchemaVersion @ be64 (word_of_int (oe_Timestamp e))
      @ dev @ replicate (6 - length dev) 0 @ [op_type_byte (oe_Type e)] @ encrypted)"

definition parseEnvelope :: "bytes \<Rightarrow> bytes \<times> bytes \<times> bool" where
  "parseEnvelope data =
     (if length data \<ge> envelopeSize \<and> take 3 data = opMagic
      then (drop envelopeSize data, take 3 (drop 4 data), True)
      else (data, [0, 0, 0], False))"

lemma length_be64 [simp]: "length (be64 w) = 8"
  by (simp add: be64_def)

lemma semver_bytes: "parseSemver SchemaVersion = [1, 1, 0]"
  by code_simp

lemma parse_makeEnvelope [simp]: "parseEnvelope (makeEnvelope e c) = (c, [1, 1, 0], True)"
proof -
  define dev where "dev = take 6 (string_bytes (oe_Device e))"
  define head where "head = opMagic @ [1] @ [1, 1, 0] @ be64 (word_of_int (oe_Timestamp e))
      @ dev @ replicate (6 - length dev) 0 @ [op_type_byte (oe_Type e)]"
  have len: "length head = 22"
    unfolding head_def dev_def by (simp add: opMagic_def min_def)
  have "makeEnvelope e c = head @ c"
    by (simp add: makeEnvelope_def Let_def semver_bytes head_def dev_def)
  moreover have "take 3 head = opMagic" "take 3 (drop 4 head) = [1, 1, 0]"
    by (simp_all add: head_def opMagic_def numeral_3_eq_3)
  ultimately show ?thesis
    using len by (simp add: parseEnvelope_def envelopeSize_def)
qed

section \<open>The backend\<close>

datatype s3_error =
    ListFail | GetFail string | PutFail string | DeleteFail string
  | MarshalFail | SchemaTooNew string | OpenFail string | ParseFail string

type_synonym objects = "(string, bytes) gomap"

text \<open>The failures of the backend during a call: of listing, reading, writing and deleting.\<close>

record backend_faults =
  bf_list :: "string \<Rightarrow> bool"
  bf_get :: "string \<Rightarrow> bool"
  bf_put :: "string \<Rightarrow> bool"
  bf_delete :: "string \<Rightarrow> bool"

definition no_faults :: backend_faults where
  "no_faults = \<lparr>bf_list = (\<lambda>_. False), bf_get = (\<lambda>_. False), bf_put = (\<lambda>_. False), bf_delete = (\<lambda>_. False)\<rparr>"

definition be_List :: "backend_faults \<Rightarrow> objects \<Rightarrow> string \<Rightarrow> s3_error + string list" where
  "be_List bf m pre =
     (if bf_list bf pre then Inl ListFail else Inr (filter (\<lambda>k. HasPrefix k pre) (fm_keys m)))"

definition be_Get :: "backend_faults \<Rightarrow> objects \<Rightarrow> string \<Rightarrow> s3_error + bytes" where
  "be_Get bf m key =
     (if bf_get bf key then Inl (GetFail key)
      else case fmlookup m key of None \<Rightarrow> Inl (GetFail key) | Some b \<Rightarrow> Inr b)"

section \<open>Entries\<close>

text \<open>
  \<open>sort.Slice\<close> by timestamp, device and sequence. The order of entries with equal clocks is not
  specified by Go; the theorems assume distinct clocks where it would matter.
\<close>

definition entry_rank :: "OpEntry \<Rightarrow> int \<times> string \<times> int" where
  "entry_rank e = (oe_Timestamp e, oe_Device e, oe_Seq e)"

definition sortEntries :: "OpEntry list \<Rightarrow> OpEntry list" where
  "sortEntries es = sort_key entry_rank es"

definition writeEntry ::
  "(json \<Rightarrow> bytes option) \<Rightarrow> backend_faults \<Rightarrow> OpEntry \<Rightarrow> objects \<Rightarrow> objects \<times> s3_error option" where
  "writeEntry enc bf e m = (case enc (op_to_json e) of
      None \<Rightarrow> (m, Some MarshalFail)
    | Some c \<Rightarrow> if bf_put bf (op_entryKey e) then (m, Some (PutFail (op_entryKey e)))
               else (fmupd (op_entryKey e) (makeEnvelope e c) m, None))"

definition fetch_entry :: "(bytes \<Rightarrow> json option) \<Rightarrow> backend_faults \<Rightarrow> objects \<Rightarrow> string \<Rightarrow> s3_error + OpEntry" where
  "fetch_entry dec bf m key = (case be_Get bf m key of
      Inl err \<Rightarrow> Inl err
    | Inr raw \<Rightarrow>
        (let (encrypted, schemaVer, isNew) = parseEnvelope raw in
         if isNew \<and> uint (hd schemaVer) > semverMajor SchemaVersion then Inl (SchemaTooNew key)
         else case dec encrypted of
                None \<Rightarrow> Inl (OpenFail key)
              | Some j \<Rightarrow> (case op_of_json j of None \<Rightarrow> Inl (ParseFail key) | Some e \<Rightarrow> Inr e)))"

text \<open>The results are collected in the order of the keys; the first error wins.\<close>

fun collect :: "('e + 'a) list \<Rightarrow> 'e + 'a list" where
  "collect [] = Inr []"
| "collect (Inl err # rs) = Inl err"
| "collect (Inr x # rs) = (case collect rs of Inl err \<Rightarrow> Inl err | Inr xs \<Rightarrow> Inr (x # xs))"

definition since_keys :: "int \<Rightarrow> string list \<Rightarrow> string list" where
  "since_keys since keys = filter (\<lambda>k. parseEntryTimestamp k \<ge> since) keys"

definition readEntries ::
  "(bytes \<Rightarrow> json option) \<Rightarrow> backend_faults \<Rightarrow> objects \<Rightarrow> int \<Rightarrow> s3_error + OpEntry list" where
  "readEntries dec bf m since = (case be_List bf m ''ops/'' of
      Inl err \<Rightarrow> Inl err
    | Inr keys \<Rightarrow> (case collect (map (fetch_entry dec bf m) (since_keys since keys)) of
        Inl err \<Rightarrow> Inl err | Inr es \<Rightarrow> Inr (sortEntries es)))"

text \<open>
  \<open>ReadBatched\<close> hands over one batch at a time and stops at the first error with the batches already
  handed over. The batch size is \<open>Suc n\<close>: the source's loop does not advance for 0. The context is
  not cancelled.
\<close>

function read_batches ::
  "(bytes \<Rightarrow> json option) \<Rightarrow> backend_faults \<Rightarrow> objects \<Rightarrow> nat \<Rightarrow> string list \<Rightarrow> OpEntry list list \<times> s3_error option" where
  "read_batches dec bf m n keys =
     (if keys = [] then ([], None)
      else case collect (map (fetch_entry dec bf m) (take (Suc n) keys)) of
             Inl err \<Rightarrow> ([], Some err)
           | Inr es \<Rightarrow>
               (case read_batches dec bf m n (drop (Suc n) keys) of
                  (bs, err) \<Rightarrow> (sortEntries es # bs, err)))"
  by pat_completeness auto
termination
  by (relation "measure (\<lambda>(dec, bf, m, n, keys). length keys)") auto

declare read_batches.simps [simp del]

definition ReadBatched ::
  "(bytes \<Rightarrow> json option) \<Rightarrow> backend_faults \<Rightarrow> objects \<Rightarrow> int \<Rightarrow> nat \<Rightarrow> OpEntry list list \<times> nat \<times> s3_error option" where
  "ReadBatched dec bf m since n = (case be_List bf m ''ops/'' of
      Inl err \<Rightarrow> ([], 0, Some err)
    | Inr keys \<Rightarrow> (case read_batches dec bf m n (sort (since_keys since keys)) of
        (bs, err) \<Rightarrow> (bs, length (concat bs), err)))"

section \<open>The log\<close>

record OpsLog =
  s3_deviceID :: string
  s3_clientID :: string
  s3_seq :: int
  s3_cache :: "OpSnapshot option"

definition s3_New :: "string \<Rightarrow> string \<Rightarrow> OpsLog" where
  "s3_New deviceID clientID = \<lparr>s3_deviceID = deviceID, s3_clientID = clientID, s3_seq = 0, s3_cache = None\<rparr>"

definition s3_Append ::
  "(json \<Rightarrow> bytes option) \<Rightarrow> backend_faults \<Rightarrow> int \<Rightarrow> OpEntry \<Rightarrow> OpsLog \<times> objects \<Rightarrow> (OpsLog \<times> objects) \<times> s3_error option" where
  "s3_Append enc bf now e st =
     (let l = (fst st)\<lparr>s3_seq := int64_wrap (s3_seq (fst st) + 1), s3_cache := None\<rparr>;
          e' = e\<lparr>oe_Seq := s3_seq l, oe_Device := s3_deviceID l, oe_Timestamp := now, oe_Client := s3_clientID l\<rparr>
      in case writeEntry enc bf e' (snd st) of (m', err) \<Rightarrow> ((l, m'), err))"

definition LoadLatestSnapshot ::
  "(bytes \<Rightarrow> json option) \<Rightarrow> backend_faults \<Rightarrow> objects \<Rightarrow> s3_error + OpSnapshot option \<times> int" where
  "LoadLatestSnapshot dec bf m = (case be_List bf m ''manifests/snapshot-'' of
      Inl err \<Rightarrow> Inl err
    | Inr keys \<Rightarrow>
        if keys = [] then Inr (None, 0)
        else (let latest = last (sort keys) in
          case be_Get bf m latest of
            Inl err \<Rightarrow> Inl err
          | Inr c \<Rightarrow> (case dec c of
              None \<Rightarrow> Inl (OpenFail latest)
            | Some j \<Rightarrow> (case UnmarshalPeerSnapshot j of
                None \<Rightarrow> Inl (ParseFail latest)
              | Some s \<Rightarrow> Inr (Some s, parseSnapshotTimestamp latest)))))"

definition s3_Snapshot ::
  "(bytes \<Rightarrow> json option) \<Rightarrow> backend_faults \<Rightarrow> int \<Rightarrow> OpsLog \<times> objects \<Rightarrow> OpsLog \<times> (s3_error + OpSnapshot)" where
  "s3_Snapshot dec bf now st = (case s3_cache (fst st) of
      Some c \<Rightarrow> (fst st, Inr c)
    | None \<Rightarrow> (case LoadLatestSnapshot dec bf (snd st) of
        Inl err \<Rightarrow> (fst st, Inl err)
      | Inr (base, baseTS) \<Rightarrow> (case readEntries dec bf (snd st) baseTS of
          Inl err \<Rightarrow> (fst st, Inl err)
        | Inr es \<Rightarrow> (let snap = ops_buildSnapshot now base es in
            ((fst st)\<lparr>s3_cache := Some snap\<rparr>, Inr snap)))))"

text \<open>The manifest leaves out every put without content; its fields are those of the peer form.\<close>

definition saveSnapshot ::
  "(json \<Rightarrow> bytes option) \<Rightarrow> backend_faults \<Rightarrow> int \<Rightarrow> OpSnapshot \<Rightarrow> objects \<Rightarrow> objects \<times> s3_error option" where
  "saveSnapshot enc bf now snap m =
     (case Option.bind (snapshot_doc 1 now (snap\<lparr>os_files := kept_files snap\<rparr>)) enc of
        None \<Rightarrow> (m, Some MarshalFail)
      | Some c \<Rightarrow> if bf_put bf (snapshot_key now) then (m, Some (PutFail (snapshot_key now)))
                 else (fmupd (snapshot_key now) c m, None))"

record CompactResult =
  cr_OpsCompacted :: nat
  cr_OpsDeleted :: nat
  cr_SnapshotsKept :: nat
  cr_SnapshotsDeleted :: nat

text \<open>Deleting the entries: a failure leaves the object and is not counted.\<close>

definition delete_ops :: "backend_faults \<Rightarrow> string list \<Rightarrow> objects \<Rightarrow> objects" where
  "delete_ops bf keys m = fold (\<lambda>k m. if bf_delete bf k then m else fmdrop k m) keys m"

text \<open>Pruning stops at the first key that cannot be deleted.\<close>

fun prune :: "backend_faults \<Rightarrow> string list \<Rightarrow> objects \<Rightarrow> objects \<times> nat \<times> s3_error option" where
  "prune bf [] m = (m, 0, None)"
| "prune bf (k # ks) m =
     (if bf_delete bf k then (m, 0, Some (DeleteFail k))
      else case prune bf ks (fmdrop k m) of (m', n, err) \<Rightarrow> (m', Suc n, err))"

definition s3_Compact ::
  "(json \<Rightarrow> bytes option) \<Rightarrow> (bytes \<Rightarrow> json option) \<Rightarrow> backend_faults \<Rightarrow> int \<Rightarrow> int \<Rightarrow> OpsLog \<times> objects
    \<Rightarrow> (OpsLog \<times> objects) \<times> (s3_error + CompactResult)" where
  "s3_Compact enc dec bf now maxSnapshots st =
     (let keep = (if maxSnapshots < 1 then 3 else nat maxSnapshots) in
      case s3_Snapshot dec bf now st of
        (l, Inl err) \<Rightarrow> ((l, snd st), Inl err)
      | (l, Inr snap) \<Rightarrow>
          (case saveSnapshot enc bf now snap (snd st) of
             (m1, Some err) \<Rightarrow> ((l, m1), Inl err)
           | (m1, None) \<Rightarrow>
               (case be_List bf m1 ''ops/'' of
                  Inl err \<Rightarrow> ((l, m1), Inl err)
                | Inr opsKeys \<Rightarrow>
                    (let m2 = delete_ops bf opsKeys m1 in
                     case be_List bf m2 ''manifests/snapshot-'' of
                       Inl err \<Rightarrow> ((l, m2), Inl err)
                     | Inr snapKeys \<Rightarrow>
                         (case prune bf (take (length snapKeys - keep) (sort snapKeys)) m2 of
                            (m3, n, Some err) \<Rightarrow> ((l, m3), Inl err)
                          | (m3, n, None) \<Rightarrow>
                              ((l\<lparr>s3_cache := None\<rparr>, m3),
                               Inr \<lparr>cr_OpsCompacted = length opsKeys,
                                    cr_OpsDeleted = length (filter (\<lambda>k. \<not> bf_delete bf k) opsKeys),
                                    cr_SnapshotsKept =
                                      (case be_List bf m3 ''manifests/snapshot-'' of Inl _ \<Rightarrow> 0 | Inr ks \<Rightarrow> length ks),
                                    cr_SnapshotsDeleted = n\<rparr>))))))"

end
