(* ===== verification/Fs_S3_Props.thy ===== *)
theory Fs_S3_Props
  imports Fs_S3 "HOL-Library.Multiset"
begin

text \<open>
  What the shared log guarantees: an appended entry is read back in its place, batched reading hands
  over the same entries, and compaction keeps the tree. Compaction also has a price that is shown on
  an example: an entry stamped before the snapshot by a slow clock is not read any more.
\<close>

section \<open>Reading\<close>

lemma collect_Inrs [simp]: "collect (map Inr xs) = Inr xs"
  by (induction xs) simp_all

lemma collect_Inr: "collect rs = Inr xs \<longleftrightarrow> rs = map Inr xs"
proof
  show "rs = map Inr xs" if "collect rs = Inr xs"
    using that by (induction rs arbitrary: xs rule: collect.induct) (auto split: sum.splits)
qed simp

lemma collect_map:
  assumes "collect (map f ks) = Inr xs"
  shows "xs = map (projr \<circ> f) ks" and "k \<in> set ks \<Longrightarrow> f k = Inr (projr (f k))"
proof -
  have eq: "map f ks = map Inr xs" using assms by (simp add: collect_Inr)
  then have "map projr (map f ks) = map projr (map Inr xs)" by simp
  then show "xs = map (projr \<circ> f) ks" by (simp add: comp_def)
  assume "k \<in> set ks"
  then have "f k \<in> set (map Inr xs)" using eq by (metis image_eqI list.set_map)
  then show "f k = Inr (projr (f k))" by auto
qed

lemma collect_perm:
  assumes "collect (map f ks) = Inr xs" "mset ks' = mset ks"
  shows "\<exists>ys. collect (map f ks') = Inr ys \<and> mset ys = mset xs"
proof -
  have all: "map f ks' = map Inr (map (projr \<circ> f) ks')"
    using collect_map(2) [OF assms(1)] mset_eq_setD [OF assms(2)] by (auto intro!: map_cong)
  have "xs = map (projr \<circ> f) ks"
    using assms(1) by (rule collect_map(1))
  then have "mset (map (projr \<circ> f) ks') = mset xs"
    using assms(2) by simp
  moreover have "collect (map f ks') = Inr (map (projr \<circ> f) ks')"
    unfolding collect_Inr by (rule all)
  ultimately show ?thesis by blast
qed

lemma mset_fm_keys_upd:
  "fmlookup m k = None \<Longrightarrow> mset (fm_keys (fmupd k v m)) = add_mset k (mset (fm_keys m))"
proof -
  assume k: "fmlookup m k = None"
  have "mset (fm_keys (fmupd k v m)) = mset_set (insert k (fmdom' m))"
    by (metis distinct_fm_keys fmdom'_fmupd mset_set_set set_fm_keys)
  also have "\<dots> = add_mset k (mset_set (fmdom' m))"
    using k by (simp add: fmdom'_notI)
  also have "mset_set (fmdom' m) = mset (fm_keys m)"
    by (metis distinct_fm_keys mset_set_set set_fm_keys)
  finally show ?thesis .
qed

lemma sortEntries_perm:
  "mset xs = mset ys \<Longrightarrow> distinct (map entry_rank xs) \<Longrightarrow> sortEntries xs = sortEntries ys"
  unfolding sortEntries_def
  by (rule sort_key_inj_key_eq) (auto simp: distinct_map dest: mset_eq_setD)

lemma no_faults_simps [simp]:
  "bf_list no_faults p = False" "bf_get no_faults p = False" "bf_put no_faults p = False"
  "bf_delete no_faults p = False"
  by (simp_all add: no_faults_def)

lemma fetch_written:
  assumes "op_ok e" "dec c = Some (op_to_json e)"
  shows "fetch_entry dec no_faults (fmupd (op_entryKey e) (makeEnvelope e c) m) (op_entryKey e) = Inr e"
proof -
  have "semverMajor SchemaVersion = 1" by code_simp
  with assms show ?thesis by (simp add: fetch_entry_def be_Get_def op_json_rt)
qed

lemma fetch_other: "k \<noteq> k' \<Longrightarrow> fetch_entry dec bf (fmupd k' v m) k = fetch_entry dec bf m k"
  by (simp add: fetch_entry_def be_Get_def)

lemma read_after_write:
  assumes old: "readEntries dec no_faults m since = Inr es" "fmlookup m (op_entryKey e) = None"
    and e: "op_ok e" "dec c = Some (op_to_json e)" "0 \<le> oe_Timestamp e" "since \<le> oe_Timestamp e"
    and clocks: "distinct (map entry_rank (e # es))"
  shows "readEntries dec no_faults (fmupd (op_entryKey e) (makeEnvelope e c) m) since = Inr (sortEntries (e # es))"
proof -
  let ?k = "op_entryKey e" let ?m = "fmupd (op_entryKey e) (makeEnvelope e c) m"
  let ?f = "fetch_entry dec no_faults"
  define old_keys where "old_keys = since_keys since (filter (\<lambda>k. HasPrefix k ''ops/'') (fm_keys m))"
  define new_keys where "new_keys = since_keys since (filter (\<lambda>k. HasPrefix k ''ops/'') (fm_keys ?m))"
  obtain xs where xs: "collect (map (?f m) old_keys) = Inr xs" "es = sortEntries xs"
    using old(1) by (auto simp: readEntries_def be_List_def old_keys_def split: sum.splits)
  have k: "?k \<notin> set old_keys" "HasPrefix ?k ''ops/''" "parseEntryTimestamp ?k \<ge> since"
    using old(2) e parse_entryKey [of e] unfolding op_entryKey_def
    by (auto simp: old_keys_def since_keys_def fmlookup_dom'_iff op_ok_def simp del: append.simps)
  have "mset new_keys = mset (?k # old_keys)"
    using k old(2) by (simp add: new_keys_def old_keys_def since_keys_def mset_fm_keys_upd mset_filter)
  moreover have "collect (map (?f ?m) (?k # old_keys)) = Inr (e # xs)"
  proof -
    have "map (?f ?m) old_keys = map (?f m) old_keys"
      using k(1) by (intro map_cong) (auto intro!: fetch_other)
    with xs(1) fetch_written [of e dec c, OF e(1,2)] show ?thesis by (simp del: map_eq_conv)
  qed
  ultimately obtain ys where ys: "collect (map (?f ?m) new_keys) = Inr ys" "mset ys = mset (e # xs)"
    using collect_perm by metis
  have "mset es = mset xs" by (simp add: xs(2) sortEntries_def)
  then have "mset ys = mset (e # es)" using ys(2) by simp
  then have "sortEntries ys = sortEntries (e # es)"
    using clocks by (metis sortEntries_perm)
  with ys(1) show ?thesis by (simp add: readEntries_def be_List_def new_keys_def)
qed

lemma read_batches_all:
  "collect (map (fetch_entry dec bf m) keys) = Inr es \<Longrightarrow>
   \<exists>bs. read_batches dec bf m n keys = (bs, None) \<and> mset (concat bs) = mset es"
proof (induction dec bf m n keys arbitrary: es rule: read_batches.induct)
  case (1 dec bf m n keys)
  show ?case
  proof (cases "keys = []")
    case True
    with 1 show ?thesis by (simp add: read_batches.simps)
  next
    case False
    let ?f = "fetch_entry dec bf m"
    have "map ?f keys = map Inr es" using "1.prems" by (simp add: collect_Inr)
    then have parts: "map ?f (take (Suc n) keys) = map Inr (take (Suc n) es)"
      "map ?f (drop (Suc n) keys) = map Inr (drop (Suc n) es)"
      by (metis take_map, metis drop_map)
    obtain bs where bs: "read_batches dec bf m n (drop (Suc n) keys) = (bs, None)"
      "mset (concat bs) = mset (drop (Suc n) es)"
      using "1.IH" [OF False, of "take (Suc n) es" "drop (Suc n) es"] parts by (auto simp: collect_Inr)
    have "mset (take (Suc n) es) + mset (drop (Suc n) es) = mset es"
      by (metis append_take_drop_id mset_append)
    with False bs parts show ?thesis
      by (subst read_batches.simps) (simp add: collect_Inr [THEN iffD2] sortEntries_def)
  qed
qed


definition example_dec :: "bytes \<Rightarrow> json option" where
  "example_dec b = (if b = [7] then Some (op_to_json (example_put\<lparr>oe_Seq := 1, oe_Device := ''A'', oe_Timestamp := 50, oe_Client := ''c''\<rparr>))
     else None)"


section \<open>Compaction\<close>

lemma fmlookup_fold_fmdrop [simp]:
  "fmlookup (fold fmdrop ks m) k = (if k \<in> set ks then None else fmlookup m k)"
  by (induction ks arbitrary: m) auto

lemma delete_ops_no_faults [simp]: "delete_ops no_faults ks m = fold fmdrop ks m"
  by (simp add: delete_ops_def)

lemma prune_no_faults [simp]: "prune no_faults ks m = (fold fmdrop ks m, length ks, None)"
  by (induction ks arbitrary: m) simp_all

lemma last_sorted_max:
  fixes K :: "'a::linorder"
  assumes "sorted xs" "K \<in> set xs" "\<And>x. x \<in> set xs \<Longrightarrow> x \<le> K"
  shows "last xs = K"
  using assms
proof (induction xs)
  case (Cons x xs)
  show ?case
  proof (cases xs)
    case (Cons y ys)
    then have "y \<le> K" "x \<le> y" "x = K \<or> K \<in> set xs" using Cons.prems by auto
    then have "K \<in> set xs" using Cons by auto
    then show ?thesis using Cons Cons.IH Cons.prems by auto
  qed (use Cons.prems in simp)
qed simp

lemma take_butlast_max:
  fixes K :: "'a::linorder"
  assumes "sorted xs" "distinct xs" "K \<in> set xs" "\<And>x. x \<in> set xs \<Longrightarrow> x \<le> K" "1 \<le> n"
  shows "K \<notin> set (take (length xs - n) xs)"
proof -
  have "last xs = K" using assms by (intro last_sorted_max)
  then have "xs = butlast xs @ [K]" using assms(3) by (metis append_butlast_last_id empty_iff list.set(1))
  then have "K \<notin> set (butlast xs)" using assms(2) by (metis distinct_append distinct.simps(2) disjoint_iff list.set_intros(1))
  moreover have "set (take (length xs - n) xs) \<subseteq> set (butlast xs)"
    using assms(5) by (simp add: butlast_conv_take set_take_subset_set_take)
  ultimately show ?thesis by blast
qed

lemma snapshot_key_prefix [simp]:
  "HasPrefix (snapshot_key t) ''manifests/snapshot-''" "\<not> HasPrefix (snapshot_key t) ''ops/''"
proof -
  show "HasPrefix (snapshot_key t) ''manifests/snapshot-''"
    unfolding snapshot_key_def by (rule HasPrefix_append)
qed (simp add: snapshot_key_def HasPrefix_def)

lemma set_fm_keys_filter: "k \<in> set (filter P (fm_keys m)) \<longleftrightarrow> P k \<and> fmlookup m k \<noteq> None"
  by (auto simp: fmlookup_dom'_iff)

lemma sorted_fm_keys_filter: "sorted (filter P (fm_keys m))"
  by (simp add: sorted_filter [of "\<lambda>x. x", simplified])

lemma load_latest:
  assumes "fmlookup m (snapshot_key now) = Some c" "dec c = Some j" "UnmarshalPeerSnapshot j = Some s"
    and "\<And>k. HasPrefix k ''manifests/snapshot-'' \<Longrightarrow> fmlookup m k \<noteq> None \<Longrightarrow> k \<le> snapshot_key now"
    and "0 \<le> now" "int64_ok now"
  shows "LoadLatestSnapshot dec no_faults m = Inr (Some s, now)"
proof -
  let ?keys = "filter (\<lambda>k. HasPrefix k ''manifests/snapshot-'') (fm_keys m)"
  have mem: "snapshot_key now \<in> set ?keys"
    unfolding set_fm_keys_filter using assms(1) by simp
  then have "?keys \<noteq> []" by (metis empty_iff list.set(1))
  moreover have "last ?keys = snapshot_key now"
    using mem assms(4) unfolding set_fm_keys_filter
    by (intro last_sorted_max sorted_fm_keys_filter) (auto simp: set_fm_keys_filter fmlookup_dom'_iff)
  ultimately show ?thesis
    using assms parse_snapshot_key
    by (simp add: LoadLatestSnapshot_def be_List_def be_Get_def Let_def sorted_sort_id sorted_fm_keys_filter)
qed

lemma read_no_ops:
  assumes "\<And>k. HasPrefix k ''ops/'' \<Longrightarrow> fmlookup m k = None"
  shows "readEntries dec no_faults m since = Inr []"
proof -
  have "filter (\<lambda>k. HasPrefix k ''ops/'') (fm_keys m) = []"
    using assms by (fastforce simp: filter_empty_conv fmlookup_dom'_iff)
  then show ?thesis by (simp add: readEntries_def be_List_def since_keys_def sortEntries_def)
qed

text \<open>The objects a compaction without failures leaves.\<close>

lemma compact_objects:
  assumes "s3_Snapshot dec no_faults now (l, m) = (l1, Inr snap)"
    and "snapshot_doc 1 now (snap\<lparr>os_files := kept_files snap\<rparr>) = Some j" "enc j = Some c"
    and max: "\<And>k. HasPrefix k ''manifests/snapshot-'' \<Longrightarrow> fmlookup m k \<noteq> None \<Longrightarrow> k \<le> snapshot_key now"
  shows "\<exists>m' r. s3_Compact enc dec no_faults now n (l, m) = ((l1\<lparr>s3_cache := None\<rparr>, m'), Inr r) \<and>
    fmlookup m' (snapshot_key now) = Some c \<and>
    (\<forall>k. HasPrefix k ''ops/'' \<longrightarrow> fmlookup m' k = None) \<and>
    (\<forall>k. HasPrefix k ''manifests/snapshot-'' \<longrightarrow> fmlookup m' k \<noteq> None \<longrightarrow> k \<le> snapshot_key now)"
proof -
  define keep where "keep = (if n < 1 then 3 else nat n)"
  let ?m1 = "fmupd (snapshot_key now) c m"
  define ops where "ops = filter (\<lambda>k. HasPrefix k ''ops/'') (fm_keys ?m1)"
  let ?m2 = "fold fmdrop ops ?m1"
  define snaps where "snaps = filter (\<lambda>k. HasPrefix k ''manifests/snapshot-'') (fm_keys ?m2)"
  let ?old = "take (length snaps - keep) snaps"
  let ?m3 = "fold fmdrop ?old ?m2"
  have keep: "1 \<le> keep" unfolding keep_def by auto
  have mem: "snapshot_key now \<in> set snaps"
    unfolding snaps_def ops_def by (simp add: fmlookup_dom'_iff)
  have "snapshot_key now \<notin> set ?old"
  proof (rule take_butlast_max)
    show "k \<le> snapshot_key now" if "k \<in> set snaps" for k
      using that max [of k] unfolding snaps_def by (auto simp: fmlookup_dom'_iff split: if_splits)
  qed (use mem keep in \<open>simp_all add: snaps_def sorted_fm_keys_filter\<close>)
  moreover have "s3_Compact enc dec no_faults now n (l, m) = ((l1\<lparr>s3_cache := None\<rparr>, ?m3),
      Inr \<lparr>cr_OpsCompacted = length ops, cr_OpsDeleted = length ops,
        cr_SnapshotsKept = length (filter (\<lambda>k. HasPrefix k ''manifests/snapshot-'') (fm_keys ?m3)),
        cr_SnapshotsDeleted = length ?old\<rparr>)"
    using assms(1-3)
    by (simp add: s3_Compact_def saveSnapshot_def be_List_def Let_def keep_def [symmetric] ops_def [symmetric]
        snaps_def [symmetric] sorted_sort_id) (simp add: snaps_def sorted_sort_id sorted_fm_keys_filter)
  moreover have "snapshot_key now \<notin> set ops" by (simp add: ops_def)
  moreover have "fmlookup ?m3 k = None" if "HasPrefix k ''ops/''" for k
    using that by (auto simp: ops_def fmlookup_dom'_iff split: if_splits)
  moreover have "k \<le> snapshot_key now" if "HasPrefix k ''manifests/snapshot-''" "fmlookup ?m3 k \<noteq> None" for k
    using that max [of k] by (auto split: if_splits)
  ultimately show ?thesis
    by (intro exI [of _ ?m3]) (auto simp del: HasPrefix_append)
qed



text \<open>
  An entry that a device with a slow clock appends after a compaction is not read: its time lies
  before the snapshot's, so the filter of \<open>readEntries\<close> leaves it out, for good. With a snapshot older
  than the entry it is read.
\<close>
lemma s3_late_entry_ignored:
  "let e = example_put\<lparr>oe_Seq := 1, oe_Device := ''B'', oe_Timestamp := 90, oe_Client := []\<rparr>;
       dec = (\<lambda>b. if b = [1] then Some (op_to_json e) else Some (JObj (doc_fields 1 5 (empty_ops 5))));
       append = (\<lambda>t. fst (s3_Append (\<lambda>_. Some [1]) no_faults 90 example_put
                      (s3_New ''B'' [], fmap_of_list [(snapshot_key t, [2])])));
       seen = (\<lambda>t. case s3_Snapshot dec no_faults 200 (append t) of
                  (_, Inr s) \<Rightarrow> os_Lookup s ''d/f'' | _ \<Rightarrow> None)
   in seen 100 = None \<and> seen 80 = Some (file_of_entry e)"
  by code_simp

end
