(* ===== verification/X402_Amounts.thy ===== *)
theory X402_Amounts
  imports Go_Std "HOL-Library.Code_Target_Nat"
begin

text \<open>
  Amounts of USDC in \<open>pkg/x402/budget.go\<close> and \<open>pkg/x402/protocol.go\<close>: a decimal string such as
  \<open>0.005\<close> and the number of micro-USDC (5000) the budget computes with. \<open>*big.Int\<close> values are natural
  numbers here: the parsers accept digits only. Parsing inverts printing, for every amount.
\<close>

definition usdcDecimals :: nat where
  "usdcDecimals = 6"

definition isAllDigits :: "string \<Rightarrow> bool" where
  "isAllDigits s \<longleftrightarrow> s \<noteq> [] \<and> list_all is_digit s"

datatype amount_error = EmptyAmount | BadWhole string | BadFraction string | TooManyDecimals | NotInteger | NotPositive

definition parseUSDC :: "string \<Rightarrow> amount_error + nat" where
  "parseUSDC s0 =
     (let s = TrimSpace s0 in
      if s = [] then Inl EmptyAmount
      else
        (let parts = SplitN 2 (CHR ''.'') s;
             w = TrimSpace (parts ! 0);
             frac = (if length parts = 2 then TrimSpace (parts ! 1) else []);
             whole = (if w = [] then ''0'' else w)
         in if \<not> isAllDigits whole then Inl (BadWhole whole)
            else if frac \<noteq> [] \<and> \<not> isAllDigits frac then Inl (BadFraction frac)
            else if length frac > usdcDecimals then Inl TooManyDecimals
            else
              (let frac6 = frac @ replicate (usdcDecimals - length frac) (CHR ''0'');
                   combined = dropWhile ((=) (CHR ''0'')) (whole @ frac6)
               in Inr (read_nat (if combined = [] then ''0'' else combined)))))"

text \<open>\<open>strings.TrimRight(frac, "0")\<close>.\<close>

definition trim_zeros :: "string \<Rightarrow> string" where
  "trim_zeros s = rev (dropWhile ((=) (CHR ''0'')) (rev s))"

definition formatUSDC :: "nat option \<Rightarrow> string" where
  "formatUSDC v = (case v of
      None \<Rightarrow> ''0''
    | Some n \<Rightarrow>
        (let s0 = show_nat n;
             s = replicate (usdcDecimals + 1 - length s0) (CHR ''0'') @ s0;
             whole = take (length s - usdcDecimals) s;
             frac = trim_zeros (drop (length s - usdcDecimals) s)
         in if frac = [] then whole else whole @ ''.'' @ frac))"

definition parseIntegerBaseUnits :: "string \<Rightarrow> amount_error + nat" where
  "parseIntegerBaseUnits s =
     (let t = TrimSpace s in
      if t = [] then Inl EmptyAmount
      else if \<not> isAllDigits t then Inl NotInteger
      else if read_nat t = 0 then Inl NotPositive
      else Inr (read_nat t))"

definition CompareUSDC :: "string \<Rightarrow> string \<Rightarrow> amount_error + int" where
  "CompareUSDC a b = (case parseUSDC a of
      Inl err \<Rightarrow> Inl err
    | Inr av \<Rightarrow> (case parseUSDC b of
        Inl err \<Rightarrow> Inl err
      | Inr bv \<Rightarrow> Inr (if av < bv then - 1 else if av = bv then 0 else 1)))"

section \<open>Printing and parsing\<close>

lemma digit_not_space: "is_digit c \<Longrightarrow> \<not> is_space c"
  by (auto simp: is_digit_def is_space_def)

lemma TrimSpace_id: "s \<noteq> [] \<Longrightarrow> \<not> is_space (hd s) \<Longrightarrow> \<not> is_space (last s) \<Longrightarrow> TrimSpace s = s"
  by (simp add: TrimSpace_def dropWhile_eq_self_iff [THEN iffD2] hd_rev)

lemma TrimSpace_digits: "list_all is_digit s \<Longrightarrow> TrimSpace s = s"
proof (cases "s = []")
  case False
  assume "list_all is_digit s"
  with False show ?thesis
    by (intro TrimSpace_id) (auto simp: list_all_iff digit_not_space)
qed (simp add: TrimSpace_def)

lemma read_nat_strip: "read_nat (dropWhile ((=) (CHR ''0'')) s) = read_nat s"
proof (induction s)
  case (Cons c s)
  have "read_nat (CHR ''0'' # s) = read_nat s"
    using read_nat_append [of "''0''" s] by (simp add: read_nat_def)
  with Cons show ?case by (cases "CHR ''0'' = c") auto
qed simp

lemma trim_zeros_split: "\<exists>k. s = trim_zeros s @ replicate k (CHR ''0'')"
proof -
  let ?z = "(=) (CHR ''0'')" let ?k = "length (takeWhile ((=) (CHR ''0'')) (rev s))"
  have zeros: "takeWhile ?z (rev s) = replicate ?k (CHR ''0'')"
    by (rule replicate_eqI [symmetric, THEN sym]) (auto dest: set_takeWhileD)
  have "s = rev (takeWhile ?z (rev s) @ dropWhile ?z (rev s))" by simp
  also have "\<dots> = trim_zeros s @ rev (takeWhile ?z (rev s))"
    by (simp only: rev_append trim_zeros_def)
  also have "\<dots> = trim_zeros s @ replicate ?k (CHR ''0'')"
    by (subst zeros) simp
  finally show ?thesis by blast
qed

lemma dot_not_digit: "list_all is_digit w \<Longrightarrow> CHR ''.'' \<notin> set w"
  by (auto simp: list_all_iff is_digit_def)

lemma parse_parts:
  assumes "isAllDigits whole" "list_all is_digit fr" "length fr \<le> 6"
  shows "parseUSDC (if fr = [] then whole else whole @ ''.'' @ fr) =
    Inr (read_nat (whole @ fr @ replicate (6 - length fr) (CHR ''0'')))"
proof -
  have w: "whole \<noteq> []" "list_all is_digit whole" using assms(1) by (auto simp: isAllDigits_def)
  have cut: "Cut (CHR ''.'') whole = None"
  proof (cases "Cut (CHR ''.'') whole")
    case (Some p)
    obtain a b where "p = (a, b)" by (cases p)
    with Some have "whole = a @ CHR ''.'' # b" using Cut_Some by blast
    then have "CHR ''.'' \<in> set whole" by simp
    then show ?thesis using dot_not_digit [OF w(2)] by simp
  qed
  have strip: "read_nat (let c = dropWhile ((=) (CHR ''0'')) s in if c = [] then ''0'' else c) = read_nat s" for s
  proof -
    have "read_nat ''0'' = 0" by (simp add: read_nat_def)
    then show ?thesis
      using read_nat_strip [of s] by (cases "dropWhile ((=) (CHR ''0'')) s = []") (auto simp: Let_def)
  qed
  show ?thesis
  proof (cases "fr = []")
    case True
    with w cut strip [of "whole @ replicate 6 (CHR ''0'')"] show ?thesis
      by (simp add: parseUSDC_def TrimSpace_digits usdcDecimals_def isAllDigits_def Let_def numeral_2_eq_2)
  next
    case False
    let ?s = "whole @ CHR ''.'' # fr"
    have "hd ?s \<in> set whole" "last ?s \<in> set fr" using w(1) False by auto
    then have "TrimSpace ?s = ?s"
      using w(2) assms(2) by (intro TrimSpace_id) (auto simp: list_all_iff digit_not_space)
    moreover have "Cut (CHR ''.'') ?s = Some (whole, fr)"
      using dot_not_digit [OF w(2)] by (rule Cut_append)
    ultimately show ?thesis
      using False w assms strip [of "whole @ fr @ replicate (6 - length fr) (CHR ''0'')"]
      by (simp add: parseUSDC_def TrimSpace_digits usdcDecimals_def isAllDigits_def Let_def numeral_2_eq_2)
  qed
qed

lemma parse_format: "parseUSDC (formatUSDC (Some n)) = Inr n"
proof -
  define s where "s = replicate (7 - length (show_nat n)) (CHR ''0'') @ show_nat n"
  define whole where "whole = take (length s - 6) s"
  define fr where "fr = trim_zeros (drop (length s - 6) s)"
  have digits: "list_all is_digit s"
    by (auto simp: s_def list_all_iff show_nat_digits)
  have len: "7 \<le> length s" by (simp add: s_def)
  obtain k where k: "drop (length s - 6) s = fr @ replicate k (CHR ''0'')"
    using trim_zeros_split unfolding fr_def by blast
  then have k6: "length fr + k = 6"
  proof -
    have "length (drop (length s - 6) s) = 6" using len by simp
    then show ?thesis using arg_cong [OF k, of length] by simp
  qed
  have "isAllDigits whole"
    using len digits by (auto simp: isAllDigits_def whole_def list_all_iff dest: in_set_takeD)
  moreover have "list_all is_digit fr"
    using digits k by (metis append_take_drop_id list_all_append)
  ultimately have "parseUSDC (if fr = [] then whole else whole @ ''.'' @ fr) =
      Inr (read_nat (whole @ fr @ replicate (6 - length fr) (CHR ''0'')))"
    using k6 by (intro parse_parts) auto
  moreover have "whole @ fr @ replicate (6 - length fr) (CHR ''0'') = s"
    using k k6 by (metis add_diff_cancel_left' append_take_drop_id whole_def)
  moreover have "read_nat s = n"
    by (simp add: s_def read_nat_append)
  moreover have "formatUSDC (Some n) = (if fr = [] then whole else whole @ ''.'' @ fr)"
  proof -
    have "(6 :: nat) + 1 = 7" by simp
    then show ?thesis
      unfolding formatUSDC_def Let_def usdcDecimals_def option.case
      by (simp only: s_def [symmetric] whole_def [symmetric] fr_def [symmetric])
  qed
  ultimately show ?thesis by simp
qed

end
