(* ===== verification/X402_Budget.thy ===== *)
theory X402_Budget
  imports X402_Amounts
begin

text \<open>
  The spending budget of \<open>pkg/x402/budget.go\<close>: per-agent caps, the spend of the day and the receipts.
  Time is the Unix second the clock returns; the calendar day in UTC is its quotient by 86400, which
  is compared for equality only. The receipt store is the list of receipts it holds.
\<close>

section \<open>State\<close>

record BudgetConfig =
  bc_PerCallMaxUSDC :: string
  bc_DailyCapUSDC :: string
  bc_PerService :: "(string, string) gomap"

record Receipt =
  rc_Ts :: int
  rc_AgentID :: string
  rc_ServiceID :: string
  rc_Path :: string
  rc_Tx :: string
  rc_Network :: string
  rc_AmountUSDC :: string
  rc_MaxPriceUSDC :: string

record parsedBudget =
  pb_perCallMax :: "nat option"
  pb_dailyCap :: "nat option"
  pb_perService :: "(string, nat) gomap"

record spendDay =
  sd_day :: int
  sd_total :: nat
  sd_per :: "(string, nat) gomap"

record Budget =
  bu_agentConfig :: "(string, parsedBudget) gomap"
  bu_spentToday :: "(string, spendDay) gomap"
  bu_receipts :: "Receipt list"
  bu_store :: "Receipt list option"

datatype cap = PerCallCap | DailyCap | ServiceCap | NoBudget

datatype budget_error =
    InvalidMaxPrice amount_error | InvalidQuote amount_error | InvalidReceipt amount_error
  | InvalidConfig amount_error | ErrPriceQuoteTooHigh | ErrBudgetExceeded cap

section \<open>Operations\<close>

text \<open>\<open>store = None\<close> is the nil store; \<open>load\<close> says whether reading the store succeeds.\<close>

definition NewBudget :: "bool \<Rightarrow> Receipt list option \<Rightarrow> Budget" where
  "NewBudget load store = \<lparr>bu_agentConfig = fmempty, bu_spentToday = fmempty,
     bu_receipts = (case store of Some rs \<Rightarrow> if load then rs else [] | None \<Rightarrow> []), bu_store = store\<rparr>"

fun parse_services :: "(string \<times> string) list \<Rightarrow> budget_error + (string \<times> nat) list" where
  "parse_services [] = Inr []"
| "parse_services ((k, c) # kcs) = (case parseUSDC c of
      Inl err \<Rightarrow> Inl (InvalidConfig err)
    | Inr v \<Rightarrow> (case parse_services kcs of Inl err \<Rightarrow> Inl err | Inr kvs \<Rightarrow> Inr ((k, v) # kvs)))"

definition parseBudget :: "BudgetConfig \<Rightarrow> budget_error + parsedBudget" where
  "parseBudget cfg = (case parseUSDC (bc_PerCallMaxUSDC cfg) of
      Inl err \<Rightarrow> Inl (InvalidConfig err)
    | Inr pc \<Rightarrow> (case parseUSDC (bc_DailyCapUSDC cfg) of
        Inl err \<Rightarrow> Inl (InvalidConfig err)
      | Inr dc \<Rightarrow> (case parse_services (fm_items (bc_PerService cfg)) of
          Inl err \<Rightarrow> Inl err
        | Inr kvs \<Rightarrow> Inr \<lparr>pb_perCallMax = Some pc, pb_dailyCap = Some dc, pb_perService = fmap_of_list kvs\<rparr>)))"

definition SetAgentBudget :: "string \<Rightarrow> BudgetConfig \<Rightarrow> Budget \<Rightarrow> Budget \<times> budget_error option" where
  "SetAgentBudget agentID cfg b = (case parseBudget cfg of
      Inl err \<Rightarrow> (b, Some err)
    | Inr p \<Rightarrow> (b\<lparr>bu_agentConfig := fmupd agentID p (bu_agentConfig b)\<rparr>, None))"

definition day_of :: "int \<Rightarrow> int" where
  "day_of now = now div 86400"

definition dayLocked :: "int \<Rightarrow> string \<Rightarrow> Budget \<Rightarrow> Budget \<times> spendDay" where
  "dayLocked now agentID b =
     (let fresh = \<lparr>sd_day = day_of now, sd_total = 0, sd_per = fmempty\<rparr> in
      case fmlookup (bu_spentToday b) agentID of
        Some d \<Rightarrow> if sd_day d \<noteq> day_of now
                  then (b\<lparr>bu_spentToday := fmupd agentID fresh (bu_spentToday b)\<rparr>, fresh) else (b, d)
      | None \<Rightarrow> (b\<lparr>bu_spentToday := fmupd agentID fresh (bu_spentToday b)\<rparr>, fresh))"

definition spent_on :: "spendDay \<Rightarrow> string \<Rightarrow> nat" where
  "spent_on d serviceID = (case fmlookup (sd_per d) serviceID of None \<Rightarrow> 0 | Some n \<Rightarrow> n)"

definition over :: "nat option \<Rightarrow> nat \<Rightarrow> bool" where
  "over cap n = (case cap of None \<Rightarrow> False | Some c \<Rightarrow> n > c)"

definition Authorize :: "int \<Rightarrow> string \<Rightarrow> string \<Rightarrow> string \<Rightarrow> string \<Rightarrow> Budget \<Rightarrow> Budget \<times> budget_error option" where
  "Authorize now agentID serviceID agentMaxPrice serverQuote b =
     (case parseUSDC agentMaxPrice of
        Inl err \<Rightarrow> (b, Some (InvalidMaxPrice err))
      | Inr mx \<Rightarrow> (case parseUSDC serverQuote of
          Inl err \<Rightarrow> (b, Some (InvalidQuote err))
        | Inr quote \<Rightarrow>
            if quote > mx then (b, Some ErrPriceQuoteTooHigh)
            else (case fmlookup (bu_agentConfig b) agentID of
                None \<Rightarrow> (b, Some (ErrBudgetExceeded NoBudget))
              | Some cfg \<Rightarrow>
                  if over (pb_perCallMax cfg) quote then (b, Some (ErrBudgetExceeded PerCallCap))
                  else (case dayLocked now agentID b of (b1, d) \<Rightarrow>
                    if over (pb_dailyCap cfg) (sd_total d + quote) then (b1, Some (ErrBudgetExceeded DailyCap))
                    else if over (fmlookup (pb_perService cfg) serviceID) (spent_on d serviceID + quote)
                      then (b1, Some (ErrBudgetExceeded ServiceCap))
                    else (b1, None)))))"

text \<open>\<open>io\<close> says whether the store accepts the receipt; a failure is ignored by the source.\<close>

definition Charge :: "int \<Rightarrow> bool \<Rightarrow> Receipt \<Rightarrow> Budget \<Rightarrow> Budget \<times> budget_error option" where
  "Charge now io receipt b = (case parseUSDC (rc_AmountUSDC receipt) of
      Inl err \<Rightarrow> (b, Some (InvalidReceipt err))
    | Inr amount \<Rightarrow> (case dayLocked now (rc_AgentID receipt) b of (b1, d) \<Rightarrow>
        (let d' = d\<lparr>sd_total := sd_total d + amount,
                    sd_per := fmupd (rc_ServiceID receipt) (spent_on d (rc_ServiceID receipt) + amount) (sd_per d)\<rparr>;
             r = (if rc_Ts receipt = zero_time then receipt\<lparr>rc_Ts := now\<rparr> else receipt)
         in (b1\<lparr>bu_spentToday := fmupd (rc_AgentID receipt) d' (bu_spentToday b1),
                bu_receipts := bu_receipts b1 @ [r],
                bu_store := (if io then map_option (\<lambda>rs. rs @ [r]) (bu_store b1) else bu_store b1)\<rparr>, None))))"

definition Receipts :: "string \<Rightarrow> Budget \<Rightarrow> Receipt list" where
  "Receipts agentID b = filter (\<lambda>r. rc_AgentID r = agentID) (bu_receipts b)"

definition AllReceipts :: "Budget \<Rightarrow> Receipt list" where
  "AllReceipts b = rev (bu_receipts b)"

record ServiceSpend =
  ss_ServiceID :: string
  ss_DailyCapUSDC :: string
  ss_SpentTodayUSDC :: string

record BudgetSnapshot =
  bs_PerCallMaxUSDC :: string
  bs_DailyCapUSDC :: string
  bs_SpentTodayUSDC :: string
  bs_PerService :: "ServiceSpend list"

text \<open>The services are listed in the order of the map's \<open>range\<close>; one such order is that of the keys.\<close>

definition budget_Status :: "int \<Rightarrow> string \<Rightarrow> Budget \<Rightarrow> Budget \<times> BudgetSnapshot" where
  "budget_Status now agentID b = (case fmlookup (bu_agentConfig b) agentID of
      None \<Rightarrow> (b, \<lparr>bs_PerCallMaxUSDC = [], bs_DailyCapUSDC = [], bs_SpentTodayUSDC = [], bs_PerService = []\<rparr>)
    | Some cfg \<Rightarrow> (case dayLocked now agentID b of (b1, d) \<Rightarrow>
        (b1, \<lparr>bs_PerCallMaxUSDC = formatUSDC (pb_perCallMax cfg), bs_DailyCapUSDC = formatUSDC (pb_dailyCap cfg),
              bs_SpentTodayUSDC = formatUSDC (Some (sd_total d)),
              bs_PerService = map (\<lambda>(s, c). \<lparr>ss_ServiceID = s, ss_DailyCapUSDC = formatUSDC (Some c),
                 ss_SpentTodayUSDC = formatUSDC (Some (spent_on d s))\<rparr>) (fm_items (pb_perService cfg))\<rparr>)))"

record AggregateSnapshot =
  ag_PerCallMaxUSDC :: string
  ag_DailyCapUSDC :: string
  ag_SpentTodayUSDC :: string
  ag_Agents :: nat

definition max_cap :: "nat option \<Rightarrow> nat option \<Rightarrow> nat option" where
  "max_cap c acc = (case c of None \<Rightarrow> acc | Some n \<Rightarrow>
     (case acc of None \<Rightarrow> Some n | Some m \<Rightarrow> if n > m then Some n else Some m))"

definition AggregateStatus :: "int \<Rightarrow> Budget \<Rightarrow> AggregateSnapshot" where
  "AggregateStatus now b =
     (let cfgs = fm_items (bu_agentConfig b);
          spent = concat (map (\<lambda>(a, _). case fmlookup (bu_spentToday b) a of
                    Some d \<Rightarrow> if sd_day d = day_of now then [sd_total d] else [] | None \<Rightarrow> []) cfgs)
      in \<lparr>ag_PerCallMaxUSDC = formatUSDC (fold (\<lambda>(_, c). max_cap (pb_perCallMax c)) cfgs None),
          ag_DailyCapUSDC = formatUSDC (fold (\<lambda>(_, c). max_cap (pb_dailyCap c)) cfgs None),
          ag_SpentTodayUSDC = formatUSDC (if spent = [] then None else Some (sum_list spent)),
          ag_Agents = fm_size (bu_agentConfig b)\<rparr>)"

section \<open>The caps hold for authorized calls\<close>

definition within_caps :: "parsedBudget \<Rightarrow> spendDay \<Rightarrow> bool" where
  "within_caps cfg d \<longleftrightarrow> \<not> over (pb_dailyCap cfg) (sd_total d) \<and>
     (\<forall>s. \<not> over (fmlookup (pb_perService cfg) s) (spent_on d s))"

definition budget_ok :: "Budget \<Rightarrow> bool" where
  "budget_ok b \<longleftrightarrow> (\<forall>a cfg d. fmlookup (bu_agentConfig b) a = Some cfg \<longrightarrow>
     fmlookup (bu_spentToday b) a = Some d \<longrightarrow> within_caps cfg d)"

text \<open>
  One paid call: it is authorized at a quote and then charged for at most that quote, possibly after
  midnight, with nothing in between.
\<close>

inductive paid_call :: "Budget \<Rightarrow> Budget \<Rightarrow> bool" where
  paid: "Authorize t1 (rc_AgentID r) (rc_ServiceID r) mx quote b = (b1, None) \<Longrightarrow>
    parseUSDC quote = Inr q \<Longrightarrow> parseUSDC (rc_AmountUSDC r) = Inr n \<Longrightarrow> n \<le> q \<Longrightarrow>
    Charge t2 io r b1 = (b2, None) \<Longrightarrow> paid_call b b2"

lemma over_mono: "over c m \<Longrightarrow> m \<le> n \<Longrightarrow> over c n"
  by (auto simp: over_def split: option.splits)

lemma dayLocked_cases:
  assumes "dayLocked now a b = (b1, d)"
  shows "bu_agentConfig b1 = bu_agentConfig b" "sd_day d = day_of now"
    "bu_spentToday b1 = fmupd a d (bu_spentToday b) \<or> bu_spentToday b1 = bu_spentToday b"
    "fmlookup (bu_spentToday b1) a = Some d"
    "fmlookup (bu_spentToday b) a = Some d \<or> (sd_total d = 0 \<and> sd_per d = fmempty)"
  using assms by (auto simp: dayLocked_def Let_def split: option.splits if_splits)

lemma spent_on_empty [simp]: "sd_per d = fmempty \<Longrightarrow> spent_on d s = 0"
  by (simp add: spent_on_def)

lemma zero_within: "\<not> over c n \<Longrightarrow> \<not> over c 0"
  by (auto simp: over_def split: option.splits)

lemma Authorize_ok:
  assumes "Authorize now a s mx quote b = (b1, None)" "parseUSDC quote = Inr q"
  obtains cfg d where "fmlookup (bu_agentConfig b) a = Some cfg" "dayLocked now a b = (b1, d)"
    "\<not> over (pb_perCallMax cfg) q" "\<not> over (pb_dailyCap cfg) (sd_total d + q)"
    "\<not> over (fmlookup (pb_perService cfg) s) (spent_on d s + q)"
  using assms by (auto simp: Authorize_def split: sum.splits option.splits prod.splits if_splits)

lemma Authorize_keeps:
  "Authorize now a s mx quote b = (b1, res) \<Longrightarrow> bu_agentConfig b1 = bu_agentConfig b \<and> bu_receipts b1 = bu_receipts b"
  by (auto simp: Authorize_def dayLocked_def Let_def split: sum.splits option.splits prod.splits if_splits)

lemma within_caps_fresh [simp]: "sd_total d = 0 \<Longrightarrow> sd_per d = fmempty \<Longrightarrow> within_caps cfg d"
  by (simp add: within_caps_def over_def split: option.split)

lemma dayLocked_ok:
  assumes "dayLocked now a b = (b1, d)" "budget_ok b"
  shows "budget_ok b1"
  using dayLocked_cases [OF assms(1)] assms(2) unfolding budget_ok_def
  by (metis fmupd_lookup option.inject within_caps_fresh)

lemma Charge_ok:
  assumes "budget_ok b" "fmlookup (bu_agentConfig b) (rc_AgentID r) = Some cfg"
    and d: "fmlookup (bu_spentToday b) (rc_AgentID r) = Some d"
      "\<not> over (pb_dailyCap cfg) (sd_total d + n)"
      "\<not> over (fmlookup (pb_perService cfg) (rc_ServiceID r)) (spent_on d (rc_ServiceID r) + n)"
    and "parseUSDC (rc_AmountUSDC r) = Inr n" "Charge now io r b = (b2, None)"
  shows "budget_ok b2 \<and> bu_agentConfig b2 = bu_agentConfig b"
proof -
  obtain b1 d1 where day: "dayLocked now (rc_AgentID r) b = (b1, d1)" by (metis surj_pair)
  note D = dayLocked_cases [OF day]
  have "budget_ok b1" using day assms(1) by (rule dayLocked_ok)
  define d' where "d' = d1\<lparr>sd_total := sd_total d1 + n,
      sd_per := fmupd (rc_ServiceID r) (spent_on d1 (rc_ServiceID r) + n) (sd_per d1)\<rparr>"
  have b2: "bu_spentToday b2 = fmupd (rc_AgentID r) d' (bu_spentToday b1)" "bu_agentConfig b2 = bu_agentConfig b"
    using assms(6,7) day D(1) by (auto simp: Charge_def Let_def d'_def)
  have le: "sd_total d1 \<le> sd_total d" "spent_on d1 s \<le> spent_on d s" for s
    using D(5) d(1) by auto
  have "within_caps cfg d'"
    unfolding within_caps_def
  proof (intro conjI allI)
    show "\<not> over (pb_dailyCap cfg) (sd_total d')"
      using d(2) le(1) over_mono [of "pb_dailyCap cfg" "sd_total d1 + n" "sd_total d + n"] by (auto simp: d'_def)
    show "\<not> over (fmlookup (pb_perService cfg) s) (spent_on d' s)" for s
    proof (cases "s = rc_ServiceID r")
      case True
      then show ?thesis
        using d(3) le(2) [of s] over_mono [of "fmlookup (pb_perService cfg) s" "spent_on d1 s + n" "spent_on d s + n"]
        by (auto simp: d'_def spent_on_def)
    next
      case False
      have "within_caps cfg d1"
        using \<open>budget_ok b1\<close> D(1,4) assms(2) by (auto simp: budget_ok_def)
      with False show ?thesis by (auto simp: d'_def spent_on_def within_caps_def)
    qed
  qed
  then show ?thesis
    using \<open>budget_ok b1\<close> b2 D(1) assms(2) by (auto simp: budget_ok_def)
qed

lemma paid_call_ok:
  assumes "paid_call b b'" "budget_ok b"
  shows "budget_ok b' \<and> bu_agentConfig b' = bu_agentConfig b"
  using assms
proof cases
  case (paid t1 r mx quote b1 q n t2 io)
  obtain cfg d where a: "fmlookup (bu_agentConfig b) (rc_AgentID r) = Some cfg"
    "dayLocked t1 (rc_AgentID r) b = (b1, d)" "\<not> over (pb_dailyCap cfg) (sd_total d + q)"
    "\<not> over (fmlookup (pb_perService cfg) (rc_ServiceID r)) (spent_on d (rc_ServiceID r) + q)"
    using paid(1,2) by (rule Authorize_ok)
  note D = dayLocked_cases [OF a(2)]
  have "budget_ok b1" using a(2) assms(2) by (rule dayLocked_ok)
  moreover have "\<not> over (pb_dailyCap cfg) (sd_total d + n)"
    "\<not> over (fmlookup (pb_perService cfg) (rc_ServiceID r)) (spent_on d (rc_ServiceID r) + n)"
    using a(3,4) paid(4) over_mono by (metis add_left_mono)+
  ultimately show ?thesis
    using Charge_ok [of b1 r cfg d n t2 io b'] a(1) D paid(3,5) by simp
qed

lemma paid_calls_ok:
  "paid_call\<^sup>*\<^sup>* b b' \<Longrightarrow> budget_ok b \<Longrightarrow> budget_ok b' \<and> bu_agentConfig b' = bu_agentConfig b"
  by (induction rule: rtranclp_induct) (auto dest: paid_call_ok)

text \<open>
  C27. The caps hold. Starting with nothing spent, after any number of calls that are each authorized
  and then charged for at most the authorized quote, in whatever order over agents, services and
  days, no agent's spend of a day exceeds its daily cap or the cap of a service.
\<close>
theorem budget_caps_hold:
  assumes "paid_call\<^sup>*\<^sup>* b0 b" and "bu_spentToday b0 = fmempty"
    and "fmlookup (bu_agentConfig b0) a = Some cfg" and "fmlookup (bu_spentToday b) a = Some d"
  shows "(\<forall>c. pb_dailyCap cfg = Some c \<longrightarrow> sd_total d \<le> c) \<and>
    (\<forall>s c. fmlookup (pb_perService cfg) s = Some c \<longrightarrow> spent_on d s \<le> c)"
proof -
  have "budget_ok b0" using assms(2) by (simp add: budget_ok_def)
  then have "within_caps cfg d"
    using paid_calls_ok [OF assms(1)] assms(3,4) by (auto simp: budget_ok_def)
  then show ?thesis by (fastforce simp: within_caps_def over_def not_less split: option.splits)
qed

definition example_config :: BudgetConfig where
  "example_config = \<lparr>bc_PerCallMaxUSDC = ''0.10'', bc_DailyCapUSDC = ''1'', bc_PerService = fmap_of_list [(''s'', ''.15'')]\<rparr>"

definition example_budget :: Budget where
  "example_budget = fst (SetAgentBudget ''agent'' example_config (NewBudget True (Some [])))"

definition example_receipt :: "string \<Rightarrow> Receipt" where
  "example_receipt amount = \<lparr>rc_Ts = 100, rc_AgentID = ''agent'', rc_ServiceID = ''s'', rc_Path = ''/p'',
     rc_Tx = [], rc_Network = ''base'', rc_AmountUSDC = amount, rc_MaxPriceUSDC = ''0.10''\<rparr>"

lemma example_paid:
  "paid_call example_budget (fst (Charge 101 True (example_receipt ''0.08'')
     (fst (Authorize 100 ''agent'' ''s'' ''0.10'' ''0.1'' example_budget))))"
proof (rule paid)
  show "Authorize 100 (rc_AgentID (example_receipt ''0.08'')) (rc_ServiceID (example_receipt ''0.08'')) ''0.10'' ''0.1'' example_budget =
    (fst (Authorize 100 ''agent'' ''s'' ''0.10'' ''0.1'' example_budget), None)" by code_simp
  show "parseUSDC ''0.1'' = Inr 100000" by code_simp
  show "parseUSDC (rc_AmountUSDC (example_receipt ''0.08'')) = Inr 80000" by code_simp
  show "Charge 101 True (example_receipt ''0.08'') (fst (Authorize 100 ''agent'' ''s'' ''0.10'' ''0.1'' example_budget)) =
    (fst (Charge 101 True (example_receipt ''0.08'') (fst (Authorize 100 ''agent'' ''s'' ''0.10'' ''0.1'' example_budget))), None)"
    by code_simp
qed simp

theorem budget_caps_hold_witness:
  "let b = fst (Charge 101 True (example_receipt ''0.08'') (fst (Authorize 100 ''agent'' ''s'' ''0.10'' ''0.1'' example_budget)));
       d = the (fmlookup (bu_spentToday b) ''agent'')
   in sd_total d = 80000 \<and> sd_total d \<le> 1000000 \<and> spent_on d ''s'' \<le> 150000"
proof -
  define b where "b = fst (Charge 101 True (example_receipt ''0.08'') (fst (Authorize 100 ''agent'' ''s'' ''0.10'' ''0.1'' example_budget)))"
  define d where "d = the (fmlookup (bu_spentToday b) ''agent'')"
  define cfg where "cfg = the (fmlookup (bu_agentConfig example_budget) ''agent'')"
  have run: "paid_call\<^sup>*\<^sup>* example_budget b"
    unfolding b_def by (rule r_into_rtranclp) (rule example_paid)
  have "bu_spentToday example_budget = fmempty" by code_simp
  moreover have "fmlookup (bu_agentConfig example_budget) ''agent'' = Some cfg"
    unfolding cfg_def by code_simp
  moreover have "fmlookup (bu_spentToday b) ''agent'' = Some d" unfolding d_def b_def by code_simp
  moreover have "pb_dailyCap cfg = Some 1000000" "fmlookup (pb_perService cfg) ''s'' = Some 150000"
    unfolding cfg_def by code_simp+
  moreover have "sd_total d = 80000" unfolding d_def b_def by code_simp
  ultimately show ?thesis
    using budget_caps_hold [OF run, of "''agent''" cfg d] unfolding Let_def b_def [symmetric] d_def [symmetric] by simp
qed

text \<open>
  Two concurrent calls of one agent are both authorized before either is charged, and together exceed
  the cap of the service: \<open>Authorize\<close> reserves nothing.
\<close>
lemma concurrent_calls_exceed_cap:
  "let b1 = fst (Authorize 100 ''agent'' ''s'' ''0.10'' ''0.1'' example_budget);
       b2 = fst (Authorize 100 ''agent'' ''s'' ''0.10'' ''0.1'' b1);
       b3 = fst (Charge 101 True (example_receipt ''0.1'') b2);
       b4 = fst (Charge 101 True (example_receipt ''0.1'') b3)
   in snd (Authorize 100 ''agent'' ''s'' ''0.10'' ''0.1'' example_budget) = None \<and>
      snd (Authorize 100 ''agent'' ''s'' ''0.10'' ''0.1'' b1) = None \<and>
      map_option (\<lambda>d. spent_on d ''s'') (fmlookup (bu_spentToday b4) ''agent'') = Some 200000"
  by code_simp

text \<open>
  A restart forgets the spend of the day: \<open>NewBudget\<close> loads the receipts and starts with empty
  counters, so that a call the running daemon refuses is authorized again.
\<close>
lemma restart_forgets_spend:
  "let b1 = fst (Charge 101 True (example_receipt ''0.1'') example_budget);
       b2 = fst (SetAgentBudget ''agent'' example_config (NewBudget True (bu_store b1)))
   in snd (Authorize 102 ''agent'' ''s'' ''0.10'' ''0.1'' b1) = Some (ErrBudgetExceeded ServiceCap) \<and>
      bu_receipts b2 = bu_receipts b1 \<and>
      snd (Authorize 102 ''agent'' ''s'' ''0.10'' ''0.1'' b2) = None"
  by code_simp

text \<open>
  Amounts survive printing: parsing the decimal text that \<open>formatUSDC\<close> prints gives the amount
  back, for every number of micro-USDC, so that a receipt whose amount the transport filled in is
  charged exactly.
\<close>
lemma usdc_roundtrip: "parseUSDC (formatUSDC (Some n)) = Inr n \<and> CompareUSDC (formatUSDC (Some n)) (formatUSDC (Some m)) =
    Inr (if n < m then - 1 else if n = m then 0 else 1)"
  by (simp add: parse_format CompareUSDC_def)

end
