(* ===== verification/X402_Registry.thy ===== *)
theory X402_Registry
  imports X402_Budget "HOL-Library.Product_Lexorder"
begin

text \<open>
  The service registry of \<open>pkg/x402/registry.go\<close> and the manifest pins of \<open>pkg/x402/pin.go\<close>: the
  catalog, the approvals of agents with the manifest each one pinned, and the services the user enabled
  for all agents. \<open>url.Parse\<close> and SHA-256 are parameters: \<open>host\<close> extracts the host of an endpoint, or
  fails, and \<open>digest\<close> hashes a canonical manifest. The store holds the snapshot last saved.
\<close>

section \<open>Data\<close>

record ServiceEndpoint =
  se_URL :: string
  se_Method :: string
  se_Description :: string
  se_PriceUSDC :: string
  se_Network :: string

record ServiceManifest =
  sm_ID :: string
  sm_DisplayName :: string
  sm_Category :: string
  sm_Description :: string
  sm_Endpoint :: string
  sm_ServiceURL :: string
  sm_Endpoints :: "ServiceEndpoint list"
  sm_Networks :: "string list"
  sm_Protocols :: "string list"
  sm_MaxPriceUSDC :: string
  sm_UpdatedAt :: int
  sm_SIWXDomain :: string

record Pin =
  pin_ServiceID :: string
  pin_EndpointHost :: string
  pin_ManifestHash :: string
  pin_MaxPriceUSDC :: string

record Approval =
  ap_AgentID :: string
  ap_ServiceID :: string
  ap_ApprovedAt :: int
  ap_MaxPriceUSDC :: string
  ap_Tier :: string

record PolicyEntry =
  pe_ServiceID :: string
  pe_Tier :: string
  pe_DefaultOn :: bool
  pe_Hint :: string

record UserEnableRecord =
  ue_ServiceID :: string
  ue_EnabledAt :: int
  ue_MaxPriceUSDC :: string
  ue_Pin :: Pin

record RegistrySnapshot =
  sn_Manifests :: "ServiceManifest list"
  sn_Policy :: "PolicyEntry list"
  sn_Approvals :: "Approval list"
  sn_Pins :: "Pin list"
  sn_UserEnabled :: "UserEnableRecord list"

record Registry =
  rg_manifests :: "(string, ServiceManifest) gomap"
  rg_policy :: "(string, PolicyEntry) gomap"
  rg_approvals :: "(string \<times> string, Approval) gomap"
  rg_pins :: "(string \<times> string, Pin) gomap"
  rg_userEnabled :: "(string, UserEnableRecord) gomap"
  rg_store :: "RegistrySnapshot option"

datatype registry_error =
    ErrServiceUnknown | ErrServiceNotApproved | ErrPinMismatch | BadEndpoint | MissingID | SaveFail

section \<open>Pins\<close>

text \<open>
  The canonical form clears the display-only fields before hashing. \<open>host\<close> stands for
  \<open>url.Parse(strings.TrimSpace(endpoint)).Host\<close>.
\<close>

definition canonicalManifest :: "ServiceManifest \<Rightarrow> ServiceManifest" where
  "canonicalManifest m = m\<lparr>sm_UpdatedAt := zero_time, sm_ServiceURL := [], sm_Endpoints := [], sm_Protocols := []\<rparr>"

definition manifestHash :: "(ServiceManifest \<Rightarrow> string) \<Rightarrow> ServiceManifest \<Rightarrow> string" where
  "manifestHash digest m = ''sha256:'' @ digest (canonicalManifest m)"

definition manifestHost :: "(string \<Rightarrow> string option) \<Rightarrow> ServiceManifest \<Rightarrow> registry_error + string" where
  "manifestHost host m = (case host (TrimSpace (sm_Endpoint m)) of
      None \<Rightarrow> Inl BadEndpoint
    | Some h \<Rightarrow> if h = [] then Inl BadEndpoint else Inr (ToLower h))"

definition PinFromManifest ::
  "(string \<Rightarrow> string option) \<Rightarrow> (ServiceManifest \<Rightarrow> string) \<Rightarrow> ServiceManifest \<Rightarrow> registry_error + Pin" where
  "PinFromManifest host digest m = (case manifestHost host m of
      Inl err \<Rightarrow> Inl err
    | Inr h \<Rightarrow> Inr \<lparr>pin_ServiceID = sm_ID m, pin_EndpointHost = h,
        pin_ManifestHash = manifestHash digest m, pin_MaxPriceUSDC = sm_MaxPriceUSDC m\<rparr>)"

definition Pin_Verify ::
  "(string \<Rightarrow> string option) \<Rightarrow> (ServiceManifest \<Rightarrow> string) \<Rightarrow> Pin \<Rightarrow> ServiceManifest \<Rightarrow> registry_error option" where
  "Pin_Verify host digest p m =
     (if sm_ID m \<noteq> pin_ServiceID p then Some ErrPinMismatch
      else case manifestHost host m of
        Inl err \<Rightarrow> Some err
      | Inr h \<Rightarrow>
          if h \<noteq> pin_EndpointHost p then Some ErrPinMismatch
          else if manifestHash digest m \<noteq> pin_ManifestHash p then Some ErrPinMismatch
          else None)"

section \<open>Persistence\<close>

text \<open>
  \<open>persistLocked\<close> sorts every list. Pins are sorted by service only; among equal services Go leaves
  the order open, here it is that of the agents.
\<close>

definition registry_snapshot :: "Registry \<Rightarrow> RegistrySnapshot" where
  "registry_snapshot r = \<lparr>
     sn_Manifests = sort_key sm_ID (map snd (fm_items (rg_manifests r))),
     sn_Policy = sort_key pe_ServiceID (map snd (fm_items (rg_policy r))),
     sn_Approvals = sort_key (\<lambda>a. (ap_AgentID a, ap_ServiceID a)) (map snd (fm_items (rg_approvals r))),
     sn_Pins = sort_key pin_ServiceID (map snd (fm_items (rg_pins r))),
     sn_UserEnabled = sort_key ue_ServiceID (map snd (fm_items (rg_userEnabled r)))\<rparr>"

definition persistLocked :: "bool \<Rightarrow> Registry \<Rightarrow> Registry \<times> registry_error option" where
  "persistLocked io r = (case rg_store r of
      None \<Rightarrow> (r, None)
    | Some _ \<Rightarrow> if io then (r\<lparr>rg_store := Some (registry_snapshot r)\<rparr>, None) else (r, Some SaveFail))"

fun agentApprovalAgentForPin :: "Pin \<Rightarrow> Approval list \<Rightarrow> string" where
  "agentApprovalAgentForPin p [] = []"
| "agentApprovalAgentForPin p (a # as) =
     (if ap_ServiceID a = pin_ServiceID p then ap_AgentID a else agentApprovalAgentForPin p as)"

definition load_map :: "('v \<Rightarrow> 'k) \<Rightarrow> 'v list \<Rightarrow> ('k, 'v) gomap" where
  "load_map key vs = fold (\<lambda>v. fmupd (key v) v) vs fmempty"

definition NewRegistry :: "RegistrySnapshot option \<Rightarrow> Registry" where
  "NewRegistry store = (case store of
      None \<Rightarrow> \<lparr>rg_manifests = fmempty, rg_policy = fmempty, rg_approvals = fmempty, rg_pins = fmempty,
              rg_userEnabled = fmempty, rg_store = None\<rparr>
    | Some s \<Rightarrow> \<lparr>
        rg_manifests = load_map sm_ID (sn_Manifests s),
        rg_policy = load_map pe_ServiceID (sn_Policy s),
        rg_approvals = load_map (\<lambda>a. (ap_AgentID a, ap_ServiceID a)) (sn_Approvals s),
        rg_pins = load_map (\<lambda>p. (agentApprovalAgentForPin p (sn_Approvals s), pin_ServiceID p)) (sn_Pins s),
        rg_userEnabled = load_map ue_ServiceID (sn_UserEnabled s),
        rg_store = Some s\<rparr>)"

section \<open>Operations\<close>

definition AddManifest :: "bool \<Rightarrow> ServiceManifest \<Rightarrow> Registry \<Rightarrow> Registry \<times> registry_error option" where
  "AddManifest io m r =
     (if sm_ID m = [] then (r, Some MissingID)
      else persistLocked io (r\<lparr>rg_manifests := fmupd (sm_ID m) m (rg_manifests r)\<rparr>))"

definition SetPolicy :: "bool \<Rightarrow> PolicyEntry \<Rightarrow> Registry \<Rightarrow> Registry \<times> registry_error option" where
  "SetPolicy io p r =
     (if pe_ServiceID p = [] then (r, Some MissingID)
      else persistLocked io (r\<lparr>rg_policy := fmupd (pe_ServiceID p) p (rg_policy r)\<rparr>))"

definition registry_Manifest :: "string \<Rightarrow> Registry \<Rightarrow> registry_error + ServiceManifest" where
  "registry_Manifest serviceID r = (case fmlookup (rg_manifests r) serviceID of
      None \<Rightarrow> Inl ErrServiceUnknown | Some m \<Rightarrow> Inr m)"

definition Approve ::
  "(string \<Rightarrow> string option) \<Rightarrow> (ServiceManifest \<Rightarrow> string) \<Rightarrow> int \<Rightarrow> bool \<Rightarrow> string \<Rightarrow> string \<Rightarrow> string \<Rightarrow> Registry
    \<Rightarrow> Registry \<times> registry_error option" where
  "Approve host digest now io agentID serviceID maxPrice r =
     (case fmlookup (rg_manifests r) serviceID of
        None \<Rightarrow> (r, Some ErrServiceUnknown)
      | Some m \<Rightarrow> (case PinFromManifest host digest m of
          Inl err \<Rightarrow> (r, Some err)
        | Inr pin \<Rightarrow>
            (let tier = (case fmlookup (rg_policy r) serviceID of Some p \<Rightarrow> pe_Tier p | None \<Rightarrow> ''convenience'');
                 a = \<lparr>ap_AgentID = agentID, ap_ServiceID = serviceID, ap_ApprovedAt = now,
                      ap_MaxPriceUSDC = maxPrice, ap_Tier = tier\<rparr>
             in persistLocked io (r\<lparr>rg_approvals := fmupd (agentID, serviceID) a (rg_approvals r),
                                     rg_pins := fmupd (agentID, serviceID) pin (rg_pins r)\<rparr>))))"

definition Revoke :: "bool \<Rightarrow> string \<Rightarrow> string \<Rightarrow> Registry \<Rightarrow> Registry \<times> registry_error option" where
  "Revoke io agentID serviceID r =
     persistLocked io (r\<lparr>rg_approvals := fmdrop (agentID, serviceID) (rg_approvals r),
                         rg_pins := fmdrop (agentID, serviceID) (rg_pins r)\<rparr>)"

definition SetUserEnabled ::
  "(string \<Rightarrow> string option) \<Rightarrow> (ServiceManifest \<Rightarrow> string) \<Rightarrow> int \<Rightarrow> bool \<Rightarrow> string \<Rightarrow> string \<Rightarrow> Registry
    \<Rightarrow> Registry \<times> registry_error option" where
  "SetUserEnabled host digest now io serviceID maxPrice r =
     (case fmlookup (rg_manifests r) serviceID of
        None \<Rightarrow> (r, Some ErrServiceUnknown)
      | Some m \<Rightarrow> (case PinFromManifest host digest m of
          Inl err \<Rightarrow> (r, Some err)
        | Inr pin \<Rightarrow> persistLocked io (r\<lparr>rg_userEnabled := fmupd serviceID
            \<lparr>ue_ServiceID = serviceID, ue_EnabledAt = now,
             ue_MaxPriceUSDC = (if maxPrice = [] then sm_MaxPriceUSDC m else maxPrice), ue_Pin = pin\<rparr>
            (rg_userEnabled r)\<rparr>)))"

definition SetUserDisabled :: "bool \<Rightarrow> string \<Rightarrow> Registry \<Rightarrow> Registry \<times> registry_error option" where
  "SetUserDisabled io serviceID r = persistLocked io (r\<lparr>rg_userEnabled := fmdrop serviceID (rg_userEnabled r)\<rparr>)"

definition registry_Approval :: "string \<Rightarrow> string \<Rightarrow> Registry \<Rightarrow> registry_error + Approval" where
  "registry_Approval agentID serviceID r = (case fmlookup (rg_approvals r) (agentID, serviceID) of
      None \<Rightarrow> Inl ErrServiceNotApproved | Some a \<Rightarrow> Inr a)"

definition registry_Pin :: "string \<Rightarrow> string \<Rightarrow> Registry \<Rightarrow> registry_error + Pin" where
  "registry_Pin agentID serviceID r = (case fmlookup (rg_pins r) (agentID, serviceID) of
      None \<Rightarrow> Inl ErrServiceNotApproved | Some p \<Rightarrow> Inr p)"

definition UserEnabled :: "string \<Rightarrow> Registry \<Rightarrow> UserEnableRecord option" where
  "UserEnabled serviceID r = fmlookup (rg_userEnabled r) serviceID"

definition resolveAuthorization :: "string \<Rightarrow> string \<Rightarrow> Registry \<Rightarrow> registry_error + Pin" where
  "resolveAuthorization agentID serviceID r = (case registry_Approval agentID serviceID r of
      Inr _ \<Rightarrow> registry_Pin agentID serviceID r
    | Inl _ \<Rightarrow> (case UserEnabled serviceID r of Some u \<Rightarrow> Inr (ue_Pin u) | None \<Rightarrow> Inl ErrServiceNotApproved))"

section \<open>The invariant\<close>

text \<open>Every record stands under its own key, and an agent has a pin exactly where it has an approval.\<close>

definition registry_inv :: "Registry \<Rightarrow> bool" where
  "registry_inv r \<longleftrightarrow>
     (\<forall>k m. fmlookup (rg_manifests r) k = Some m \<longrightarrow> sm_ID m = k) \<and>
     (\<forall>k p. fmlookup (rg_policy r) k = Some p \<longrightarrow> pe_ServiceID p = k) \<and>
     (\<forall>k a. fmlookup (rg_approvals r) k = Some a \<longrightarrow> (ap_AgentID a, ap_ServiceID a) = k) \<and>
     (\<forall>k p. fmlookup (rg_pins r) k = Some p \<longrightarrow> pin_ServiceID p = snd k) \<and>
     (\<forall>k u. fmlookup (rg_userEnabled r) k = Some u \<longrightarrow> ue_ServiceID u = k) \<and>
     fmdom (rg_pins r) = fmdom (rg_approvals r)"

lemma persist_sel [simp]:
  "rg_manifests (fst (persistLocked io r)) = rg_manifests r" "rg_policy (fst (persistLocked io r)) = rg_policy r"
  "rg_approvals (fst (persistLocked io r)) = rg_approvals r" "rg_pins (fst (persistLocked io r)) = rg_pins r"
  "rg_userEnabled (fst (persistLocked io r)) = rg_userEnabled r"
  by (simp_all add: persistLocked_def split: option.split)

lemma PinFromManifest_ID: "PinFromManifest host digest m = Inr p \<Longrightarrow> pin_ServiceID p = sm_ID m"
  by (auto simp: PinFromManifest_def split: sum.splits)

inductive registry_step :: "Registry \<Rightarrow> Registry \<Rightarrow> bool" where
  "registry_step r (fst (AddManifest io m r))"
| "registry_step r (fst (SetPolicy io p r))"
| "registry_step r (fst (Approve host digest now io a s mx r))"
| "registry_step r (fst (Revoke io a s r))"
| "registry_step r (fst (SetUserEnabled host digest now io s mx r))"
| "registry_step r (fst (SetUserDisabled io s r))"

lemma registry_step_inv:
  assumes "registry_step r r'" "registry_inv r"
  shows "registry_inv r'"
  using assms
proof (induction rule: registry_step.induct)
  case (3 r host digest now io a s mx)
  then have "sm_ID m = s" if "fmlookup (rg_manifests r) s = Some m" for m
    using that by (simp add: registry_inv_def)
  with 3 show ?case
    by (auto simp: Approve_def registry_inv_def Let_def dest: PinFromManifest_ID split: option.split sum.split)
next
  case (5 r host digest now io s mx)
  then show ?case
    by (auto simp: SetUserEnabled_def registry_inv_def split: option.split sum.split)
qed (auto simp: AddManifest_def SetPolicy_def Revoke_def SetUserDisabled_def registry_inv_def)

lemma registry_steps_inv: "registry_step\<^sup>*\<^sup>* r r' \<Longrightarrow> registry_inv r \<Longrightarrow> registry_inv r'"
  by (induction rule: rtranclp_induct) (auto intro: registry_step_inv)

lemma new_registry_inv: "registry_inv (NewRegistry None)"
  by (simp add: NewRegistry_def registry_inv_def)

section \<open>Reloading\<close>

lemma load_map_snoc [simp]:
  "load_map key [] = fmempty" "load_map key (vs @ [v]) = fmupd (key v) v (load_map key vs)"
  by (simp_all add: load_map_def)

lemma load_map_Some: "fmlookup (load_map key vs) k = Some v \<Longrightarrow> v \<in> set vs \<and> key v = k"
  by (induction vs rule: rev_induct) (auto split: if_splits)

lemma load_map_mem: "v \<in> set vs \<Longrightarrow> fmlookup (load_map key vs) (key v) \<noteq> None"
  by (induction vs rule: rev_induct) auto

lemma load_map_eq:
  assumes "\<And>v. v \<in> set vs \<Longrightarrow> fmlookup m (key v) = Some v"
    and "\<And>k v. fmlookup m k = Some v \<Longrightarrow> v \<in> set vs \<and> key v = k"
  shows "load_map key vs = m"
proof (rule fmap_ext)
  fix k
  show "fmlookup (load_map key vs) k = fmlookup m k"
  proof (cases "fmlookup (load_map key vs) k")
    case None
    then have "fmlookup m k = None"
      using assms(2) [of k] load_map_mem [of _ vs key] by (metis not_None_eq)
    with None show ?thesis by simp
  next
    case (Some v)
    with load_map_Some [OF Some] assms(1) [of v] show ?thesis by simp
  qed
qed

lemma range_of_items: "fmlookup m k = Some v \<Longrightarrow> v \<in> snd ` set (fm_items m)"
  by (rule image_eqI [of _ _ "(k, v)"]) simp_all

lemma load_sorted:
  assumes "\<And>k v. fmlookup m k = Some v \<Longrightarrow> key v = k"
  shows "load_map key (sort_key f (map snd (fm_items m))) = m"
proof (rule load_map_eq)
  show "v \<in> set (sort_key f (map snd (fm_items m))) \<and> key v = k" if "fmlookup m k = Some v" for k v
    using assms [OF that] range_of_items [OF that] by simp
qed (use assms in auto)

lemma agent_for_pin:
  "(\<And>a'. a' \<in> set as \<Longrightarrow> ap_ServiceID a' = pin_ServiceID p \<Longrightarrow> ap_AgentID a' = x) \<Longrightarrow>
   (\<exists>a'\<in>set as. ap_ServiceID a' = pin_ServiceID p) \<Longrightarrow> agentApprovalAgentForPin p as = x"
  by (induction as) auto

definition one_agent_per_service :: "Registry \<Rightarrow> bool" where
  "one_agent_per_service r \<longleftrightarrow> distinct (map (snd \<circ> fst) (fm_items (rg_approvals r)))"

lemma one_agent:
  assumes "one_agent_per_service r" "fmlookup (rg_approvals r) (a, s) \<noteq> None" "fmlookup (rg_approvals r) (b, s) \<noteq> None"
  shows "a = b"
proof -
  have "inj_on snd (fmdom' (rg_approvals r))"
    using assms(1) by (simp add: one_agent_per_service_def fm_items_eq range_items_def comp_def distinct_map)
  then show ?thesis
    using assms(2,3) inj_onD [of snd "fmdom' (rg_approvals r)" "(a, s)" "(b, s)"]
    by (auto simp: fmlookup_dom'_iff)
qed


definition example_manifest :: ServiceManifest where
  "example_manifest = \<lparr>sm_ID = ''s'', sm_DisplayName = [], sm_Category = [], sm_Description = [],
     sm_Endpoint = ''https://s.example'', sm_ServiceURL = [], sm_Endpoints = [], sm_Networks = [''base''],
     sm_Protocols = [], sm_MaxPriceUSDC = ''0.01'', sm_UpdatedAt = 0, sm_SIWXDomain = []\<rparr>"

definition example_registry :: "string list \<Rightarrow> Registry" where
  "example_registry agents =
     fold (\<lambda>a r. fst (Approve (\<lambda>_. Some ''s.example'') sm_Endpoint 5 True a ''s'' ''0.01'' r)) agents
       (fst (AddManifest True example_manifest (NewRegistry None)))"

lemma example_registry_reachable: "registry_step\<^sup>*\<^sup>* (NewRegistry None) (example_registry agents)"
proof -
  have "registry_step\<^sup>*\<^sup>* r (fold (\<lambda>a r. fst (Approve (\<lambda>_. Some ''s.example'') sm_Endpoint 5 True a ''s'' ''0.01'' r)) agents r)" for r
  proof (induction agents arbitrary: r)
    case (Cons a agents)
    have "registry_step r (fst (Approve (\<lambda>_. Some ''s.example'') sm_Endpoint 5 True a ''s'' ''0.01'' r))"
      by (rule registry_step.intros)
    from converse_rtranclp_into_rtranclp [OF this Cons] show ?case by simp
  qed simp
  note steps = this
  have "registry_step (NewRegistry None) (fst (AddManifest True example_manifest (NewRegistry None)))"
    by (rule registry_step.intros)
  from converse_rtranclp_into_rtranclp [OF this steps] show ?thesis
    unfolding example_registry_def .
qed



end
