(* ===== verification/X402_Backend.thy ===== *)
theory X402_Backend
  imports X402_Registry
begin

text \<open>
  One paid service call: \<open>Backend.StreamCall\<close> (\<open>pkg/x402/backend.go\<close>) over \<open>Transport.Stream\<close>
  (\<open>pkg/x402/transport.go\<close>) and the choice of a payment requirement (\<open>pkg/x402/protocol.go\<close>). The
  service at the other end is a parameter that answers a request, with its headers already parsed:
  the 402 challenge, the MPP challenges and the receipts. Signers are parameters too. Beside its
  result, the model returns the amounts (in micro-USDC, as the service asked for them) that were
  signed on the way.
\<close>

section \<open>Payment requirements\<close>

record PaymentRequirements =
  pr_Scheme :: string
  pr_Network :: string
  pr_AmountMicros :: string
  pr_PayTo :: string
  pr_Asset :: string
  pr_MaxTimeoutSeconds :: int

definition isSupportedScheme :: "string \<Rightarrow> bool" where
  "isSupportedScheme scheme = (let s = TrimSpace scheme in if s = [] then True else EqualFold s ''exact'')"

definition solanaMainnetClusterID :: string where
  "solanaMainnetClusterID = ''5eykt4UsFv8P8NJdTREpY1vzqKqZKvdp''"

definition canonicalizeNetwork :: "string \<Rightarrow> string option" where
  "canonicalizeNetwork network =
     (let raw = TrimSpace network; low = ToLower raw in
      if raw = [] then None
      else if HasPrefix low ''eip155:'' then
        (case ParseInt64 (TrimPrefix low ''eip155:'') of
           Some i \<Rightarrow> if i = 8453 then Some ''base'' else None | None \<Rightarrow> None)
      else if HasPrefix low ''solana:'' then
        (if drop (length ''solana:'') raw = solanaMainnetClusterID then Some ''solana'' else None)
      else if low = ''base'' then Some ''base''
      else if low = ''solana'' then Some ''solana''
      else None)"

text \<open>The amount of a requirement the client can pay on a wanted network, if it is one.\<close>

definition payable :: "string list \<Rightarrow> PaymentRequirements \<Rightarrow> nat option" where
  "payable prefer req =
     (if \<not> isSupportedScheme (pr_Scheme req) then None
      else case canonicalizeNetwork (pr_Network req) of
        None \<Rightarrow> None
      | Some canon \<Rightarrow>
          if prefer \<noteq> [] \<and> canon \<notin> set prefer then None
          else (case parseIntegerBaseUnits (pr_AmountMicros req) of Inl _ \<Rightarrow> None | Inr n \<Rightarrow> Some n))"

fun cheapest :: "string list \<Rightarrow> (PaymentRequirements \<times> nat) option \<Rightarrow> PaymentRequirements list
  \<Rightarrow> (PaymentRequirements \<times> nat) option" where
  "cheapest prefer best [] = best"
| "cheapest prefer best (req # reqs) =
     (case payable prefer req of
        None \<Rightarrow> cheapest prefer best reqs
      | Some n \<Rightarrow> cheapest prefer (case best of
            None \<Rightarrow> Some (req, n) | Some (r, m) \<Rightarrow> if n < m then Some (req, n) else best) reqs)"

definition PreferAndCheapest :: "string list \<Rightarrow> PaymentRequirements list \<Rightarrow> PaymentRequirements option" where
  "PreferAndCheapest prefer accepts = map_option fst (cheapest prefer None accepts)"

section \<open>The transport\<close>

record PaymentReceipt =
  rp_Tx :: string
  rp_Network :: string
  rp_AmountUSDC :: string

record mpp_challenge =
  mc_Method :: string
  mc_Intent :: string
  mc_Charge :: "(string \<times> string) option"

text \<open>
  An answer of the service: whether the \<open>Payment-Required\<close> header is set, the MPP challenges
  (\<open>None\<close> if they do not parse), the x402 challenge (\<open>None\<close> if it does not parse), and the two kinds of
  receipt, of which the MPP one is its reference. \<open>mc_Charge\<close> is the amount and network of a decodable charge request.
\<close>

record http_response =
  hr_status :: nat
  hr_required_v2 :: bool
  hr_mpp :: "mpp_challenge list option"
  hr_challenge :: "PaymentRequirements list option"
  hr_receipt :: "PaymentReceipt option"
  hr_mpp_receipt :: "string option"

record CallRequest =
  cq_Method :: string
  cq_URL :: string
  cq_Headers :: "(string, string) gomap"
  cq_Body :: bytes
  cq_PreferNetworks :: "string list"

datatype payment = Unpaid | PaidX402 string | PaidMPP string

datatype transport_error =
    ErrSignerNotConfigured | RequestFail | ChallengeFail | ErrNoCompatibleRequirements | SignFail
  | ErrPaymentNotAccepted

type_synonym service = "CallRequest \<Rightarrow> payment \<Rightarrow> http_response option"

definition mppChallengeNetwork :: "mpp_challenge \<Rightarrow> string option" where
  "mppChallengeNetwork c = (case mc_Charge c of
      None \<Rightarrow> None
    | Some (_, network) \<Rightarrow>
        (let raw = TrimSpace network; low = ToLower raw in
         if raw = [] then Some ''solana''
         else if low \<in> {''mainnet'', ''mainnet-beta'', ''solana'', ''solana-mainnet''} then Some ''solana''
         else if HasPrefix low ''solana:'' \<and> drop (length ''solana:'') raw = solanaMainnetClusterID then Some ''solana''
         else None))"

definition selectMPPChallenge :: "mpp_challenge list \<Rightarrow> string list \<Rightarrow> mpp_challenge option" where
  "selectMPPChallenge challenges prefer =
     (if prefer \<noteq> [] \<and> ''solana'' \<notin> set prefer then None
      else find (\<lambda>c. EqualFold (mc_Method c) ''solana'' \<and> EqualFold (mc_Intent c) ''charge'' \<and>
             mppChallengeNetwork c = Some ''solana'') challenges)"

definition mppReceiptToPaymentReceipt :: "string \<Rightarrow> PaymentReceipt" where
  "mppReceiptToPaymentReceipt reference = \<lparr>rp_Tx = reference, rp_Network = ''solana'', rp_AmountUSDC = []\<rparr>"

definition fillReceiptAmount :: "string \<Rightarrow> PaymentReceipt \<Rightarrow> PaymentReceipt" where
  "fillReceiptAmount micros r =
     (if TrimSpace (rp_AmountUSDC r) \<noteq> [] then r
      else case parseIntegerBaseUnits micros of
        Inl _ \<Rightarrow> r | Inr n \<Rightarrow> r\<lparr>rp_AmountUSDC := formatUSDC (Some n)\<rparr>)"

definition streamMPP ::
  "(mpp_challenge \<Rightarrow> string option) option \<Rightarrow> service \<Rightarrow> CallRequest \<Rightarrow> mpp_challenge list
    \<Rightarrow> string list \<times> (transport_error + nat \<times> PaymentReceipt option)" where
  "streamMPP msigner srv req challenges = (case msigner of
      None \<Rightarrow> ([], Inl ErrSignerNotConfigured)
    | Some sg \<Rightarrow> (case selectMPPChallenge challenges (cq_PreferNetworks req) of
        None \<Rightarrow> ([], Inl ErrNoCompatibleRequirements)
      | Some c \<Rightarrow>
          (let amount = (case mc_Charge c of Some (a, _) \<Rightarrow> a | None \<Rightarrow> []) in
           case sg c of
             None \<Rightarrow> ([], Inl SignFail)
           | Some auth \<Rightarrow> (case srv req (PaidMPP auth) of
               None \<Rightarrow> ([amount], Inl RequestFail)
             | Some retry \<Rightarrow>
                 if hr_status retry = 402 then ([amount], Inl ErrPaymentNotAccepted)
                 else ([amount], Inr (hr_status retry, (case hr_mpp_receipt retry of
                     None \<Rightarrow> hr_receipt retry
                   | Some r \<Rightarrow> Some (fillReceiptAmount amount (mppReceiptToPaymentReceipt r)))))))))"

text \<open>\<open>signer\<close> signs a requirement and encodes the payment header.\<close>

definition stream402 ::
  "(PaymentRequirements \<Rightarrow> string option) \<Rightarrow> service \<Rightarrow> CallRequest \<Rightarrow> http_response
    \<Rightarrow> string list \<times> (transport_error + nat \<times> PaymentReceipt option)" where
  "stream402 signer srv req resp = (case hr_challenge resp of
      None \<Rightarrow> ([], Inl ChallengeFail)
    | Some accepts \<Rightarrow> (case PreferAndCheapest (cq_PreferNetworks req) accepts of
        None \<Rightarrow> ([], Inl ErrNoCompatibleRequirements)
      | Some requirement \<Rightarrow> (case signer requirement of
          None \<Rightarrow> ([], Inl SignFail)
        | Some encoded \<Rightarrow>
            (let amount = pr_AmountMicros requirement in
             case srv req (PaidX402 encoded) of
               None \<Rightarrow> ([amount], Inl RequestFail)
             | Some retry \<Rightarrow>
                 if hr_status retry = 402 then ([amount], Inl ErrPaymentNotAccepted)
                 else ([amount], Inr (hr_status retry, map_option (fillReceiptAmount amount) (hr_receipt retry)))))))"

definition Stream ::
  "(PaymentRequirements \<Rightarrow> string option) option \<Rightarrow> (mpp_challenge \<Rightarrow> string option) option \<Rightarrow> service \<Rightarrow> CallRequest
    \<Rightarrow> string list \<times> (transport_error + nat \<times> PaymentReceipt option)" where
  "Stream signer msigner srv req = (case signer of
      None \<Rightarrow> ([], Inl ErrSignerNotConfigured)
    | Some sg \<Rightarrow> (case srv req Unpaid of
        None \<Rightarrow> ([], Inl RequestFail)
      | Some resp \<Rightarrow>
          if hr_status resp \<noteq> 402 then ([], Inr (hr_status resp, hr_receipt resp))
          else if hr_required_v2 resp then stream402 sg srv req resp
          else (case hr_mpp resp of
              None \<Rightarrow> ([], Inl ChallengeFail)
            | Some challenges \<Rightarrow>
                if challenges \<noteq> [] then streamMPP msigner srv req challenges
                else stream402 sg srv req resp)))"

section \<open>The call\<close>

record CallParams =
  cp_AgentID :: string
  cp_ServiceID :: string
  cp_Path :: string
  cp_Method :: string
  cp_Headers :: "(string, string) gomap"
  cp_Body :: bytes
  cp_MaxPriceUSDC :: string

datatype call_error =
    AgentRequired | ServiceRequired | PathRequired | MaxPriceRequired | RegistryError registry_error
  | BudgetError budget_error | EmptyEndpoint | AbsolutePath | SIWXNotWired | SIWXFail
  | TransportError transport_error

text \<open>\<open>strings.TrimRight(s, "/")\<close>.\<close>

definition trim_slashes :: "string \<Rightarrow> string" where
  "trim_slashes s = rev (dropWhile ((=) (CHR ''/'')) (rev s))"

definition joinEndpointPath :: "string \<Rightarrow> string \<Rightarrow> call_error + string" where
  "joinEndpointPath endpoint0 path0 =
     (let endpoint = trim_slashes (TrimSpace endpoint0); path = TrimSpace path0 in
      if endpoint = [] then Inl EmptyEndpoint
      else if path = [] then Inr endpoint
      else if HasPrefix path ''http://'' \<or> HasPrefix path ''https://'' then Inl AbsolutePath
      else Inr (endpoint @ (if HasPrefix path ''/'' then path else ''/'' @ path)))"

definition mergeHeaders :: "(string, string) gomap \<Rightarrow> (string, string) gomap \<Rightarrow> (string, string) gomap" where
  "mergeHeaders base overlay = base ++\<^sub>f overlay"

text \<open>The collaborators of a call: URL parsing, hashing, signers, the SIWX header (of a domain and a URL) and the service.\<close>

record call_env =
  ce_host :: "string \<Rightarrow> string option"
  ce_digest :: "ServiceManifest \<Rightarrow> string"
  ce_signer :: "(PaymentRequirements \<Rightarrow> string option) option"
  ce_mppSigner :: "(mpp_challenge \<Rightarrow> string option) option"
  ce_siwx :: "(string \<Rightarrow> string \<Rightarrow> string option) option"
  ce_service :: service
  ce_store_ok :: bool

definition siwx_headers :: "call_env \<Rightarrow> ServiceManifest \<Rightarrow> string \<Rightarrow> CallParams \<Rightarrow> call_error + (string, string) gomap" where
  "siwx_headers env m target params =
     (if sm_SIWXDomain m = [] then Inr (cp_Headers params)
      else case ce_siwx env of
        None \<Rightarrow> Inl SIWXNotWired
      | Some header \<Rightarrow> (case header (sm_SIWXDomain m) target of
          None \<Rightarrow> Inl SIWXFail
        | Some h \<Rightarrow> Inr (mergeHeaders (cp_Headers params) (fmupd ''X-Sign-In-With-X'' h fmempty))))"

definition receipt_of :: "int \<Rightarrow> CallParams \<Rightarrow> ServiceManifest \<Rightarrow> PaymentReceipt \<Rightarrow> Receipt" where
  "receipt_of now params m rp = \<lparr>rc_Ts = now, rc_AgentID = cp_AgentID params, rc_ServiceID = cp_ServiceID params,
     rc_Path = cp_Path params, rc_Tx = rp_Tx rp, rc_Network = rp_Network rp,
     rc_AmountUSDC = (if TrimSpace (rp_AmountUSDC rp) = [] then sm_MaxPriceUSDC m else rp_AmountUSDC rp),
     rc_MaxPriceUSDC = cp_MaxPriceUSDC params\<rparr>"

text \<open>The checks before any request is made: the manifest and the budget after \<open>Authorize\<close>.\<close>

definition admit :: "call_env \<Rightarrow> int \<Rightarrow> CallParams \<Rightarrow> Registry \<Rightarrow> Budget \<Rightarrow> Budget \<times> (call_error + ServiceManifest)" where
  "admit env now params r b =
     (if TrimSpace (cp_AgentID params) = [] then (b, Inl AgentRequired)
      else if TrimSpace (cp_ServiceID params) = [] then (b, Inl ServiceRequired)
      else if TrimSpace (cp_Path params) = [] then (b, Inl PathRequired)
      else if TrimSpace (cp_MaxPriceUSDC params) = [] then (b, Inl MaxPriceRequired)
      else case registry_Manifest (cp_ServiceID params) r of
        Inl err \<Rightarrow> (b, Inl (RegistryError err))
      | Inr m \<Rightarrow> (case resolveAuthorization (cp_AgentID params) (cp_ServiceID params) r of
          Inl err \<Rightarrow> (b, Inl (RegistryError err))
        | Inr pin \<Rightarrow> (case Pin_Verify (ce_host env) (ce_digest env) pin m of
            Some err \<Rightarrow> (b, Inl (RegistryError err))
          | None \<Rightarrow> (case Authorize now (cp_AgentID params) (cp_ServiceID params) (cp_MaxPriceUSDC params)
                          (sm_MaxPriceUSDC m) b of
              (b1, Some err) \<Rightarrow> (b1, Inl (BudgetError err))
            | (b1, None) \<Rightarrow> (b1, Inr m)))))"

definition StreamCall ::
  "call_env \<Rightarrow> int \<Rightarrow> CallParams \<Rightarrow> Registry \<Rightarrow> Budget
    \<Rightarrow> Budget \<times> string list \<times> (call_error + nat \<times> Receipt option)" where
  "StreamCall env now params r b = (case admit env now params r b of
      (b1, Inl err) \<Rightarrow> (b1, [], Inl err)
    | (b1, Inr m) \<Rightarrow> (case joinEndpointPath (sm_Endpoint m) (cp_Path params) of
        Inl err \<Rightarrow> (b1, [], Inl err)
      | Inr target \<Rightarrow> (case siwx_headers env m target params of
          Inl err \<Rightarrow> (b1, [], Inl err)
        | Inr headers \<Rightarrow>
            (case Stream (ce_signer env) (ce_mppSigner env) (ce_service env)
                \<lparr>cq_Method = cp_Method params, cq_URL = target, cq_Headers = headers, cq_Body = cp_Body params,
                 cq_PreferNetworks = sm_Networks m\<rparr> of
               (paid, Inl err) \<Rightarrow> (b1, paid, Inl (TransportError err))
             | (paid, Inr (status, None)) \<Rightarrow> (b1, paid, Inr (status, None))
             | (paid, Inr (status, Some rp)) \<Rightarrow>
                 (let receipt = receipt_of now params m rp in
                  case Charge now (ce_store_ok env) receipt b1 of
                    (b2, Some err) \<Rightarrow> (b2, paid, Inl (BudgetError err))
                  | (b2, None) \<Rightarrow> (b2, paid, Inr (status, Some receipt)))))))"

section \<open>What a call signs\<close>

lemma cheapest_least:
  "cheapest ns best reqs = Some (r, n) \<Longrightarrow>
   ((r \<in> set reqs \<and> payable ns r = Some n) \<or> best = Some (r, n)) \<and>
   (\<forall>r'\<in>set reqs. \<forall>k. payable ns r' = Some k \<longrightarrow> n \<le> k) \<and> (\<forall>r' k. best = Some (r', k) \<longrightarrow> n \<le> k)"
proof (induction ns best reqs rule: cheapest.induct)
  case (2 ns best req reqs)
  show ?case
  proof (cases "payable ns req")
    case None
    with 2 show ?thesis by auto
  next
    case (Some k)
    define best' where "best' = (case best of None \<Rightarrow> Some (req, k) | Some (r, m) \<Rightarrow> if k < m then Some (req, k) else best)"
    have best': "best' = Some (req, k) \<or> (best' = best \<and> (\<exists>r m. best = Some (r, m) \<and> m \<le> k))"
      "\<And>r m. best = Some (r, m) \<Longrightarrow> \<exists>r' m'. best' = Some (r', m') \<and> m' \<le> m"
      "\<exists>r' m'. best' = Some (r', m') \<and> m' \<le> k"
      unfolding best'_def by (cases best; force)+
    have "cheapest ns best' reqs = Some (r, n)" using 2(3) Some by (simp add: best'_def)
    with 2(2) [OF Some] have ih:
      "((r \<in> set reqs \<and> payable ns r = Some n) \<or> best' = Some (r, n)) \<and>
       (\<forall>r'\<in>set reqs. \<forall>k. payable ns r' = Some k \<longrightarrow> n \<le> k) \<and> (\<forall>r' k. best' = Some (r', k) \<longrightarrow> n \<le> k)"
      unfolding best'_def by blast
    have "n \<le> k" using ih best'(3) order_trans by blast
    moreover have "n \<le> m" if b: "best = Some (r', m)" for r' m
    proof -
      obtain r'' m' where "best' = Some (r'', m')" "m' \<le> m" using best'(2) [OF b] by blast
      then show ?thesis using ih by force
    qed
    ultimately show ?thesis using ih best'(1) Some by auto
  qed
qed auto

lemma PreferAndCheapest_least:
  assumes "PreferAndCheapest ns accepts = Some rq"
  shows "rq \<in> set accepts \<and> (\<exists>n. payable ns rq = Some n \<and>
    (\<forall>r\<in>set accepts. \<forall>k. payable ns r = Some k \<longrightarrow> n \<le> k))"
  using assms cheapest_least [of ns None accepts rq] by (auto simp: PreferAndCheapest_def)

lemma Pin_Verify_iff:
  "Pin_Verify host digest p m = None \<longleftrightarrow>
   (\<exists>q. PinFromManifest host digest m = Inr q \<and> p = q\<lparr>pin_MaxPriceUSDC := pin_MaxPriceUSDC p\<rparr>)"
  by (cases p) (auto simp: Pin_Verify_def PinFromManifest_def split: sum.split)

text \<open>
  The amounts a call may sign in reply to an answer: the one of a cheapest requirement on a network of
  the manifest, or the one of an MPP charge.
\<close>

definition asked_amount :: "string list \<Rightarrow> http_response \<Rightarrow> string \<Rightarrow> bool" where
  "asked_amount networks resp amount \<longleftrightarrow> hr_status resp = 402 \<and>
     ((\<exists>accepts\<in>set_option (hr_challenge resp). \<exists>rq\<in>set accepts. pr_AmountMicros rq = amount \<and>
        (\<exists>n. payable networks rq = Some n \<and> (\<forall>r\<in>set accepts. \<forall>k. payable networks r = Some k \<longrightarrow> n \<le> k))) \<or>
      (\<exists>cs\<in>set_option (hr_mpp resp). \<exists>c\<in>set cs. map_option fst (mc_Charge c) = Some amount))"

lemma stream402_signs:
  assumes "stream402 sg srv req resp = (paid, res)" "paid \<noteq> []" "hr_status resp = 402"
  shows "\<exists>amount. paid = [amount] \<and> asked_amount (cq_PreferNetworks req) resp amount"
proof -
  obtain accepts rq where *: "hr_challenge resp = Some accepts"
    "PreferAndCheapest (cq_PreferNetworks req) accepts = Some rq" "paid = [pr_AmountMicros rq]"
    using assms(1,2) by (auto simp: stream402_def Let_def split: option.splits if_splits)
  with PreferAndCheapest_least [OF *(2)] assms(3) show ?thesis
    by (auto simp: asked_amount_def)
qed

lemma streamMPP_signs:
  assumes "streamMPP msigner srv req cs = (paid, res)" "paid \<noteq> []"
  shows "\<exists>amount. paid = [amount] \<and> (\<exists>c\<in>set cs. map_option fst (mc_Charge c) = Some amount)"
proof -
  obtain c where c: "selectMPPChallenge cs (cq_PreferNetworks req) = Some c"
    "paid = [case mc_Charge c of Some (a, _) \<Rightarrow> a | None \<Rightarrow> []]"
    using assms by (auto simp: streamMPP_def Let_def split: option.splits if_splits)
  then have "c \<in> set cs" "mppChallengeNetwork c = Some ''solana''"
    by (auto simp: selectMPPChallenge_def find_Some_iff split: if_splits)
  then show ?thesis using c(2)
    by (auto simp: mppChallengeNetwork_def split: option.splits)
qed

lemma Stream_signs:
  assumes "Stream signer msigner srv req = (paid, res)" "paid \<noteq> []"
  shows "\<exists>amount resp. paid = [amount] \<and> srv req Unpaid = Some resp \<and> asked_amount (cq_PreferNetworks req) resp amount"
proof -
  obtain sg resp where sr: "signer = Some sg" "srv req Unpaid = Some resp" "hr_status resp = 402"
    using assms by (auto simp: Stream_def split: option.splits if_splits)
  consider "stream402 sg srv req resp = (paid, res)"
    | cs where "hr_mpp resp = Some cs" "streamMPP msigner srv req cs = (paid, res)"
    using assms sr by (auto simp: Stream_def split: option.splits if_splits)
  then show ?thesis
  proof cases
    case 1
    from stream402_signs [OF this assms(2) sr(3)] sr(2) show ?thesis by blast
  next
    case 2
    from streamMPP_signs [OF 2(2) assms(2)] 2(1) sr show ?thesis by (auto simp: asked_amount_def)
  qed
qed

lemma admit_ok:
  assumes "admit env now params r b = (b1, Inr m)"
  obtains pin where "fmlookup (rg_manifests r) (cp_ServiceID params) = Some m"
    "resolveAuthorization (cp_AgentID params) (cp_ServiceID params) r = Inr pin"
    "Pin_Verify (ce_host env) (ce_digest env) pin m = None"
    "Authorize now (cp_AgentID params) (cp_ServiceID params) (cp_MaxPriceUSDC params) (sm_MaxPriceUSDC m) b = (b1, None)"
  using assms by (auto simp: admit_def registry_Manifest_def split: if_splits sum.splits option.splits prod.splits)

lemma StreamCall_signs:
  assumes "StreamCall env now params r b = (b', paid, res)" "paid \<noteq> []"
  obtains b1 m amount req resp where "admit env now params r b = (b1, Inr m)" "paid = [amount]"
    "joinEndpointPath (sm_Endpoint m) (cp_Path params) = Inr (cq_URL req)"
    "ce_service env req Unpaid = Some resp" "asked_amount (sm_Networks m) resp amount"
proof -
  obtain b1 m target headers where a: "admit env now params r b = (b1, Inr m)"
    "joinEndpointPath (sm_Endpoint m) (cp_Path params) = Inr target" "siwx_headers env m target params = Inr headers"
    using assms by (auto simp: StreamCall_def split: prod.splits sum.splits)
  define req where "req = \<lparr>cq_Method = cp_Method params, cq_URL = target, cq_Headers = headers, cq_Body = cp_Body params,
     cq_PreferNetworks = sm_Networks m\<rparr>"
  obtain p res' where s: "Stream (ce_signer env) (ce_mppSigner env) (ce_service env) req = (p, res')" by force
  have "paid = p"
    using assms(1) a s by (auto simp: StreamCall_def Let_def req_def split: sum.splits option.splits prod.splits)
  with Stream_signs [OF s] assms(2) obtain amount resp where "paid = [amount]"
    "ce_service env req Unpaid = Some resp" "asked_amount (cq_PreferNetworks req) resp amount" by auto
  with that [of b1 m amount req resp] a show ?thesis by (simp add: req_def)
qed

lemma Authorize_price:
  assumes "Authorize now a s mx quote b = (b1, None)"
  obtains n q cfg where "parseUSDC mx = Inr n" "parseUSDC quote = Inr q" "q \<le> n"
    "fmlookup (bu_agentConfig b) a = Some cfg" "\<not> over (pb_perCallMax cfg) q"
  using assms by (auto simp: Authorize_def split: sum.splits option.splits prod.splits if_splits)


definition example_requirement :: "string \<Rightarrow> string \<Rightarrow> PaymentRequirements" where
  "example_requirement network micros = \<lparr>pr_Scheme = ''exact'', pr_Network = network, pr_AmountMicros = micros,
     pr_PayTo = ''0xp'', pr_Asset = ''0xa'', pr_MaxTimeoutSeconds = 60\<rparr>"

definition example_answer :: "nat \<Rightarrow> PaymentRequirements list \<Rightarrow> PaymentReceipt option \<Rightarrow> http_response" where
  "example_answer status accepts receipt = \<lparr>hr_status = status, hr_required_v2 = True, hr_mpp = Some [],
     hr_challenge = Some accepts, hr_receipt = receipt, hr_mpp_receipt = None\<rparr>"

definition example_service :: "string \<Rightarrow> PaymentReceipt option \<Rightarrow> service" where
  "example_service micros receipt req pay = (case pay of
      Unpaid \<Rightarrow> Some (example_answer 402 [example_requirement ''solana'' ''1'', example_requirement ''base'' ''20000000'',
        example_requirement ''eip155:8453'' micros] None)
    | _ \<Rightarrow> Some (example_answer 200 [] receipt))"

definition example_env :: "string \<Rightarrow> PaymentReceipt option \<Rightarrow> call_env" where
  "example_env micros receipt = \<lparr>ce_host = (\<lambda>_. Some ''s.example''), ce_digest = sm_Endpoint,
     ce_signer = Some (\<lambda>rq. Some (pr_AmountMicros rq)), ce_mppSigner = None, ce_siwx = None,
     ce_service = example_service micros receipt, ce_store_ok = True\<rparr>"

definition example_call :: CallParams where
  "example_call = \<lparr>cp_AgentID = ''agent'', cp_ServiceID = ''s'', cp_Path = ''/p'', cp_Method = ''GET'', cp_Headers = fmempty,
     cp_Body = [], cp_MaxPriceUSDC = ''0.02''\<rparr>"

lemma example_call_signs:
  "fst (snd (StreamCall (example_env ''5000'' None) 100 example_call (example_registry [''agent'']) example_budget)) = [''5000'']"
  by code_simp



end
