(* ===== verification/Mailbox_Types.thy ===== *)
theory Mailbox_Types
  imports Kv_Collections
begin

text \<open>
  The data of the agent mailbox (\<open>pkg/agent/mailbox/types.go\<close>) and the policies of its life cycle
  (\<open>lifecycle.go\<close>): principals, items, events, claims, the derived state, retry delays. Times and
  durations are nanoseconds. A pointer is an option, a nil map is \<open>None\<close>, and an inline payload is the
  JSON document it holds.
\<close>

section \<open>Constants\<close>

abbreviation ScopePrivateNetwork :: string where "ScopePrivateNetwork \<equiv> ''private_network''"
abbreviation ScopeSky10Network :: string where "ScopeSky10Network \<equiv> ''sky10_network''"

abbreviation PrincipalKindLocalAgent :: string where "PrincipalKindLocalAgent \<equiv> ''local_agent''"
abbreviation PrincipalKindCapabilityQueue :: string where "PrincipalKindCapabilityQueue \<equiv> ''capability_queue''"

abbreviation ItemKindMessage :: string where "ItemKindMessage \<equiv> ''message''"
abbreviation ItemKindTaskRequest :: string where "ItemKindTaskRequest \<equiv> ''task_request''"
abbreviation ItemKindApprovalRequest :: string where "ItemKindApprovalRequest \<equiv> ''approval_request''"
abbreviation ItemKindPaymentRequired :: string where "ItemKindPaymentRequired \<equiv> ''payment_required''"
abbreviation ItemKindPaymentProof :: string where "ItemKindPaymentProof \<equiv> ''payment_proof''"
abbreviation ItemKindResult :: string where "ItemKindResult \<equiv> ''result''"
abbreviation ItemKindReceipt :: string where "ItemKindReceipt \<equiv> ''receipt''"

abbreviation EventTypeCreated :: string where "EventTypeCreated \<equiv> ''created''"
abbreviation EventTypeHandedOff :: string where "EventTypeHandedOff \<equiv> ''handed_off''"
abbreviation EventTypeDelivered :: string where "EventTypeDelivered \<equiv> ''delivered''"
abbreviation EventTypeDeliveryFailed :: string where "EventTypeDeliveryFailed \<equiv> ''delivery_failed''"
abbreviation EventTypeSeen :: string where "EventTypeSeen \<equiv> ''seen''"
abbreviation EventTypeClaimed :: string where "EventTypeClaimed \<equiv> ''claimed''"
abbreviation EventTypeAssigned :: string where "EventTypeAssigned \<equiv> ''assigned''"
abbreviation EventTypeLeaseExpired :: string where "EventTypeLeaseExpired \<equiv> ''lease_expired''"
abbreviation EventTypeApproved :: string where "EventTypeApproved \<equiv> ''approved''"
abbreviation EventTypeRejected :: string where "EventTypeRejected \<equiv> ''rejected''"
abbreviation EventTypeCompleted :: string where "EventTypeCompleted \<equiv> ''completed''"
abbreviation EventTypeCancelled :: string where "EventTypeCancelled \<equiv> ''cancelled''"
abbreviation EventTypeExpired :: string where "EventTypeExpired \<equiv> ''expired''"
abbreviation EventTypeDeadLettered :: string where "EventTypeDeadLettered \<equiv> ''dead_lettered''"

text \<open>The zero \<open>time.Time\<close> in nanoseconds.\<close>

definition zero_ns :: int where
  "zero_ns = zero_time * 1000000000"

section \<open>Principals, items, events, claims\<close>

record Principal =
  pn_ID :: string
  pn_Kind :: string
  pn_Scope :: string
  pn_DeviceHint :: string
  pn_RouteHint :: string

record Item =
  it_ID :: string
  it_Kind :: string
  it_From :: Principal
  it_To :: "Principal option"
  it_TargetSkill :: string
  it_SessionID :: string
  it_RequestID :: string
  it_ReplyTo :: string
  it_IdempotencyKey :: string
  it_PayloadRef :: "PayloadRef option"
  it_PayloadInline :: "json option"
  it_Priority :: string
  it_ExpiresAt :: int
  it_CreatedAt :: int

record Event =
  ev_ItemID :: string
  ev_EventID :: string
  ev_Type :: string
  ev_Actor :: Principal
  ev_LeaseID :: string
  ev_Error :: string
  ev_Timestamp :: int
  ev_Meta :: "(string, string) gomap option"

record Claim =
  cl_Queue :: string
  cl_ItemID :: string
  cl_Holder :: string
  cl_Token :: string
  cl_AcquiredAt :: int
  cl_ExpiresAt :: int

datatype State = StateQueued | StateDelivered | StateClaimed | StateAssigned | StateApproved | StateCompleted
  | StateRejected | StateCancelled | StateExpired | StateFailed | StateDeadLettered

record Record =
  rd_Item :: Item
  rd_Events :: "Event list"
  rd_Claim :: "Claim option"
  rd_State :: State

definition zero_Principal :: Principal where
  "zero_Principal = \<lparr>pn_ID = [], pn_Kind = [], pn_Scope = [], pn_DeviceHint = [], pn_RouteHint = []\<rparr>"

definition zero_Item :: Item where
  "zero_Item = \<lparr>it_ID = [], it_Kind = [], it_From = zero_Principal, it_To = None, it_TargetSkill = [],
     it_SessionID = [], it_RequestID = [], it_ReplyTo = [], it_IdempotencyKey = [], it_PayloadRef = None,
     it_PayloadInline = None, it_Priority = [], it_ExpiresAt = zero_ns, it_CreatedAt = zero_ns\<rparr>"

text \<open>\<open>new_Event\<close> is a composite literal without identifier and timestamp.\<close>

definition new_Event :: "string \<Rightarrow> string \<Rightarrow> Principal \<Rightarrow> string \<Rightarrow> string \<Rightarrow> (string, string) gomap option \<Rightarrow> Event" where
  "new_Event itemID type actor leaseID err meta = \<lparr>ev_ItemID = itemID, ev_EventID = [], ev_Type = type, ev_Actor = actor,
     ev_LeaseID = leaseID, ev_Error = err, ev_Timestamp = zero_ns, ev_Meta = meta\<rparr>"

datatype 'err mail_error =
    PrincipalIDRequired | ItemKindRequired | RecipientRequired | BadPayloadRef ref_error
  | EventItemRequired | EventTypeRequired | ItemNotFound string | NotClaimable string
  | TokenRequired | AlreadyDecided string | PayloadInvalid string | RequestIDRequired | IdempotencyKeyRequired
  | ReplyToRequired | WrongKind string | BadPayload | FlowMismatch string | KeyReused
  | MarshalFail | ParseFail | BadLogID string | BadKey string | KvErr 'err | LeaseErr "'err lease_error"

definition Principal_Validate :: "Principal \<Rightarrow> 'err mail_error option" where
  "Principal_Validate p = (if TrimSpace (pn_ID p) = [] then Some PrincipalIDRequired else None)"

definition ScopeOrDefault :: "Principal \<Rightarrow> string" where
  "ScopeOrDefault p = (let scope = TrimSpace (pn_Scope p) in if scope = [] then ScopePrivateNetwork else scope)"

definition ValidateForCreate :: "Item \<Rightarrow> 'err mail_error option" where
  "ValidateForCreate i =
     (if TrimSpace (it_Kind i) = [] then Some ItemKindRequired
      else case Principal_Validate (it_From i) of Some err \<Rightarrow> Some err
      | None \<Rightarrow> (case (case it_To i of None \<Rightarrow> None | Some p \<Rightarrow> Principal_Validate p) of Some err \<Rightarrow> Some err
        | None \<Rightarrow>
            if it_To i = None \<and> TrimSpace (it_TargetSkill i) = [] then Some RecipientRequired
            else (case it_PayloadRef i of None \<Rightarrow> None
              | Some ref \<Rightarrow> map_option BadPayloadRef (PayloadRef_Validate ref))))"

definition item_Scope :: "Item \<Rightarrow> string" where
  "item_Scope i = ScopeOrDefault (case it_To i of Some p \<Rightarrow> p | None \<Rightarrow> it_From i)"

definition QueueName :: "Item \<Rightarrow> string" where
  "QueueName i =
     (case it_To i of
        Some p \<Rightarrow> if pn_Kind p = PrincipalKindCapabilityQueue then TrimSpace (pn_ID p)
          else let skill = TrimSpace (it_TargetSkill i) in if skill \<noteq> [] then ''skill:'' @ skill else []
      | None \<Rightarrow> let skill = TrimSpace (it_TargetSkill i) in if skill \<noteq> [] then ''skill:'' @ skill else [])"

definition RecipientID :: "Item \<Rightarrow> string" where
  "RecipientID i = (case it_To i of None \<Rightarrow> [] | Some p \<Rightarrow> TrimSpace (pn_ID p))"

definition Event_Validate :: "Event \<Rightarrow> 'err mail_error option" where
  "Event_Validate e =
     (if TrimSpace (ev_ItemID e) = [] then Some EventItemRequired
      else if TrimSpace (ev_Type e) = [] then Some EventTypeRequired else None)"

definition LatestEvent :: "Record \<Rightarrow> Event option" where
  "LatestEvent r = (if rd_Events r = [] then None else Some (last (rd_Events r)))"

definition stateTerminal :: "State \<Rightarrow> bool" where
  "stateTerminal s \<longleftrightarrow> s \<in> {StateAssigned, StateCompleted, StateRejected, StateCancelled, StateExpired, StateDeadLettered}"

definition stateFailed :: "State \<Rightarrow> bool" where
  "stateFailed s \<longleftrightarrow> s \<in> {StateFailed, StateCancelled, StateExpired, StateDeadLettered}"

definition statePending :: "State \<Rightarrow> bool" where
  "statePending s \<longleftrightarrow> s \<in> {StateQueued, StateClaimed, StateFailed}"

definition Terminal :: "Record \<Rightarrow> bool" where
  "Terminal r = stateTerminal (rd_State r)"

definition Failed :: "Record \<Rightarrow> bool" where
  "Failed r = stateFailed (rd_State r)"

section \<open>Life-cycle policies\<close>

record RetryPolicy =
  rt_MaxAttempts :: int
  rt_InitialBackoff :: int
  rt_MaxBackoff :: int

record LifecyclePolicy =
  lp_DefaultTTL :: int
  lp_Retry :: RetryPolicy
  lp_DeliveredRetention :: int
  lp_TerminalRetention :: int
  lp_AckExplicit :: bool

abbreviation Second :: int where "Second \<equiv> 1000000000"
abbreviation Minute :: int where "Minute \<equiv> 60000000000"
abbreviation Hour :: int where "Hour \<equiv> 3600000000000"

text \<open>The doubling loop of \<open>Delay\<close>; the first argument is \<open>MaxBackoff\<close>.\<close>

fun delay_loop :: "int \<Rightarrow> nat \<Rightarrow> int \<Rightarrow> int" where
  "delay_loop mx 0 delay = (if mx > 0 \<and> delay > mx then mx else delay)"
| "delay_loop mx (Suc n) delay =
     (let d = int64_wrap (delay * 2) in if mx > 0 \<and> d \<ge> mx then mx else delay_loop mx n d)"

definition Delay :: "RetryPolicy \<Rightarrow> int \<Rightarrow> int" where
  "Delay p attempt =
     (if attempt \<le> 0 \<or> rt_InitialBackoff p \<le> 0 then 0
      else delay_loop (rt_MaxBackoff p) (nat (attempt - 1)) (rt_InitialBackoff p))"

definition policy :: "int \<Rightarrow> int \<Rightarrow> int \<Rightarrow> int \<Rightarrow> int \<Rightarrow> int \<Rightarrow> LifecyclePolicy" where
  "policy ttl attempts initial mx delivered terminal = \<lparr>lp_DefaultTTL = ttl,
     lp_Retry = \<lparr>rt_MaxAttempts = attempts, rt_InitialBackoff = initial, rt_MaxBackoff = mx\<rparr>,
     lp_DeliveredRetention = delivered, lp_TerminalRetention = terminal, lp_AckExplicit = True\<rparr>"

definition DefaultLifecyclePolicy :: "string \<Rightarrow> LifecyclePolicy" where
  "DefaultLifecyclePolicy kind =
     (if kind = ItemKindApprovalRequest then policy (72 * Hour) 8 Minute Hour 0 (14 * 24 * Hour)
      else if kind = ItemKindPaymentRequired \<or> kind = ItemKindPaymentProof
        then policy (30 * Minute) 10 (15 * Second) (10 * Minute) 0 (30 * 24 * Hour)
      else if kind = ItemKindResult then policy (24 * Hour) 16 (10 * Second) (30 * Minute) 0 (14 * 24 * Hour)
      else if kind = ItemKindReceipt then policy (7 * 24 * Hour) 16 (10 * Second) (30 * Minute) 0 (90 * 24 * Hour)
      else if kind = ItemKindTaskRequest then policy (24 * Hour) 12 (15 * Second) (15 * Minute) 0 (14 * 24 * Hour)
      else if kind = ItemKindMessage then policy (24 * Hour) 8 (5 * Second) (5 * Minute) Hour (7 * 24 * Hour)
      else policy (24 * Hour) 8 (10 * Second) (10 * Minute) 0 (7 * 24 * Hour))"

section \<open>Retry delays\<close>

lemma delay_loop_min:
  assumes "0 < d" "d \<le> mx" "mx < 2 ^ 62"
  shows "delay_loop mx n d = min (d * 2 ^ n) mx"
  using assms
proof (induction n arbitrary: d)
  case (Suc n)
  have w: "int64_wrap (d * 2) = d * 2"
    using Suc.prems by (intro int64_wrap_id) (auto simp: int64_ok_def)
  show ?case
  proof (cases "d * 2 \<ge> mx")
    case True
    have "d * 2 * 1 \<le> d * 2 * 2 ^ n" using Suc.prems by (intro mult_left_mono) auto
    then have "min (d * 2 ^ Suc n) mx = mx" using True by (intro min_absorb2) (simp add: mult.assoc)
    with True Suc.prems show ?thesis by (simp add: w Let_def)
  next
    case False
    with Suc.IH [of "d * 2"] Suc.prems show ?thesis by (simp add: w Let_def)
  qed
qed simp

lemma Delay_min:
  assumes "0 < rt_InitialBackoff p" "rt_InitialBackoff p \<le> rt_MaxBackoff p" "rt_MaxBackoff p < 2 ^ 62" "0 < n"
  shows "Delay p n = min (rt_InitialBackoff p * 2 ^ nat (n - 1)) (rt_MaxBackoff p)"
  using assms by (simp add: Delay_def delay_loop_min)

lemma default_retry_ok:
  "let p = lp_Retry (DefaultLifecyclePolicy kind) in
   0 < rt_InitialBackoff p \<and> rt_InitialBackoff p \<le> rt_MaxBackoff p \<and> rt_MaxBackoff p \<le> Hour \<and> 0 < rt_MaxAttempts p"
  by (simp add: DefaultLifecyclePolicy_def policy_def Let_def)

end
