(* ===== verification/Mailbox_Index.thy ===== *)
theory Mailbox_Index
  imports Mailbox_Types "HOL-Library.Product_Lexorder"
begin

text \<open>
  The in-memory view of the mailbox (\<open>pkg/agent/mailbox/index.go\<close>, \<open>stats.go\<close>): one \<open>recordState\<close> per
  item, the state derived from the last event and the claim, the listings, and the statistics. Map and
  slice copies made by the \<open>clone\<close> functions are values here.
\<close>

record MailSnapshot =
  sp_Items :: "Item list"
  sp_Events :: "(string, Event list) gomap"
  sp_Claims :: "Claim list"

record recordState =
  rs_item :: Item
  rs_events :: "Event list"
  rs_claim :: "Claim option"

type_synonym recordIndex = "(string, recordState) gomap"

definition fresh_state :: recordState where
  "fresh_state = \<lparr>rs_item = zero_Item, rs_events = [], rs_claim = None\<rparr>"

definition state_at :: "recordIndex \<Rightarrow> string \<Rightarrow> recordState" where
  "state_at idx i = (case fmlookup idx i of Some s \<Rightarrow> s | None \<Rightarrow> fresh_state)"

definition upsertItem :: "Item \<Rightarrow> recordIndex \<Rightarrow> recordIndex" where
  "upsertItem item idx = fmupd (it_ID item) ((state_at idx (it_ID item))\<lparr>rs_item := item\<rparr>) idx"

definition index_appendEvent :: "string \<Rightarrow> Event \<Rightarrow> recordIndex \<Rightarrow> recordIndex" where
  "index_appendEvent itemID event idx =
     (let s = state_at idx itemID in fmupd itemID (s\<lparr>rs_events := rs_events s @ [event]\<rparr>) idx)"

definition setClaim :: "Claim \<Rightarrow> recordIndex \<Rightarrow> recordIndex" where
  "setClaim claim idx = fmupd (cl_ItemID claim) ((state_at idx (cl_ItemID claim))\<lparr>rs_claim := Some claim\<rparr>) idx"

definition clearClaim :: "string \<Rightarrow> recordIndex \<Rightarrow> recordIndex" where
  "clearClaim itemID idx = (case fmlookup idx itemID of
      None \<Rightarrow> idx | Some s \<Rightarrow> fmupd itemID (s\<lparr>rs_claim := None\<rparr>) idx)"

definition index_delete :: "string \<Rightarrow> recordIndex \<Rightarrow> recordIndex" where
  "index_delete itemID idx = fmdrop itemID idx"

definition event_order :: "Event list \<Rightarrow> Event list" where
  "event_order es = sort_key (\<lambda>e. (ev_Timestamp e, ev_EventID e)) es"

definition newRecordIndex :: "MailSnapshot \<Rightarrow> recordIndex" where
  "newRecordIndex sp = fold setClaim (sp_Claims sp)
     (fold (\<lambda>(itemID, es) idx. fold (index_appendEvent itemID) (event_order es) idx) (fm_items (sp_Events sp))
       (fold upsertItem (sp_Items sp) fmempty))"

definition stateForEvent :: "string \<Rightarrow> State" where
  "stateForEvent t =
     (if t = EventTypeDelivered \<or> t = EventTypeSeen then StateDelivered
      else if t = EventTypeHandedOff then StateQueued
      else if t = EventTypeClaimed then StateClaimed
      else if t = EventTypeAssigned then StateAssigned
      else if t = EventTypeLeaseExpired then StateQueued
      else if t = EventTypeApproved then StateApproved
      else if t = EventTypeCompleted then StateCompleted
      else if t = EventTypeRejected then StateRejected
      else if t = EventTypeCancelled then StateCancelled
      else if t = EventTypeExpired then StateExpired
      else if t = EventTypeDeadLettered then StateDeadLettered
      else if t = EventTypeDeliveryFailed then StateFailed
      else StateQueued)"

definition deriveState :: "Event list \<Rightarrow> Claim option \<Rightarrow> State" where
  "deriveState es claim =
     (let latest = (if es = [] then StateQueued else stateForEvent (ev_Type (last es))) in
      if claim \<noteq> None \<and> \<not> stateTerminal latest \<and> latest \<noteq> StateFailed then StateClaimed
      else if claim = None \<and> latest = StateClaimed then StateQueued
      else latest)"

definition buildRecord :: "recordState \<Rightarrow> Record" where
  "buildRecord s = \<lparr>rd_Item = rs_item s, rd_Events = rs_events s, rd_Claim = rs_claim s,
     rd_State = deriveState (rs_events s) (rs_claim s)\<rparr>"

definition index_get :: "recordIndex \<Rightarrow> string \<Rightarrow> Record option" where
  "index_get idx itemID = (case fmlookup idx itemID of
      None \<Rightarrow> None | Some s \<Rightarrow> if it_ID (rs_item s) = [] then None else Some (buildRecord s))"

definition recordActivityTime :: "Record \<Rightarrow> int" where
  "recordActivityTime r = (case LatestEvent r of Some e \<Rightarrow> ev_Timestamp e | None \<Rightarrow> it_CreatedAt (rd_Item r))"

definition index_records :: "recordIndex \<Rightarrow> Record list" where
  "index_records idx = map (\<lambda>(_, s). buildRecord s) (filter (\<lambda>(_, s). it_ID (rs_item s) \<noteq> []) (fm_items idx))"

text \<open>The most recently active record comes first, and the identifiers break ties.\<close>

definition index_list :: "(Record \<Rightarrow> bool) \<Rightarrow> recordIndex \<Rightarrow> Record list" where
  "index_list fn idx =
     sort_key (\<lambda>r. (- recordActivityTime r, it_ID (rd_Item r))) (filter fn (index_records idx))"

definition listInbox :: "string \<Rightarrow> recordIndex \<Rightarrow> Record list" where
  "listInbox principalID = index_list (\<lambda>r. let recipientID = RecipientID (rd_Item r) in
     recipientID \<noteq> [] \<and> (principalID = [] \<or> recipientID = principalID) \<and> \<not> Terminal r \<and> \<not> Failed r)"

definition listOutbox :: "string \<Rightarrow> recordIndex \<Rightarrow> Record list" where
  "listOutbox principalID = index_list (\<lambda>r. let sender = pn_ID (it_From (rd_Item r)) in
     sender \<noteq> [] \<and> (principalID = [] \<or> sender = principalID) \<and> \<not> Terminal r)"

definition listQueue :: "string \<Rightarrow> recordIndex \<Rightarrow> Record list" where
  "listQueue queue = index_list (\<lambda>r. let queueName = QueueName (rd_Item r) in
     queueName \<noteq> [] \<and> (queue = [] \<or> queueName = queue) \<and> \<not> Terminal r)"

definition listSent :: "string \<Rightarrow> recordIndex \<Rightarrow> Record list" where
  "listSent principalID = index_list (\<lambda>r. let sender = pn_ID (it_From (rd_Item r)) in
     sender \<noteq> [] \<and> (principalID = [] \<or> sender = principalID) \<and> Terminal r \<and> \<not> Failed r)"

definition listFailed :: "string \<Rightarrow> recordIndex \<Rightarrow> Record list" where
  "listFailed principalID = index_list (\<lambda>r.
     if principalID = [] then Failed r
     else if pn_ID (it_From (rd_Item r)) = principalID then Failed r
     else RecipientID (rd_Item r) = principalID \<and> Failed r)"

section \<open>Statistics\<close>

record Stats =
  st_Queued :: nat
  st_Failed :: nat
  st_HandedOff :: nat
  st_PendingPrivate :: nat
  st_PendingSky10Network :: nat
  st_LastHandoffAt :: int
  st_LastDeliveredAt :: int
  st_LastFailureAt :: int

definition last_of_type :: "string \<Rightarrow> Record list \<Rightarrow> int" where
  "last_of_type t rs = fold (\<lambda>e m. if ev_Type e = t \<and> ev_Timestamp e > m then ev_Timestamp e else m)
     (concat (map rd_Events rs)) zero_ns"

definition mail_Stats :: "recordIndex \<Rightarrow> Stats" where
  "mail_Stats idx = (let rs = index_records idx; count = (\<lambda>P. length (filter P rs)) in
     \<lparr>st_Queued = count (\<lambda>r. rd_State r = StateQueued),
      st_Failed = count (\<lambda>r. rd_State r = StateFailed),
      st_HandedOff = count (\<lambda>r. case LatestEvent r of Some e \<Rightarrow> ev_Type e = EventTypeHandedOff | None \<Rightarrow> False),
      st_PendingPrivate = count (\<lambda>r. statePending (rd_State r) \<and> item_Scope (rd_Item r) \<noteq> ScopeSky10Network),
      st_PendingSky10Network = count (\<lambda>r. statePending (rd_State r) \<and> item_Scope (rd_Item r) = ScopeSky10Network),
      st_LastHandoffAt = last_of_type EventTypeHandedOff rs,
      st_LastDeliveredAt = last_of_type EventTypeDelivered rs,
      st_LastFailureAt = last_of_type EventTypeDeliveryFailed rs\<rparr>)"

section \<open>Reads after updates\<close>

lemma state_at_upd [simp]:
  "state_at (fmupd i s idx) j = (if i = j then s else state_at idx j)"
  "state_at (fmdrop i idx) j = (if i = j then fresh_state else state_at idx j)"
  "state_at fmempty j = fresh_state"
  by (simp_all add: state_at_def)

lemma index_get_state:
  "index_get idx i = (if it_ID (rs_item (state_at idx i)) = [] then None else Some (buildRecord (state_at idx i)))"
  by (simp add: index_get_def state_at_def fresh_state_def zero_Item_def split: option.split)

lemma state_at_ops [simp]:
  "state_at (upsertItem item idx) j = (if it_ID item = j then (state_at idx j)\<lparr>rs_item := item\<rparr> else state_at idx j)"
  "state_at (index_appendEvent i e idx) j =
    (if i = j then (state_at idx j)\<lparr>rs_events := rs_events (state_at idx j) @ [e]\<rparr> else state_at idx j)"
  "state_at (setClaim c idx) j = (if cl_ItemID c = j then (state_at idx j)\<lparr>rs_claim := Some c\<rparr> else state_at idx j)"
  "state_at (clearClaim i idx) j = (if i = j then (state_at idx j)\<lparr>rs_claim := None\<rparr> else state_at idx j)"
  "state_at (index_delete i idx) j = (if i = j then fresh_state else state_at idx j)"
  by (auto simp: upsertItem_def index_appendEvent_def setClaim_def clearClaim_def index_delete_def Let_def
      fresh_state_def state_at_def split: option.split)

lemma buildRecord_sel [simp]:
  "rd_Item (buildRecord s) = rs_item s" "rd_Events (buildRecord s) = rs_events s" "rd_Claim (buildRecord s) = rs_claim s"
  by (simp_all add: buildRecord_def)

lemma index_records_set:
  "r \<in> set (index_records idx) \<longleftrightarrow> (\<exists>i. index_get idx i = Some r)"
  by (auto simp: index_records_def index_get_def image_iff split: option.splits if_splits)

text \<open>The derived state depends on the last event and the claim only.\<close>

lemma deriveState_cong:
  "(es = [] \<longleftrightarrow> es' = []) \<Longrightarrow> (es \<noteq> [] \<Longrightarrow> ev_Type (last es) = ev_Type (last es')) \<Longrightarrow> deriveState es c = deriveState es' c"
  by (simp add: deriveState_def)

lemma deriveState_created:
  "ev_Type e = EventTypeCreated \<Longrightarrow> deriveState (e # es) c = deriveState es c"
  by (simp add: deriveState_def stateForEvent_def)

end
