(* ===== verification/Mailbox_Store.thy ===== *)
theory Mailbox_Store
  imports Mailbox_Index
begin

text \<open>
  The mailbox store (\<open>pkg/agent/mailbox/store.go\<close>, \<open>backend.go\<close>) and its life cycle
  (\<open>lifecycle.go\<close>). The \<open>Backend\<close> interface is a record of operations on a backend state; \<open>'e\<close> is
  what the backend takes from its surroundings in one call (clock readings, random tokens, failures),
  and an operation of the store gets one such value per backend call it makes. A store is handed out
  only after its index has been loaded, so the index is never nil.
\<close>

section \<open>The backend interface\<close>

record ('e, 'b, 'err) Backend =
  be_Load :: "'e \<Rightarrow> 'b \<Rightarrow> 'b \<times> ('err mail_error + MailSnapshot)"
  be_CreateItem :: "'e \<Rightarrow> Item \<Rightarrow> 'b \<Rightarrow> 'b \<times> 'err mail_error option"
  be_AppendEvent :: "'e \<Rightarrow> Event \<Rightarrow> 'b \<Rightarrow> 'b \<times> ('err mail_error + Event)"
  be_Claim :: "'e \<Rightarrow> string \<Rightarrow> string \<Rightarrow> string \<Rightarrow> int \<Rightarrow> 'b \<Rightarrow> 'b \<times> ('err mail_error + Claim \<times> bool)"
  be_Renew :: "'e \<Rightarrow> string \<Rightarrow> string \<Rightarrow> string \<Rightarrow> string \<Rightarrow> int \<Rightarrow> 'b \<Rightarrow> 'b \<times> ('err mail_error + Claim \<times> bool)"
  be_Release :: "'e \<Rightarrow> string \<Rightarrow> string \<Rightarrow> string \<Rightarrow> string \<Rightarrow> 'b \<Rightarrow> 'b \<times> ('err mail_error + bool)"
  be_DeleteItem :: "'e \<Rightarrow> string \<Rightarrow> 'b \<Rightarrow> 'b \<times> 'err mail_error option"
  be_ContainsItem :: "'e \<Rightarrow> string \<Rightarrow> 'b \<Rightarrow> 'b \<times> bool"

type_synonym 'e calls = "nat \<Rightarrow> 'e"

record 'b MailStore =
  ms_backend :: 'b
  ms_index :: recordIndex

definition zero_Record :: Record where
  "zero_Record = \<lparr>rd_Item = zero_Item, rd_Events = [], rd_Claim = None, rd_State = StateQueued\<rparr>"

section \<open>Operations\<close>

definition Reload :: "('e, 'b, 'err) Backend \<Rightarrow> 'e \<Rightarrow> 'b MailStore \<Rightarrow> 'b MailStore \<times> 'err mail_error option" where
  "Reload B e s = (case be_Load B e (ms_backend s) of
      (b, Inl err) \<Rightarrow> (s\<lparr>ms_backend := b\<rparr>, Some err)
    | (b, Inr sp) \<Rightarrow> (s\<lparr>ms_backend := b, ms_index := newRecordIndex sp\<rparr>, None))"

definition mail_NewStore :: "('e, 'b, 'err) Backend \<Rightarrow> 'e \<Rightarrow> 'b \<Rightarrow> 'err mail_error + 'b MailStore" where
  "mail_NewStore B e b = (case Reload B e \<lparr>ms_backend = b, ms_index = fmempty\<rparr> of
      (s, Some err) \<Rightarrow> Inl err | (s, None) \<Rightarrow> Inr s)"

definition mail_Get :: "'b MailStore \<Rightarrow> string \<Rightarrow> Record option" where
  "mail_Get s itemID = index_get (ms_index s) itemID"

definition got :: "'b MailStore \<Rightarrow> string \<Rightarrow> Record" where
  "got s itemID = (case mail_Get s itemID of Some r \<Rightarrow> r | None \<Rightarrow> zero_Record)"

text \<open>The lower-case \<open>appendEvent\<close> writes to the backend only.\<close>

definition store_appendEvent ::
  "('e, 'b, 'err) Backend \<Rightarrow> 'e \<Rightarrow> Event \<Rightarrow> 'b MailStore \<Rightarrow> 'b MailStore \<times> ('err mail_error + Event)" where
  "store_appendEvent B e event s = (case Event_Validate event of
      Some err \<Rightarrow> (s, Inl err)
    | None \<Rightarrow> (case be_AppendEvent B e event (ms_backend s) of (b, r) \<Rightarrow> (s\<lparr>ms_backend := b\<rparr>, r)))"

definition mail_AppendEvent ::
  "('e, 'b, 'err) Backend \<Rightarrow> 'e \<Rightarrow> Event \<Rightarrow> 'b MailStore \<Rightarrow> 'b MailStore \<times> ('err mail_error + Record)" where
  "mail_AppendEvent B e event s =
     (if ev_ItemID event = [] then (s, Inl EventItemRequired)
      else case mail_Get s (ev_ItemID event) of
        None \<Rightarrow> (s, Inl (ItemNotFound (ev_ItemID event)))
      | Some _ \<Rightarrow> (case store_appendEvent B e event s of
          (s1, Inl err) \<Rightarrow> (s1, Inl err)
        | (s1, Inr stored) \<Rightarrow>
            (let s2 = s1\<lparr>ms_index := index_appendEvent (ev_ItemID stored) stored (ms_index s1)\<rparr>
             in (s2, Inr (got s2 (ev_ItemID stored))))))"

definition applyCreateDefaults :: "int \<Rightarrow> Item \<Rightarrow> Item" where
  "applyCreateDefaults now item =
     (let p = DefaultLifecyclePolicy (it_Kind item) in
      if it_ExpiresAt item = zero_ns \<and> lp_DefaultTTL p > 0 then item\<lparr>it_ExpiresAt := now + lp_DefaultTTL p\<rparr> else item)"

text \<open>The item that \<open>Create\<close> stores: identifier, creation time and expiry filled in.\<close>

definition created_item :: "int \<Rightarrow> string \<Rightarrow> Item \<Rightarrow> Item" where
  "created_item now newID item =
     (let i1 = (if it_ID item = [] then item\<lparr>it_ID := newID\<rparr> else item);
          i2 = (if it_CreatedAt i1 = zero_ns then i1\<lparr>it_CreatedAt := now\<rparr> else i1)
      in applyCreateDefaults now i2)"

definition mail_Create ::
  "('e, 'b, 'err) Backend \<Rightarrow> 'e calls \<Rightarrow> int \<Rightarrow> string \<Rightarrow> Item \<Rightarrow> 'b MailStore \<Rightarrow> 'b MailStore \<times> ('err mail_error + Record)" where
  "mail_Create B es now newID item0 s =
     (let item = created_item now newID item0 in
      case ValidateForCreate item of
        Some err \<Rightarrow> (s, Inl err)
      | None \<Rightarrow> (case be_CreateItem B (es 0) item (ms_backend s) of
          (b, Some err) \<Rightarrow> (s\<lparr>ms_backend := b\<rparr>, Inl err)
        | (b, None) \<Rightarrow>
            (let s1 = s\<lparr>ms_backend := b, ms_index := upsertItem item (ms_index s)\<rparr> in
             case store_appendEvent B (es 1) (new_Event (it_ID item) EventTypeCreated (it_From item) [] [] None) s1 of
               (s2, Inl err) \<Rightarrow> (fst (Reload B (es 2) s2), Inl err)
             | (s2, Inr _) \<Rightarrow> (case mail_Get s2 (it_ID item) of
                 None \<Rightarrow> (s2, Inl (ItemNotFound (it_ID item)))
               | Some r \<Rightarrow> (s2, Inr r)))))"

text \<open>The checks shared by \<open>Claim\<close>, \<open>Release\<close> and \<open>Renew\<close>: the queue of a known, claimable item.\<close>

definition claim_queue :: "'b MailStore \<Rightarrow> string \<Rightarrow> 'err mail_error + string" where
  "claim_queue s itemID = (case mail_Get s itemID of
      None \<Rightarrow> Inl (ItemNotFound itemID)
    | Some r \<Rightarrow> (let queue = QueueName (rd_Item r) in if queue = [] then Inl (NotClaimable itemID) else Inr queue))"

definition mail_Claim ::
  "('e, 'b, 'err) Backend \<Rightarrow> 'e calls \<Rightarrow> string \<Rightarrow> Principal \<Rightarrow> int \<Rightarrow> 'b MailStore
    \<Rightarrow> 'b MailStore \<times> ('err mail_error + Record \<times> bool)" where
  "mail_Claim B es itemID actor ttl s = (case claim_queue s itemID of
      Inl err \<Rightarrow> (s, Inl err)
    | Inr queue \<Rightarrow> (case Principal_Validate actor of
        Some err \<Rightarrow> (s, Inl err)
      | None \<Rightarrow> (case be_Claim B (es 0) queue itemID (pn_ID actor) ttl (ms_backend s) of
          (b, Inl err) \<Rightarrow> (s\<lparr>ms_backend := b\<rparr>, Inl err)
        | (b, Inr (claim, False)) \<Rightarrow> (let s1 = s\<lparr>ms_backend := b\<rparr> in (s1, Inr (got s1 itemID, False)))
        | (b, Inr (claim, True)) \<Rightarrow>
            (let s1 = s\<lparr>ms_backend := b, ms_index := setClaim claim (ms_index s)\<rparr> in
             case mail_AppendEvent B (es 1) (new_Event itemID EventTypeClaimed actor (cl_Token claim) []
                    (Some (fmupd ''queue'' queue fmempty))) s1 of
               (s2, Inl err) \<Rightarrow> (fst (Reload B (es 2) s2), Inl err)
             | (s2, Inr r) \<Rightarrow> (s2, Inr (r, True))))))"

definition mail_Release ::
  "('e, 'b, 'err) Backend \<Rightarrow> 'e \<Rightarrow> string \<Rightarrow> string \<Rightarrow> string \<Rightarrow> 'b MailStore
    \<Rightarrow> 'b MailStore \<times> ('err mail_error + Record \<times> bool)" where
  "mail_Release B e itemID holder token s = (case claim_queue s itemID of
      Inl err \<Rightarrow> (s, Inl err)
    | Inr queue \<Rightarrow> (case be_Release B e queue itemID holder token (ms_backend s) of
        (b, Inl err) \<Rightarrow> (s\<lparr>ms_backend := b\<rparr>, Inl err)
      | (b, Inr False) \<Rightarrow> (let s1 = s\<lparr>ms_backend := b\<rparr> in (s1, Inr (got s1 itemID, False)))
      | (b, Inr True) \<Rightarrow> (let s1 = s\<lparr>ms_backend := b, ms_index := clearClaim itemID (ms_index s)\<rparr> in
           (s1, Inr (got s1 itemID, True)))))"

definition mail_Renew ::
  "('e, 'b, 'err) Backend \<Rightarrow> 'e \<Rightarrow> string \<Rightarrow> string \<Rightarrow> string \<Rightarrow> int \<Rightarrow> 'b MailStore
    \<Rightarrow> 'b MailStore \<times> ('err mail_error + Record \<times> bool)" where
  "mail_Renew B e itemID holder token ttl s = (case claim_queue s itemID of
      Inl err \<Rightarrow> (s, Inl err)
    | Inr queue \<Rightarrow> (case be_Renew B e queue itemID holder token ttl (ms_backend s) of
        (b, Inl err) \<Rightarrow> (s\<lparr>ms_backend := b\<rparr>, Inl err)
      | (b, Inr (claim, False)) \<Rightarrow> (let s1 = s\<lparr>ms_backend := b\<rparr> in (s1, Inr (got s1 itemID, False)))
      | (b, Inr (claim, True)) \<Rightarrow> (let s1 = s\<lparr>ms_backend := b, ms_index := setClaim claim (ms_index s)\<rparr> in
           (s1, Inr (got s1 itemID, True)))))"

definition listMatching :: "(Record \<Rightarrow> bool) \<Rightarrow> 'b MailStore \<Rightarrow> Record list" where
  "listMatching fn s = index_list fn (ms_index s)"

definition findFirstMatching :: "(Record \<Rightarrow> bool) \<Rightarrow> 'b MailStore \<Rightarrow> Record option" where
  "findFirstMatching fn s = (case listMatching fn s of [] \<Rightarrow> None | r # _ \<Rightarrow> Some r)"

definition ListByRequestID :: "string \<Rightarrow> 'b MailStore \<Rightarrow> Record list" where
  "ListByRequestID requestID = listMatching (\<lambda>r. it_RequestID (rd_Item r) = requestID)"

definition ListReplies :: "string \<Rightarrow> 'b MailStore \<Rightarrow> Record list" where
  "ListReplies replyTo = listMatching (\<lambda>r. it_ReplyTo (rd_Item r) = replyTo)"

section \<open>Life cycle\<close>

definition lifecycleActor :: "string \<Rightarrow> Principal" where
  "lifecycleActor scope = zero_Principal\<lparr>pn_ID := ''system:mailbox'', pn_Kind := PrincipalKindLocalAgent, pn_Scope := scope\<rparr>"

definition meta_is :: "Event \<Rightarrow> string \<Rightarrow> string \<Rightarrow> bool" where
  "meta_is e k v = (case ev_Meta e of None \<Rightarrow> False
     | Some m \<Rightarrow> (case fmlookup m k of Some x \<Rightarrow> x | None \<Rightarrow> []) = v)"

definition hasRecordEvent :: "Record \<Rightarrow> string \<Rightarrow> string \<Rightarrow> string \<Rightarrow> bool" where
  "hasRecordEvent r eventType metaKey metaValue =
     list_ex (\<lambda>e. ev_Type e = eventType \<and> (metaKey = [] \<or> meta_is e metaKey metaValue)) (rd_Events r)"

definition latestEventOfType :: "Record \<Rightarrow> string \<Rightarrow> Event option" where
  "latestEventOfType r t = find (\<lambda>e. ev_Type e = t) (rev (rd_Events r))"

definition deliveryFailureCount :: "Record \<Rightarrow> nat" where
  "deliveryFailureCount r = length (filter (\<lambda>e. ev_Type e = EventTypeDeliveryFailed) (rd_Events r))"

definition latestFailureError :: "Record \<Rightarrow> string" where
  "latestFailureError r = (case latestEventOfType r EventTypeDeliveryFailed of None \<Rightarrow> [] | Some e \<Rightarrow> ev_Error e)"

definition retries_exhausted :: "Record \<Rightarrow> bool" where
  "retries_exhausted r \<longleftrightarrow> (let mx = rt_MaxAttempts (lp_Retry (DefaultLifecyclePolicy (it_Kind (rd_Item r)))) in
     mx > 0 \<and> int (deliveryFailureCount r) \<ge> mx)"

definition NextRetryAt :: "Record \<Rightarrow> int option" where
  "NextRetryAt r =
     (if rd_State r \<noteq> StateFailed then None
      else if retries_exhausted r then None
      else case latestEventOfType r EventTypeDeliveryFailed of
        None \<Rightarrow> None
      | Some e \<Rightarrow> Some (ev_Timestamp e +
          Delay (lp_Retry (DefaultLifecyclePolicy (it_Kind (rd_Item r)))) (int (deliveryFailureCount r))))"

definition shouldCompactDeliveredRecord :: "int \<Rightarrow> Record \<Rightarrow> LifecyclePolicy \<Rightarrow> bool" where
  "shouldCompactDeliveredRecord now r p =
     (if rd_State r \<noteq> StateDelivered then False
      else if it_ExpiresAt (rd_Item r) \<noteq> zero_ns \<and> \<not> now < it_ExpiresAt (rd_Item r) then True
      else if lp_DeliveredRetention p \<le> 0 then False
      else if recordActivityTime r = zero_ns then False
      else \<not> now < recordActivityTime r + lp_DeliveredRetention p)"

definition compactRecord ::
  "('e, 'b, 'err) Backend \<Rightarrow> 'e \<Rightarrow> Record \<Rightarrow> 'b MailStore \<Rightarrow> 'b MailStore \<times> 'err mail_error option" where
  "compactRecord B e r s = (case be_DeleteItem B e (it_ID (rd_Item r)) (ms_backend s) of
      (b, Some err) \<Rightarrow> (s\<lparr>ms_backend := b\<rparr>, Some err)
    | (b, None) \<Rightarrow> (s\<lparr>ms_backend := b, ms_index := index_delete (it_ID (rd_Item r)) (ms_index s)\<rparr>, None))"

record LifecycleSweepResult =
  sw_Expired :: nat
  sw_LeaseExpired :: nat
  sw_DeadLettered :: nat
  sw_Compacted :: nat

definition refreshed :: "'b MailStore \<Rightarrow> Record \<Rightarrow> Record" where
  "refreshed s r = (case mail_Get s (it_ID (rd_Item r)) of Some r' \<Rightarrow> r' | None \<Rightarrow> r)"

text \<open>
  \<open>sweepRecord\<close> in the order of its stages. Each returns the store, the counters and either an error
  or the record as read back. The \<open>changed\<close> flag of the code is not used by its caller.
\<close>

definition sweep_lease ::
  "('e, 'b, 'err) Backend \<Rightarrow> 'e calls \<Rightarrow> int \<Rightarrow> Record \<Rightarrow> LifecycleSweepResult \<Rightarrow> 'b MailStore
    \<Rightarrow> 'b MailStore \<times> LifecycleSweepResult \<times> ('err mail_error + Record)" where
  "sweep_lease B es now r res s = (case rd_Claim r of
      None \<Rightarrow> (s, res, Inr r)
    | Some c \<Rightarrow>
        if now < cl_ExpiresAt c then (s, res, Inr r)
        else (case (if hasRecordEvent r EventTypeLeaseExpired ''lease_id'' (cl_Token c) then (s, res, None)
               else (case mail_AppendEvent B (es 0) (new_Event (it_ID (rd_Item r)) EventTypeLeaseExpired
                        (lifecycleActor (item_Scope (rd_Item r))) (cl_Token c) []
                        (Some (fmap_of_list [(''lease_id'', cl_Token c), (''queue'', QueueName (rd_Item r))]))) s of
                   (s1, Inl err) \<Rightarrow> (s1, res, Some err)
                 | (s1, Inr _) \<Rightarrow> (s1, res\<lparr>sw_LeaseExpired := Suc (sw_LeaseExpired res)\<rparr>, None))) of
            (s1, res1, Some err) \<Rightarrow> (s1, res1, Inl err)
          | (s1, res1, None) \<Rightarrow> (case mail_Release B (es 1) (it_ID (rd_Item r)) (cl_Holder c) (cl_Token c) s1 of
              (s2, Inl err) \<Rightarrow> (s2, res1, Inl err)
            | (s2, Inr _) \<Rightarrow> (s2, res1, Inr (refreshed s2 r)))))"

definition due :: "int \<Rightarrow> Record \<Rightarrow> bool" where
  "due now r \<longleftrightarrow> it_ExpiresAt (rd_Item r) \<noteq> zero_ns \<and> \<not> now < it_ExpiresAt (rd_Item r)"

definition sweep_expiry ::
  "('e, 'b, 'err) Backend \<Rightarrow> 'e \<Rightarrow> int \<Rightarrow> Record \<Rightarrow> LifecycleSweepResult \<Rightarrow> 'b MailStore
    \<Rightarrow> 'b MailStore \<times> LifecycleSweepResult \<times> ('err mail_error + Record)" where
  "sweep_expiry B e now r res s =
     (if Terminal r \<or> \<not> due now r then (s, res, Inr r)
      else if hasRecordEvent r EventTypeExpired [] [] then (s, res, Inr (refreshed s r))
      else (case mail_AppendEvent B e (new_Event (it_ID (rd_Item r)) EventTypeExpired
               (lifecycleActor (item_Scope (rd_Item r))) [] [] None) s of
          (s1, Inl err) \<Rightarrow> (s1, res, Inl err)
        | (s1, Inr _) \<Rightarrow> (s1, res\<lparr>sw_Expired := Suc (sw_Expired res)\<rparr>, Inr (refreshed s1 r))))"

definition sweep_deadletter ::
  "('e, 'b, 'err) Backend \<Rightarrow> 'e \<Rightarrow> Record \<Rightarrow> LifecycleSweepResult \<Rightarrow> 'b MailStore
    \<Rightarrow> 'b MailStore \<times> LifecycleSweepResult \<times> ('err mail_error + Record)" where
  "sweep_deadletter B e r res s =
     (if rd_State r \<noteq> StateFailed \<or> \<not> retries_exhausted r then (s, res, Inr r)
      else if hasRecordEvent r EventTypeDeadLettered ''reason'' ''retry_budget_exhausted'' then (s, res, Inr (refreshed s r))
      else (case mail_AppendEvent B e (new_Event (it_ID (rd_Item r)) EventTypeDeadLettered
               (lifecycleActor (item_Scope (rd_Item r))) [] (latestFailureError r)
               (Some (fmap_of_list [(''reason'', ''retry_budget_exhausted''),
                 (''attempts'', show_nat (deliveryFailureCount r))]))) s of
          (s1, Inl err) \<Rightarrow> (s1, res, Inl err)
        | (s1, Inr _) \<Rightarrow> (s1, res\<lparr>sw_DeadLettered := Suc (sw_DeadLettered res)\<rparr>, Inr (refreshed s1 r))))"

definition sweep_compact ::
  "('e, 'b, 'err) Backend \<Rightarrow> 'e \<Rightarrow> Record \<Rightarrow> LifecycleSweepResult \<Rightarrow> 'b MailStore
    \<Rightarrow> 'b MailStore \<times> LifecycleSweepResult \<times> 'err mail_error option" where
  "sweep_compact B e r res s = (case compactRecord B e r s of
      (s1, Some err) \<Rightarrow> (s1, res, Some err)
    | (s1, None) \<Rightarrow> (s1, res\<lparr>sw_Compacted := Suc (sw_Compacted res)\<rparr>, None))"

definition retention_over :: "int \<Rightarrow> Record \<Rightarrow> LifecyclePolicy \<Rightarrow> bool" where
  "retention_over now r p \<longleftrightarrow> Terminal r \<and> lp_TerminalRetention p > 0 \<and> recordActivityTime r \<noteq> zero_ns \<and>
     \<not> now < recordActivityTime r + lp_TerminalRetention p"

definition sweepRecord ::
  "('e, 'b, 'err) Backend \<Rightarrow> 'e calls \<Rightarrow> int \<Rightarrow> Record \<Rightarrow> LifecycleSweepResult \<Rightarrow> 'b MailStore
    \<Rightarrow> 'b MailStore \<times> LifecycleSweepResult \<times> 'err mail_error option" where
  "sweepRecord B es now r0 res0 s0 = (case sweep_lease B es now r0 res0 s0 of
      (s1, res1, Inl err) \<Rightarrow> (s1, res1, Some err)
    | (s1, res1, Inr r1) \<Rightarrow>
        (let p = DefaultLifecyclePolicy (it_Kind (rd_Item r1)) in
         if shouldCompactDeliveredRecord now r1 p then sweep_compact B (es 2) r1 res1 s1
         else (case sweep_expiry B (es 3) now r1 res1 s1 of
             (s2, res2, Inl err) \<Rightarrow> (s2, res2, Some err)
           | (s2, res2, Inr r2) \<Rightarrow> (case sweep_deadletter B (es 4) r2 res2 s2 of
               (s3, res3, Inl err) \<Rightarrow> (s3, res3, Some err)
             | (s3, res3, Inr r3) \<Rightarrow>
                 if retention_over now r3 p then sweep_compact B (es 5) r3 res3 s3 else (s3, res3, None)))))"

fun sweep_records ::
  "('e, 'b, 'err) Backend \<Rightarrow> 'e calls list \<Rightarrow> int \<Rightarrow> Record list \<Rightarrow> LifecycleSweepResult \<Rightarrow> 'b MailStore
    \<Rightarrow> 'b MailStore \<times> LifecycleSweepResult \<times> 'err mail_error option" where
  "sweep_records B (es # ess) now (r # rs) res s = (case sweepRecord B es now r res s of
      (s1, res1, Some err) \<Rightarrow> (s1, res1, Some err)
    | (s1, res1, None) \<Rightarrow> sweep_records B ess now rs res1 s1)"
| "sweep_records B _ now _ res s = (s, res, None)"

text \<open>\<open>ess\<close> has the backend calls made for each record of the list.\<close>

definition Sweep ::
  "('e, 'b, 'err) Backend \<Rightarrow> (nat \<Rightarrow> 'e calls) \<Rightarrow> int \<Rightarrow> 'b MailStore
    \<Rightarrow> 'b MailStore \<times> LifecycleSweepResult \<times> 'err mail_error option" where
  "Sweep B ess now s = (let rs = listMatching (\<lambda>_. True) s in
     sweep_records B (map ess [0..<length rs]) now rs
       \<lparr>sw_Expired = 0, sw_LeaseExpired = 0, sw_DeadLettered = 0, sw_Compacted = 0\<rparr> s)"

text \<open>
  C33. Retries back off exponentially up to a limit: for every kind of item the delay after the
  \<open>n\<close>-th failed delivery is the initial backoff doubled \<open>n - 1\<close> times, cut off at the maximum (without
  overflow, for any number of failures); it never decreases and never exceeds an hour.
\<close>
theorem retry_delay_backoff:
  "let p = lp_Retry (DefaultLifecyclePolicy kind) in
   Delay p (1 + int n) = min (rt_InitialBackoff p * 2 ^ n) (rt_MaxBackoff p) \<and>
   0 < Delay p (1 + int n) \<and> Delay p (1 + int n) \<le> Delay p (2 + int n) \<and> Delay p (1 + int n) \<le> Hour"
proof -
  define p where "p = lp_Retry (DefaultLifecyclePolicy kind)"
  have ok: "0 < rt_InitialBackoff p" "rt_InitialBackoff p \<le> rt_MaxBackoff p" "rt_MaxBackoff p \<le> Hour"
    using default_retry_ok [of kind] by (simp_all add: p_def Let_def)
  have d: "Delay p (1 + int k) = min (rt_InitialBackoff p * 2 ^ k) (rt_MaxBackoff p)" for k
    using Delay_min [of p "1 + int k"] ok by simp
  have "rt_InitialBackoff p * 2 ^ n \<le> rt_InitialBackoff p * 2 ^ Suc n"
    using ok by (intro mult_left_mono) simp_all
  then have mono: "Delay p (1 + int n) \<le> Delay p (1 + int (Suc n))"
    unfolding d by (intro min.mono) simp_all
  have "0 < rt_InitialBackoff p * 2 ^ n" using ok by simp
  then have "0 < Delay p (1 + int n)" using ok by (simp add: d)
  moreover have "Delay p (1 + int n) \<le> Hour" using ok by (simp add: d)
  moreover have "1 + int (Suc n) = 2 + int n" by simp
  ultimately show ?thesis
    using d [of n] mono unfolding Let_def p_def [symmetric] by metis
qed

end
