(* ===== verification/Mailbox_Backend.thy ===== *)
theory Mailbox_Backend
  imports Mailbox_Store
begin

text \<open>
  What the mailbox store relies on (the locale \<open>mailbox_backend\<close>, the contract of the \<open>Backend\<close>
  interface) and what it then guarantees: every record it shows is durable. A backend state stands for
  a map of items, a timeline of events per item and a lease per queue and item; \<open>inv n\<close> says that it is
  well formed and has room for \<open>n\<close> more writes, \<open>at e\<close> is the latest clock reading of the call \<open>e\<close>.
\<close>

section \<open>Loading\<close>

definition claimFromLease :: "string \<Rightarrow> string \<Rightarrow> LeaseRecord \<Rightarrow> Claim" where
  "claimFromLease queue itemID r = \<lparr>cl_Queue = queue, cl_ItemID = itemID, cl_Holder = le_Holder r, cl_Token = le_Token r,
     cl_AcquiredAt = le_AcquiredAt r, cl_ExpiresAt = le_ExpiresAt r\<rparr>"

lemma state_at_items:
  "state_at (fold upsertItem xs idx) j =
   (if \<exists>it\<in>set xs. it_ID it = j then (state_at idx j)\<lparr>rs_item := last (filter (\<lambda>it. it_ID it = j) xs)\<rparr> else state_at idx j)"
  by (induction xs arbitrary: idx) (auto simp: filter_empty_conv)

lemma state_at_claims:
  "state_at (fold setClaim xs idx) j =
   (if \<exists>c\<in>set xs. cl_ItemID c = j then (state_at idx j)\<lparr>rs_claim := Some (last (filter (\<lambda>c. cl_ItemID c = j) xs))\<rparr>
    else state_at idx j)"
  by (induction xs arbitrary: idx) (auto simp: filter_empty_conv)

lemma last_filter_unique:
  assumes "x \<in> set xs" "P x" "\<And>y. y \<in> set xs \<Longrightarrow> P y \<Longrightarrow> y = x"
  shows "last (filter P xs) = x"
proof -
  have "filter P xs \<noteq> []" using assms(1,2) by (auto simp: filter_empty_conv)
  then have "last (filter P xs) \<in> set (filter P xs)" by (rule last_in_set)
  then show ?thesis using assms(3) by simp
qed

lemma state_at_append_fold:
  "state_at (fold (index_appendEvent i) es idx) j =
   (if i = j then (state_at idx j)\<lparr>rs_events := rs_events (state_at idx j) @ es\<rparr> else state_at idx j)"
  by (induction es arbitrary: idx) auto

lemma state_at_event_lists:
  assumes "distinct (map fst kvs)"
  shows "state_at (fold (\<lambda>(i, es) idx. fold (index_appendEvent i) (event_order es) idx) kvs idx) j =
    (case map_of kvs j of None \<Rightarrow> state_at idx j
     | Some es \<Rightarrow> (state_at idx j)\<lparr>rs_events := rs_events (state_at idx j) @ event_order es\<rparr>)"
  using assms
proof (induction kvs arbitrary: idx)
  case (Cons kv kvs)
  obtain i es where kv: "kv = (i, es)" by (cases kv)
  have "map_of kvs i = None" using Cons.prems by (simp add: kv map_of_eq_None_iff)
  then show ?case
    using Cons.IH [of "fold (index_appendEvent i) (event_order es) idx"] Cons.prems
    by (auto simp: kv state_at_append_fold split: option.splits)
qed simp

lemma fm_items_distinct: "distinct (map fst (fm_items m))"
  by (simp add: fm_items_eq range_items_def comp_def)

lemma state_at_loaded:
  "state_at (newRecordIndex sp) j =
     (let s0 = state_at (fold upsertItem (sp_Items sp) fmempty) j;
          s1 = s0\<lparr>rs_events := (case fmlookup (sp_Events sp) j of None \<Rightarrow> [] | Some es \<Rightarrow> event_order es)\<rparr>
      in if \<exists>c\<in>set (sp_Claims sp). cl_ItemID c = j
         then s1\<lparr>rs_claim := Some (last (filter (\<lambda>c. cl_ItemID c = j) (sp_Claims sp)))\<rparr> else s1)"
proof -
  have ev: "rs_events (state_at (fold upsertItem xs fmempty) i) = []" for xs i
    by (simp add: state_at_items fresh_state_def)
  have map: "map_of (fm_items (sp_Events sp)) j = fmlookup (sp_Events sp) j"
    by (simp add: fm_items_def)
  have "s\<lparr>rs_events := []\<rparr> = s" if "rs_events s = []" for s :: recordState using that by (cases s) simp
  with ev show ?thesis
    by (simp add: newRecordIndex_def state_at_claims state_at_event_lists fm_items_distinct map Let_def split: option.split)
qed

lemma event_order_sorted:
  "sorted_wrt (\<lambda>x y. ev_Timestamp x < ev_Timestamp y) es \<Longrightarrow> event_order es = es"
proof -
  assume "sorted_wrt (\<lambda>x y. ev_Timestamp x < ev_Timestamp y) es"
  then have "sorted (map (\<lambda>e. (ev_Timestamp e, ev_EventID e)) es)"
    by (simp add: sorted_map) (erule sorted_wrt_mono_rel [rotated], simp add: less_eq_prod_def)
  then show ?thesis by (simp add: event_order_def sorted_sort_id sort_key_id_if_sorted)
qed

section \<open>The contract\<close>

text \<open>A lease or claim that has not expired at a time.\<close>

definition live_lease :: "int \<Rightarrow> LeaseRecord option \<Rightarrow> LeaseRecord option" where
  "live_lease t x = (case x of None \<Rightarrow> None | Some l \<Rightarrow> if Expired l t then None else Some l)"

definition live_claim :: "int \<Rightarrow> Claim option \<Rightarrow> Claim option" where
  "live_claim t x = (case x of None \<Rightarrow> None | Some c \<Rightarrow> if t < cl_ExpiresAt c then Some c else None)"

lemma live_simps [simp]:
  "live_lease t None = None" "live_claim t None = None"
  "live_claim t (map_option (claimFromLease q i) x) = map_option (claimFromLease q i) (live_lease t x)"
  by (auto simp: live_lease_def live_claim_def claimFromLease_def Expired_def split: option.split)

lemma live_leaseD: "live_lease t x = Some l \<Longrightarrow> x = Some l"
  by (auto simp: live_lease_def split: option.splits if_splits)

lemma live_later:
  "t \<le> u \<Longrightarrow> live_lease t x = live_lease t y \<Longrightarrow> live_lease u x = live_lease u y"
  "t \<le> u \<Longrightarrow> live_claim t c = live_claim t d \<Longrightarrow> live_claim u c = live_claim u d"
proof -
  assume tu: "t \<le> u"
  have "live_lease u z = live_lease u (live_lease t z)" "live_claim u k = live_claim u (live_claim t k)" for z k
    using tu by (auto simp: live_lease_def live_claim_def Expired_def split: option.splits if_splits)
  then show "live_lease t x = live_lease t y \<Longrightarrow> live_lease u x = live_lease u y"
    "live_claim t c = live_claim t d \<Longrightarrow> live_claim u c = live_claim u d" by metis+
qed

locale mailbox_backend =
  fixes B :: "('e, 'b, 'err) Backend"
    and inv :: "nat \<Rightarrow> 'b \<Rightarrow> bool"
    and env_ok :: "'e \<Rightarrow> bool"
    and start :: "'e \<Rightarrow> int"
    and at :: "'e \<Rightarrow> int"
    and item_ok :: "Item \<Rightarrow> bool"
    and event_ok :: "Event \<Rightarrow> bool"
    and items :: "'b \<Rightarrow> string \<Rightarrow> Item option"
    and events :: "'b \<Rightarrow> string \<Rightarrow> Event list"
    and lease :: "'b \<Rightarrow> string \<Rightarrow> string \<Rightarrow> LeaseRecord option"
  assumes inv_mono: "inv n b \<Longrightarrow> m \<le> n \<Longrightarrow> inv m b"
    and wf_item: "inv n b \<Longrightarrow> items b i = Some it \<Longrightarrow> it_ID it = i \<and> i \<noteq> []"
    and wf_events: "inv n b \<Longrightarrow> items b i = None \<Longrightarrow> events b i = []"
    and wf_sorted: "inv n b \<Longrightarrow> sorted_wrt (\<lambda>x y. ev_Timestamp x < ev_Timestamp y) (events b i)"
    and wf_lease: "inv n b \<Longrightarrow> lease b q i = Some l \<Longrightarrow> \<exists>it. items b i = Some it \<and> QueueName it = q"
    and load_law: "inv n b \<Longrightarrow> env_ok e \<Longrightarrow> be_Load B e b = (b', ld) \<Longrightarrow>
      inv n b' \<and> items b' = items b \<and> events b' = events b \<and> lease b' = lease b \<and>
      (\<exists>sp. ld = Inr sp \<and> (\<forall>it. it \<in> set (sp_Items sp) \<longleftrightarrow> (\<exists>i. items b i = Some it)) \<and>
        (\<forall>i. fmlookup (sp_Events sp) i = (if events b i = [] then None else Some (events b i))) \<and>
        (\<forall>c\<in>set (sp_Claims sp). \<exists>q i l. lease b q i = Some l \<and> c = claimFromLease q i l) \<and>
        (\<forall>q i l. live_lease (at e) (lease b q i) = Some l \<longrightarrow> claimFromLease q i l \<in> set (sp_Claims sp)))"
    and create_law: "inv (n + 4) b \<Longrightarrow> env_ok e \<Longrightarrow> item_ok it \<Longrightarrow> it_ID it \<noteq> [] \<Longrightarrow> items b (it_ID it) = None \<Longrightarrow>
      be_CreateItem B e it b = (b', err) \<Longrightarrow>
      inv n b' \<and> events b' = events b \<and> lease b' = lease b \<and>
      (items b' = (items b)(it_ID it \<mapsto> it) \<or> (err \<noteq> None \<and> items b' = items b))"
    and append_law: "inv (Suc n) b \<Longrightarrow> env_ok e \<Longrightarrow> event_ok ev \<Longrightarrow> items b (ev_ItemID ev) \<noteq> None \<Longrightarrow>
      (\<And>x. x \<in> set (events b (ev_ItemID ev)) \<Longrightarrow> ev_Timestamp x < at e) \<Longrightarrow>
      be_AppendEvent B e ev b = (b', ap) \<Longrightarrow>
      inv n b' \<and> items b' = items b \<and> lease b' = lease b \<and>
      (case ap of Inl _ \<Rightarrow> events b' = events b
       | Inr st \<Rightarrow> (\<exists>eid. st = ev\<lparr>ev_EventID := eid, ev_Timestamp := at e\<rparr>) \<and>
           events b' = (events b)(ev_ItemID ev := events b (ev_ItemID ev) @ [st]))"
    and claim_law: "inv (Suc n) b \<Longrightarrow> env_ok e \<Longrightarrow> items b i = Some it \<Longrightarrow> QueueName it \<noteq> [] \<Longrightarrow> utf8_valid holder \<Longrightarrow>
      be_Claim B e (QueueName it) i holder ttl b = (b', cr) \<Longrightarrow>
      inv n b' \<and> items b' = items b \<and> events b' = events b \<and>
      (\<exists>x. lease b' = (lease b)(QueueName it := (lease b (QueueName it))(i := x)) \<and>
        (case cr of
           Inr (c, True) \<Rightarrow> (\<exists>l. x = Some l \<and> c = claimFromLease (QueueName it) i l \<and> le_Holder l = holder \<and> utf8_valid (le_Token l)) \<and>
             live_lease (at e) (lease b (QueueName it) i) = None
         | _ \<Rightarrow> live_lease (at e) x = live_lease (at e) (lease b (QueueName it) i)))"
    and renew_law: "inv (Suc n) b \<Longrightarrow> env_ok e \<Longrightarrow> items b i = Some it \<Longrightarrow> QueueName it \<noteq> [] \<Longrightarrow> at e < start e + ttl \<Longrightarrow>
      be_Renew B e (QueueName it) i holder token ttl b = (b', cr) \<Longrightarrow>
      inv n b' \<and> items b' = items b \<and> events b' = events b \<and>
      (\<exists>x. lease b' = (lease b)(QueueName it := (lease b (QueueName it))(i := x)) \<and>
        (case cr of
           Inr (c, True) \<Rightarrow> \<exists>l. x = Some l \<and> c = claimFromLease (QueueName it) i l \<and> le_Holder l = holder \<and> le_Token l = token
         | _ \<Rightarrow> x = lease b (QueueName it) i))"
    and release_law: "inv (Suc n) b \<Longrightarrow> env_ok e \<Longrightarrow> items b i = Some it \<Longrightarrow> QueueName it \<noteq> [] \<Longrightarrow>
      be_Release B e (QueueName it) i holder token b = (b', rr) \<Longrightarrow>
      inv n b' \<and> items b' = items b \<and> events b' = events b \<and>
      lease b' = (if rr = Inr True then (lease b)(QueueName it := (lease b (QueueName it))(i := None)) else lease b)"
    and delete_law: "inv (n + 5 + length (events b i)) b \<Longrightarrow> env_ok e \<Longrightarrow> be_DeleteItem B e i b = (b', None) \<Longrightarrow>
      inv n b' \<and> items b' = (items b)(i := None) \<and> events b' = (events b)(i := []) \<and>
      lease b' = (\<lambda>q. (lease b q)(i := None))"

section \<open>Every record is durable\<close>

text \<open>
  \<open>durable\<close>: the backend has the record's item, its timeline (preceded by the \<open>created\<close> event, which
  \<open>Create\<close> does not put into the index), and the same unexpired claim.
\<close>

definition durable ::
  "('b \<Rightarrow> string \<Rightarrow> Item option) \<Rightarrow> ('b \<Rightarrow> string \<Rightarrow> Event list) \<Rightarrow> ('b \<Rightarrow> string \<Rightarrow> string \<Rightarrow> LeaseRecord option)
    \<Rightarrow> int \<Rightarrow> 'b \<Rightarrow> string \<Rightarrow> recordState \<Rightarrow> bool" where
  "durable items events lease t b i rs \<longleftrightarrow>
     items b i = Some (rs_item rs) \<and>
     (\<exists>pre. events b i = pre @ rs_events rs \<and> (pre = [] \<or> (\<exists>e. pre = [e] \<and> ev_Type e = EventTypeCreated))) \<and>
     live_claim t (rs_claim rs) =
       map_option (claimFromLease (QueueName (rs_item rs)) i) (live_lease t (lease b (QueueName (rs_item rs)) i))"

definition agree ::
  "('b \<Rightarrow> string \<Rightarrow> Item option) \<Rightarrow> ('b \<Rightarrow> string \<Rightarrow> Event list) \<Rightarrow> ('b \<Rightarrow> string \<Rightarrow> string \<Rightarrow> LeaseRecord option)
    \<Rightarrow> int \<Rightarrow> 'b MailStore \<Rightarrow> bool" where
  "agree items events lease t s \<longleftrightarrow>
     (\<forall>i. state_at (ms_index s) i \<noteq> fresh_state \<longrightarrow>
        durable items events lease t (ms_backend s) i (state_at (ms_index s) i)) \<and>
     (\<forall>i x. x \<in> set (events (ms_backend s) i) \<longrightarrow> ev_Timestamp x \<le> t)"

text \<open>The three backend calls of an operation happen one after the other.\<close>

definition calls_ok :: "('e \<Rightarrow> bool) \<Rightarrow> ('e \<Rightarrow> int) \<Rightarrow> int \<Rightarrow> 'e calls \<Rightarrow> bool" where
  "calls_ok ok clk t es \<longleftrightarrow> (\<forall>k. ok (es k)) \<and> t < clk (es 0) \<and> clk (es 0) < clk (es 1) \<and> clk (es 1) < clk (es 2)"

lemma durable_later:
  assumes "durable items events lease t b i rs" "t \<le> u"
  shows "durable items events lease u b i rs"
proof -
  let ?q = "QueueName (rs_item rs)"
  have "live_claim t (rs_claim rs) = live_claim t (map_option (claimFromLease ?q i) (lease b ?q i))"
    using assms(1) by (simp add: durable_def)
  from live_later(2) [OF assms(2) this] assms(1) show ?thesis by (simp add: durable_def)
qed

lemma agree_later: "agree items events lease t s \<Longrightarrow> t \<le> u \<Longrightarrow> agree items events lease u s"
  unfolding agree_def by (metis durable_later order_trans)

lemma fresh_no_item [simp]: "it_ID (rs_item fresh_state) = []"
  by (simp add: fresh_state_def zero_Item_def)

lemma agree_state:
  assumes "agree items events lease t s" "mail_Get s i = Some r"
  shows "durable items events lease t (ms_backend s) i (state_at (ms_index s) i)" "r = buildRecord (state_at (ms_index s) i)"
    "it_ID (rd_Item r) \<noteq> []"
proof -
  have r: "it_ID (rs_item (state_at (ms_index s) i)) \<noteq> []" "r = buildRecord (state_at (ms_index s) i)"
    using assms(2) by (auto simp: mail_Get_def index_get_state split: if_splits)
  then have "state_at (ms_index s) i \<noteq> fresh_state" by auto
  then show "durable items events lease t (ms_backend s) i (state_at (ms_index s) i)" using assms(1) by (simp add: agree_def)
  show "r = buildRecord (state_at (ms_index s) i)" "it_ID (rd_Item r) \<noteq> []" using r by simp_all
qed

text \<open>A loaded claim is the lease; a lease that is live at the end of the call has been loaded.\<close>

definition loaded_claim :: "int \<Rightarrow> string \<Rightarrow> string \<Rightarrow> LeaseRecord option \<Rightarrow> Claim option \<Rightarrow> bool" where
  "loaded_claim t q i x c \<longleftrightarrow> (c = None \<or> c = map_option (claimFromLease q i) x) \<and>
     live_claim t c = map_option (claimFromLease q i) (live_lease t x)"

context mailbox_backend
begin

lemma load_claim:
  assumes "inv n b" "env_ok e" "be_Load B e b = (b', Inr sp)" "items b i = Some it"
  shows "loaded_claim (at e) (QueueName it) i (lease b (QueueName it) i) (if \<exists>c\<in>set (sp_Claims sp). cl_ItemID c = i
    then Some (last (filter (\<lambda>c. cl_ItemID c = i) (sp_Claims sp))) else None)"
proof -
  let ?q = "QueueName it"
  note law = load_law [OF assms(1-3), simplified]
  have one: "lease b ?q i = Some l \<and> c = claimFromLease ?q i l" if l: "lease b q i = Some l" "c = claimFromLease q i l" for q l c
    using wf_lease [OF assms(1) l(1)] l assms(4) by auto
  have mine: "\<exists>l. lease b ?q i = Some l \<and> c = claimFromLease ?q i l" if c: "c \<in> set (sp_Claims sp)" "cl_ItemID c = i" for c
  proof -
    obtain q j l where "lease b q j = Some l" "c = claimFromLease q j l" using law c(1) by blast
    moreover have "j = i" using calculation c(2) by (simp add: claimFromLease_def)
    ultimately show ?thesis using one by blast
  qed
  show ?thesis
  proof (cases "\<exists>c\<in>set (sp_Claims sp). cl_ItemID c = i")
    case True
    then obtain c where c: "c \<in> set (sp_Claims sp)" "cl_ItemID c = i" by blast
    obtain l where l: "lease b ?q i = Some l" "c = claimFromLease ?q i l" using mine [OF c] by blast
    have "last (filter (\<lambda>c. cl_ItemID c = i) (sp_Claims sp)) = c"
      using mine l by (intro last_filter_unique c) auto
    then show ?thesis using True l live_simps(3) [of "at e" ?q i "Some l"] by (simp add: loaded_claim_def)
  next
    case False
    have "live_lease (at e) (lease b ?q i) = None"
    proof (rule ccontr)
      assume "live_lease (at e) (lease b ?q i) \<noteq> None"
      then obtain l where "live_lease (at e) (lease b ?q i) = Some l" by auto
      then have "claimFromLease ?q i l \<in> set (sp_Claims sp)" using law by blast
      then show False using False by (auto simp: claimFromLease_def)
    qed
    with False show ?thesis by (simp add: loaded_claim_def)
  qed
qed

lemma load_state:
  assumes "inv n b" "env_ok e" "be_Load B e b = (b', Inr sp)"
  shows "case items b i of None \<Rightarrow> state_at (newRecordIndex sp) i = fresh_state
    | Some it \<Rightarrow> \<exists>c. state_at (newRecordIndex sp) i = \<lparr>rs_item = it, rs_events = events b i, rs_claim = c\<rparr> \<and>
        loaded_claim (at e) (QueueName it) i (lease b (QueueName it) i) c"
proof -
  note law = load_law [OF assms, simplified]
  have its: "it \<in> set (sp_Items sp) \<and> it_ID it = i \<longleftrightarrow> items b i = Some it" for it
    using law wf_item [OF assms(1)] by blast
  have evs: "(case fmlookup (sp_Events sp) i of None \<Rightarrow> [] | Some es \<Rightarrow> event_order es) = events b i"
    using law event_order_sorted [OF wf_sorted [OF assms(1)]] by simp
  show ?thesis
  proof (cases "items b i")
    case None
    then have "\<not> (\<exists>it\<in>set (sp_Items sp). it_ID it = i)" using its by auto
    moreover have "\<not> (\<exists>c\<in>set (sp_Claims sp). cl_ItemID c = i)"
    proof
      assume "\<exists>c\<in>set (sp_Claims sp). cl_ItemID c = i"
      then obtain c where c: "c \<in> set (sp_Claims sp)" "cl_ItemID c = i" by blast
      then obtain q j l where "lease b q j = Some l" "c = claimFromLease q j l" using law by blast
      with c(2) wf_lease [OF assms(1)] None show False by (fastforce simp: claimFromLease_def)
    qed
    ultimately show ?thesis
      using None evs wf_events [OF assms(1) None]
      by (simp add: state_at_loaded state_at_items fresh_state_def Let_def)
  next
    case (Some it)
    have "last (filter (\<lambda>x. it_ID x = i) (sp_Items sp)) = it"
      using its Some by (intro last_filter_unique) (metis option.inject)+
    then have st: "state_at (fold upsertItem (sp_Items sp) fmempty) i = \<lparr>rs_item = it, rs_events = [], rs_claim = None\<rparr>"
      using its [of it] Some by (auto simp: state_at_items fresh_state_def)
    show ?thesis
      using load_claim [OF assms Some] Some st evs
      by (cases "\<exists>c\<in>set (sp_Claims sp). cl_ItemID c = i") (simp_all add: state_at_loaded Let_def)
  qed
qed

lemma Reload_agree:
  assumes "inv n (ms_backend s)" "env_ok e" "agree items events lease t s" "t \<le> at e" "Reload B e s = (s', r)"
  shows "r = None \<and> inv n (ms_backend s') \<and> agree items events lease (at e) s' \<and>
    items (ms_backend s') = items (ms_backend s) \<and>
    (\<forall>i it. items (ms_backend s) i = Some it \<longrightarrow> (\<exists>c. state_at (ms_index s') i =
        \<lparr>rs_item = it, rs_events = events (ms_backend s) i, rs_claim = c\<rparr> \<and>
        loaded_claim (at e) (QueueName it) i (lease (ms_backend s) (QueueName it) i) c))"
proof -
  obtain b ld where ld: "be_Load B e (ms_backend s) = (b, ld)" by fastforce
  note law = load_law [OF assms(1,2) ld]
  then obtain sp where sp: "ld = Inr sp" by blast
  have s': "r = None" "ms_backend s' = b" "ms_index s' = newRecordIndex sp"
    using assms(5) by (auto simp: Reload_def ld sp)
  note st = load_state [OF assms(1,2), of b sp, OF ld [unfolded sp]]
  have "durable items events lease (at e) b i (state_at (newRecordIndex sp) i)"
    if "state_at (newRecordIndex sp) i \<noteq> fresh_state" for i
    using that law st [of i] by (cases "items (ms_backend s) i") (auto simp: durable_def loaded_claim_def)
  then have "agree items events lease (at e) s'"
    using law assms(3,4) s' by (force simp: agree_def)
  moreover have "\<exists>c. state_at (ms_index s') i = \<lparr>rs_item = it, rs_events = events (ms_backend s) i, rs_claim = c\<rparr> \<and>
      loaded_claim (at e) (QueueName it) i (lease (ms_backend s) (QueueName it) i) c" if "items (ms_backend s) i = Some it" for i it
    using st [of i] that s'(3) by simp
  ultimately show ?thesis using law s'(1,2) by blast
qed

text \<open>Storing an event: the timeline of its item grows by it, or nothing changes.\<close>

lemma stored_event:
  assumes "inv (Suc n) (ms_backend s)" "env_ok e" "event_ok ev" "items (ms_backend s) (ev_ItemID ev) \<noteq> None"
    and "agree items events lease t s" "t < at e" "store_appendEvent B e ev s = (s1, r)"
  shows "inv n (ms_backend s1) \<and> ms_index s1 = ms_index s \<and> items (ms_backend s1) = items (ms_backend s) \<and>
    lease (ms_backend s1) = lease (ms_backend s) \<and>
    (case r of Inl _ \<Rightarrow> events (ms_backend s1) = events (ms_backend s)
     | Inr st \<Rightarrow> (\<exists>eid. st = ev\<lparr>ev_EventID := eid, ev_Timestamp := at e\<rparr>) \<and>
         events (ms_backend s1) = (events (ms_backend s))(ev_ItemID ev := events (ms_backend s) (ev_ItemID ev) @ [st]))"
proof (cases "Event_Validate ev :: 'err mail_error option")
  case None
  obtain b ap where ap: "be_AppendEvent B e ev (ms_backend s) = (b, ap)" by fastforce
  have "ev_Timestamp x < at e" if "x \<in> set (events (ms_backend s) (ev_ItemID ev))" for x
    using assms(5,6) that by (force simp: agree_def)
  from append_law [OF assms(1-4) this ap] None assms(7) show ?thesis
    by (cases r) (auto simp: store_appendEvent_def ap)
next
  case (Some err)
  then show ?thesis
    using assms(1,7) inv_mono [OF assms(1), of n] by (auto simp: store_appendEvent_def)
qed

lemma agree_times:
  "agree items events lease t s \<Longrightarrow> x \<in> set (events (ms_backend s) i) \<Longrightarrow> ev_Timestamp x \<le> t"
  by (simp add: agree_def)

lemma AppendEvent_agree:
  assumes "inv (Suc n) (ms_backend s)" "env_ok e" "event_ok ev" "agree items events lease t s" "t < at e"
    and "mail_AppendEvent B e ev s = (s', r)"
  shows "inv n (ms_backend s') \<and> agree items events lease (at e) s' \<and> items (ms_backend s') = items (ms_backend s)"
proof (cases "ev_ItemID ev = [] \<or> mail_Get s (ev_ItemID ev) = None")
  case True
  then have "s' = s" using assms(6) by (auto simp: mail_AppendEvent_def split: if_splits)
  then show ?thesis using assms(4,5) inv_mono [OF assms(1), of n] agree_later [OF assms(4), of "at e"] by simp
next
  case False
  let ?i = "ev_ItemID ev"
  obtain r0 where r0: "mail_Get s ?i = Some r0" using False by auto
  have dur: "durable items events lease (at e) (ms_backend s) j (state_at (ms_index s) j)"
    if "state_at (ms_index s) j \<noteq> fresh_state" for j
    using agree_later [OF assms(4), of "at e"] assms(5) that by (simp add: agree_def)
  have item: "items (ms_backend s) ?i \<noteq> None"
    using agree_state(1) [OF assms(4) r0] by (auto simp: durable_def)
  obtain s1 x where x: "store_appendEvent B e ev s = (s1, x)" by fastforce
  note st = stored_event [OF assms(1-3) item assms(4,5) x]
  show ?thesis
  proof (cases x)
    case (Inl err)
    then have "s' = s1" using assms(6) False r0 x by (simp add: mail_AppendEvent_def)
    with st Inl dur agree_times [OF assms(4)] assms(5) show ?thesis
      by (force simp: agree_def durable_def)
  next
    case (Inr e')
    then have e': "ev_ItemID e' = ?i" "ev_Timestamp e' = at e" using st by auto
    then have s': "ms_backend s' = ms_backend s1" "ms_index s' = index_appendEvent ?i e' (ms_index s)"
      using assms(6) False r0 x Inr st by (auto simp: mail_AppendEvent_def Let_def)
    have "state_at (ms_index s) ?i \<noteq> fresh_state"
      using r0 by (auto simp: mail_Get_def index_get_state)
    then have "durable items events lease (at e) (ms_backend s') j (state_at (ms_index s') j)"
      if "state_at (ms_index s') j \<noteq> fresh_state" for j
      using dur [of j] that st Inr s' by (auto simp: durable_def split: if_splits)
    moreover have "ev_Timestamp y \<le> at e" if "y \<in> set (events (ms_backend s') j)" for y j
      using that st Inr s' e' agree_times [OF assms(4), of y j] assms(5) by (auto split: if_splits)
    ultimately show ?thesis using st s' by (auto simp: agree_def)
  qed
qed

lemma Create_agree:
  assumes "inv (n + 5) (ms_backend s)" "calls_ok env_ok at t es" "agree items events lease t s"
    and "item_ok (created_item now newID item)" "it_ID (created_item now newID item) \<noteq> []"
    and "items (ms_backend s) (it_ID (created_item now newID item)) = None"
    and "event_ok (new_Event (it_ID (created_item now newID item)) EventTypeCreated (it_From (created_item now newID item)) [] [] None)"
    and "mail_Create B es now newID item s = (s', r)"
  shows "inv n (ms_backend s') \<and> agree items events lease (at (es 2)) s'"
proof -
  let ?it = "created_item now newID item" and ?b = "ms_backend s"
  let ?ev = "new_Event (it_ID ?it) EventTypeCreated (it_From ?it) [] [] None"
  have times: "t < at (es 0)" "at (es 0) < at (es 1)" "at (es 1) < at (es 2)" and ok: "env_ok (es k)" for k
    using assms(2) by (auto simp: calls_ok_def)
  have ag: "agree items events lease u s" if "t \<le> u" for u using agree_later [OF assms(3) that] .
  show ?thesis
  proof (cases "ValidateForCreate ?it :: 'err mail_error option")
    case (Some err)
    then show ?thesis
      using assms(8) ag [of "at (es 2)"] times inv_mono [OF assms(1), of n] by (auto simp: mail_Create_def)
  next
    case valid: None
    obtain b x where cr: "be_CreateItem B (es 0) ?it ?b = (b, x)" by fastforce
    have "inv (Suc n + 4) ?b" using assms(1) by (simp add: eval_nat_numeral)
    note law = create_law [OF this ok assms(4-6) cr]
    have ev0: "events ?b (it_ID ?it) = []" using wf_events [OF assms(1,6)] .
    have lease0: "lease ?b q (it_ID ?it) = None" for q
      using wf_lease [OF assms(1), of q "it_ID ?it"] assms(6) by (cases "lease ?b q (it_ID ?it)") auto
    have no_state: "state_at (ms_index s) (it_ID ?it) = fresh_state"
      using assms(3,6) by (auto simp: agree_def durable_def)
    show ?thesis
    proof (cases x)
      case (Some err)
      then have s': "s' = s\<lparr>ms_backend := b\<rparr>" using assms(8) valid cr by (auto simp: mail_Create_def)
      have "agree items events lease (at (es 2)) s'"
        using ag [of "at (es 2)"] times law s' no_state by (auto simp: agree_def durable_def)
      then show ?thesis using s' law inv_mono [of "Suc n" b n] by simp
    next
      case None
      define s1 where "s1 = s\<lparr>ms_backend := b, ms_index := upsertItem ?it (ms_index s)\<rparr>"
      have b1: "items b = (items ?b)(it_ID ?it \<mapsto> ?it)" using law None by auto
      have st1: "state_at (ms_index s1) (it_ID ?it) = fresh_state\<lparr>rs_item := ?it\<rparr>"
        by (simp add: s1_def no_state)
      have ag1: "agree items events lease u s1" if "t \<le> u" for u
        using ag [OF that] law b1 ev0 lease0 no_state
        by (auto simp: agree_def durable_def s1_def fresh_state_def)
      obtain s2 y where y: "store_appendEvent B (es 1) ?ev s1 = (s2, y)" by fastforce
      have "inv (Suc n) (ms_backend s1)" "items (ms_backend s1) (ev_ItemID ?ev) \<noteq> None"
        using law b1 by (simp_all add: s1_def new_Event_def)
      note st = stored_event [OF this(1) ok assms(7) this(2) ag1 [of "at (es 0)"] times(2) y]
      have ag2: "agree items events lease (at (es 1)) s2"
      proof -
        have "durable items events lease (at (es 1)) (ms_backend s2) j (state_at (ms_index s2) j)"
          if "state_at (ms_index s2) j \<noteq> fresh_state" for j
          using ag1 [of "at (es 1)"] times that st st1 law ev0
          by (cases y) (auto simp: agree_def durable_def s1_def new_Event_def fresh_state_def split: if_splits)
        moreover have "ev_Timestamp z \<le> at (es 1)" if "z \<in> set (events (ms_backend s2) j)" for z j
          using that st agree_times [OF ag1 [of "at (es 1)"], of z j] times
          by (cases y) (auto simp: new_Event_def split: if_splits)
        ultimately show ?thesis by (simp add: agree_def)
      qed
      show ?thesis
      proof (cases y)
        case (Inl err)
        then have "s' = fst (Reload B (es 2) s2)"
          using assms(8) valid cr None y by (simp add: mail_Create_def s1_def Let_def)
        then show ?thesis
          using Reload_agree [OF _ ok [of 2] ag2, of n] st times by (metis less_imp_le prod.collapse)
      next
        case (Inr e')
        then have "s' = s2"
          using assms(8) valid cr None y by (auto simp: mail_Create_def s1_def Let_def split: option.splits)
        then show ?thesis using st times agree_later [OF ag2, of "at (es 2)"] by simp
      qed
    qed
  qed
qed

text \<open>A change of one lease, with the matching change of the index.\<close>

lemma lease_change_agree:
  assumes "agree items events lease t s" "t \<le> u" "mail_Get s i = Some r"
    and "items b = items (ms_backend s)" "events b = events (ms_backend s)"
    and "lease b = (lease (ms_backend s))(QueueName (rd_Item r) := (lease (ms_backend s) (QueueName (rd_Item r)))(i := x))"
    and "live_claim u c = map_option (claimFromLease (QueueName (rd_Item r)) i) (live_lease u x)"
    and "\<And>j. state_at idx j = (if i = j then (state_at (ms_index s) j)\<lparr>rs_claim := c\<rparr> else state_at (ms_index s) j)"
  shows "agree items events lease u (s\<lparr>ms_backend := b, ms_index := idx\<rparr>)"
proof -
  note ag = agree_later [OF assms(1,2)]
  note r = agree_state [OF ag assms(3)]
  have "durable items events lease u b j (state_at idx j)" if "state_at idx j \<noteq> fresh_state" for j
  proof (cases "i = j")
    case True
    then show ?thesis using r assms(4-8) by (auto simp: durable_def)
  next
    case False
    then have "durable items events lease u (ms_backend s) j (state_at (ms_index s) j)"
      using that assms(8) ag by (simp add: agree_def)
    then show ?thesis using False assms(4-6,8) by (simp add: durable_def)
  qed
  then show ?thesis using ag assms(5) by (simp add: agree_def)
qed

lemma live_claim_same:
  assumes "agree items events lease t s" "t \<le> u" "mail_Get s i = Some r"
  shows "live_claim u (rs_claim (state_at (ms_index s) i)) =
    map_option (claimFromLease (QueueName (rd_Item r)) i) (live_lease u (lease (ms_backend s) (QueueName (rd_Item r)) i))"
  using agree_state [OF agree_later [OF assms(1,2)] assms(3)] by (simp add: durable_def)

lemma claim_queue_Inr:
  "claim_queue s i = Inr q \<longleftrightarrow> (\<exists>r. mail_Get s i = Some r \<and> q = QueueName (rd_Item r) \<and> q \<noteq> [])"
  by (auto simp: claim_queue_def Let_def split: option.splits)

lemma Release_agree:
  assumes "inv (Suc n) (ms_backend s)" "env_ok e" "agree items events lease t s" "t \<le> at e"
    and "mail_Release B e i holder token s = (s', res)"
  shows "inv n (ms_backend s') \<and> agree items events lease (at e) s' \<and> items (ms_backend s') = items (ms_backend s)"
proof (cases "claim_queue s i :: 'err mail_error + string")
  case (Inl err)
  then show ?thesis
    using assms(5) inv_mono [OF assms(1), of n] agree_later [OF assms(3,4)] by (auto simp: mail_Release_def)
next
  case (Inr q)
  then obtain r where r: "mail_Get s i = Some r" "q = QueueName (rd_Item r)" "q \<noteq> []" by (auto simp: claim_queue_Inr)
  have it: "items (ms_backend s) i = Some (rd_Item r)"
    using agree_state [OF assms(3) r(1)] by (simp add: durable_def)
  obtain b rr where rr: "be_Release B e q i holder token (ms_backend s) = (b, rr)" by fastforce
  note law = release_law [OF assms(1,2) it r(3) [unfolded r(2)] rr [unfolded r(2)]]
  show ?thesis
  proof (cases "rr = Inr True")
    case True
    then have "s' = s\<lparr>ms_backend := b, ms_index := clearClaim i (ms_index s)\<rparr>"
      using assms(5) Inr rr by (auto simp: mail_Release_def Let_def)
    then show ?thesis
      using lease_change_agree [OF assms(3,4) r(1), of b None None "clearClaim i (ms_index s)"] law True by simp
  next
    case False
    then have "s' = s\<lparr>ms_backend := b\<rparr>"
      using assms(5) Inr rr by (auto simp: mail_Release_def Let_def split: sum.splits bool.splits)
    then show ?thesis
      using lease_change_agree [OF assms(3,4) r(1), of b "lease (ms_backend s) q i" "rs_claim (state_at (ms_index s) i)" "ms_index s"]
        live_claim_same [OF assms(3,4) r(1)] law False r(2) by auto
  qed
qed

lemma Renew_agree:
  assumes "inv (Suc n) (ms_backend s)" "env_ok e" "agree items events lease t s" "t \<le> at e" "at e < start e + ttl"
    and "mail_Renew B e i holder token ttl s = (s', res)"
  shows "inv n (ms_backend s') \<and> agree items events lease (at e) s' \<and> items (ms_backend s') = items (ms_backend s)"
proof (cases "claim_queue s i :: 'err mail_error + string")
  case (Inl err)
  then show ?thesis
    using assms(6) inv_mono [OF assms(1), of n] agree_later [OF assms(3,4)] by (auto simp: mail_Renew_def)
next
  case (Inr q)
  then obtain r where r: "mail_Get s i = Some r" "q = QueueName (rd_Item r)" "q \<noteq> []" by (auto simp: claim_queue_Inr)
  have it: "items (ms_backend s) i = Some (rd_Item r)"
    using agree_state [OF assms(3) r(1)] by (simp add: durable_def)
  obtain b cr where cr: "be_Renew B e q i holder token ttl (ms_backend s) = (b, cr)" by fastforce
  note law = renew_law [OF assms(1,2) it r(3) [unfolded r(2)] assms(5) cr [unfolded r(2)]]
  then obtain x where x: "lease b = (lease (ms_backend s))(q := (lease (ms_backend s) q)(i := x))"
    "case cr of Inr (c, True) \<Rightarrow> \<exists>l. x = Some l \<and> c = claimFromLease q i l \<and> le_Holder l = holder \<and> le_Token l = token
      | _ \<Rightarrow> x = lease (ms_backend s) q i" using r(2) by auto
  show ?thesis
  proof (cases "\<exists>c. cr = Inr (c, True)")
    case True
    then obtain c l where c: "cr = Inr (c, True)" "x = Some l" "c = claimFromLease q i l" using x(2) by auto
    then have "s' = s\<lparr>ms_backend := b, ms_index := setClaim c (ms_index s)\<rparr>"
      using assms(6) Inr cr by (auto simp: mail_Renew_def Let_def)
    moreover have "live_claim u (Some c) = map_option (claimFromLease q i) (live_lease u x)" for u
      using live_simps(3) [of u q i x] c by simp
    ultimately show ?thesis
      using lease_change_agree [OF assms(3,4) r(1), of b x "Some c" "setClaim c (ms_index s)"] law x(1) r(2) c
      by (simp add: claimFromLease_def)
  next
    case False
    then have "s' = s\<lparr>ms_backend := b\<rparr>"
      using assms(6) Inr cr by (auto simp: mail_Renew_def Let_def split: sum.splits prod.splits bool.splits)
    moreover have "x = lease (ms_backend s) q i" using x(2) False by (auto split: sum.splits prod.splits bool.splits)
    ultimately show ?thesis
      using lease_change_agree [OF assms(3,4) r(1), of b x "rs_claim (state_at (ms_index s) i)" "ms_index s"]
        live_claim_same [OF assms(3,4) r(1)] law x(1) r(2) by auto
  qed
qed

lemma Claim_step:
  assumes "inv (Suc n) (ms_backend s)" "env_ok e" "agree items events lease t s" "t \<le> at e"
    and "mail_Get s i = Some r" "QueueName (rd_Item r) \<noteq> []" "utf8_valid holder"
    and "be_Claim B e (QueueName (rd_Item r)) i holder ttl (ms_backend s) = (b, cr)"
  shows "inv n b" "items b = items (ms_backend s)"
    "cr = Inr (c, True) \<Longrightarrow> agree items events lease (at e) (s\<lparr>ms_backend := b, ms_index := setClaim c (ms_index s)\<rparr>) \<and>
       cl_Holder c = holder \<and> cl_ItemID c = i \<and> utf8_valid (cl_Token c) \<and> live_claim (at e) (rd_Claim r) = None"
    "\<nexists>c. cr = Inr (c, True) \<Longrightarrow> agree items events lease (at e) (s\<lparr>ms_backend := b\<rparr>)"
proof -
  let ?q = "QueueName (rd_Item r)" and ?L = "lease (ms_backend s)"
  note dur = agree_state [OF assms(3,5)]
  have it: "items (ms_backend s) i = Some (rd_Item r)" using dur by (simp add: durable_def)
  note law = claim_law [OF assms(1,2) it assms(6-8)]
  then show "inv n b" "items b = items (ms_backend s)" by auto
  obtain x where x: "lease b = ?L(?q := (?L ?q)(i := x))"
    "case cr of Inr (c, True) \<Rightarrow> (\<exists>l. x = Some l \<and> c = claimFromLease ?q i l \<and> le_Holder l = holder \<and> utf8_valid (le_Token l)) \<and>
        live_lease (at e) (?L ?q i) = None
      | _ \<Rightarrow> live_lease (at e) x = live_lease (at e) (?L ?q i)" using law by blast
  note change = lease_change_agree [OF assms(3,4,5), of b x]
  show "agree items events lease (at e) (s\<lparr>ms_backend := b, ms_index := setClaim c (ms_index s)\<rparr>) \<and>
       cl_Holder c = holder \<and> cl_ItemID c = i \<and> utf8_valid (cl_Token c) \<and> live_claim (at e) (rd_Claim r) = None" if ok: "cr = Inr (c, True)"
  proof -
    obtain l where c: "x = Some l" "c = claimFromLease ?q i l" "le_Holder l = holder" "utf8_valid (le_Token l)" "live_lease (at e) (?L ?q i) = None"
      using x(2) ok by auto
    have "live_claim (at e) (Some c) = map_option (claimFromLease ?q i) (live_lease (at e) x)"
      using live_simps(3) [of "at e" ?q i x] c by simp
    with change [of "Some c" "setClaim c (ms_index s)"] law x(1) c
      live_claim_same [OF assms(3,4,5)] dur(2) show ?thesis by (auto simp: claimFromLease_def)
  qed
  show "agree items events lease (at e) (s\<lparr>ms_backend := b\<rparr>)" if "\<nexists>c. cr = Inr (c, True)"
  proof -
    have "live_lease (at e) x = live_lease (at e) (?L ?q i)"
      using x(2) that by (auto split: sum.splits prod.splits bool.splits)
    with change [of "rs_claim (state_at (ms_index s) i)" "ms_index s"] live_claim_same [OF assms(3,4,5)] law x(1)
    show ?thesis by auto
  qed
qed

lemma Claim_agree:
  assumes "inv (Suc (Suc n)) (ms_backend s)" "calls_ok env_ok at t es" "agree items events lease t s"
    and "utf8_valid (pn_ID actor)" "\<And>tok it. utf8_valid tok \<Longrightarrow> items (ms_backend s) i = Some it \<Longrightarrow>
      event_ok (new_Event i EventTypeClaimed actor tok [] (Some (fmupd ''queue'' (QueueName it) fmempty)))"
    and "mail_Claim B es i actor ttl s = (s', res)"
  shows "inv n (ms_backend s') \<and> agree items events lease (at (es 2)) s' \<and> items (ms_backend s') = items (ms_backend s)"
proof -
  have times: "t < at (es 0)" "at (es 0) < at (es 1)" "at (es 1) < at (es 2)" and ok: "env_ok (es k)" for k
    using assms(2) by (auto simp: calls_ok_def)
  have same: ?thesis if "s' = s"
    using that agree_later [OF assms(3), of "at (es 2)"] times inv_mono [OF assms(1), of n] by simp
  show ?thesis
  proof (cases "claim_queue s i :: 'err mail_error + string")
    case (Inl err)
    then show ?thesis using assms(6) same by (auto simp: mail_Claim_def)
  next
    case (Inr q)
    then obtain r where r: "mail_Get s i = Some r" "q = QueueName (rd_Item r)" "QueueName (rd_Item r) \<noteq> []"
      by (auto simp: claim_queue_Inr)
    obtain b cr where cr: "be_Claim B (es 0) (QueueName (rd_Item r)) i (pn_ID actor) ttl (ms_backend s) = (b, cr)" by fastforce
    note step = Claim_step [OF assms(1) ok assms(3) less_imp_le [OF times(1)] r(1,3) assms(4) cr]
    show ?thesis
    proof (cases "Principal_Validate actor :: 'err mail_error option")
      case (Some err)
      then show ?thesis using assms(6) same Inr by (auto simp: mail_Claim_def)
    next
      case valid: None
      show ?thesis
      proof (cases "\<exists>c. cr = Inr (c, True)")
        case False
        then have "s' = s\<lparr>ms_backend := b\<rparr>"
          using assms(6) Inr valid cr r(2) by (auto simp: mail_Claim_def Let_def split: sum.splits prod.splits bool.splits)
        then show ?thesis
          using agree_later [OF step(4) [OF False], of "at (es 2)"] times step(1,2) inv_mono [of "Suc n" b n] by simp
      next
        case True
        then obtain c where c: "cr = Inr (c, True)" by blast
        define s1 where "s1 = s\<lparr>ms_backend := b, ms_index := setClaim c (ms_index s)\<rparr>"
        let ?ev = "new_Event i EventTypeClaimed actor (cl_Token c) [] (Some (fmupd ''queue'' q fmempty))"
        have ag1: "agree items events lease (at (es 0)) s1" using step(3) [OF c] by (simp add: s1_def)
        obtain s2 y where y: "mail_AppendEvent B (es 1) ?ev s1 = (s2, y)" by fastforce
        have "inv (Suc n) (ms_backend s1)" using step(1) by (simp add: s1_def)
        moreover have "event_ok ?ev"
          using assms(5) [of "cl_Token c" "rd_Item r"] step(3) [OF c] agree_state(1) [OF assms(3) r(1)] agree_state(2) [OF assms(3) r(1)] r(2)
          by (simp add: durable_def)
        ultimately have two: "inv n (ms_backend s2) \<and> agree items events lease (at (es 1)) s2 \<and> items (ms_backend s2) = items (ms_backend s1)"
          using AppendEvent_agree [OF _ ok _ ag1 times(2) y] by blast
        have items2: "items (ms_backend s2) = items (ms_backend s)" using two step(2) by (simp add: s1_def)
        have s': "s' = (case y of Inl _ \<Rightarrow> fst (Reload B (es 2) s2) | Inr _ \<Rightarrow> s2)"
          using assms(6) Inr valid cr r(2) c y by (auto simp: mail_Claim_def Let_def s1_def split: sum.splits)
        obtain s3 z where z: "Reload B (es 2) s2 = (s3, z)" by fastforce
        note three = Reload_agree [OF _ ok _ _ z, of n "at (es 1)"]
        show ?thesis
          using s' two three z items2 times agree_later [of items events lease "at (es 1)" s2 "at (es 2)"]
          by (cases y) auto
      qed
    qed
  qed
qed

lemma compact_agree:
  assumes "inv (n + 5 + length (events (ms_backend s) (it_ID (rd_Item r)))) (ms_backend s)" "env_ok e"
    and "agree items events lease t s" "t \<le> at e" "compactRecord B e r s = (s', None)"
  shows "inv n (ms_backend s') \<and> agree items events lease (at e) s' \<and>
    items (ms_backend s') = (items (ms_backend s))(it_ID (rd_Item r) := None) \<and> mail_Get s' (it_ID (rd_Item r)) = None"
proof -
  let ?i = "it_ID (rd_Item r)"
  obtain b where del: "be_DeleteItem B e ?i (ms_backend s) = (b, None)"
    and s': "s' = s\<lparr>ms_backend := b, ms_index := index_delete ?i (ms_index s)\<rparr>"
    using assms(5) by (auto simp: compactRecord_def split: prod.splits option.splits)
  note law = delete_law [OF assms(1,2) del]
  note ag = agree_later [OF assms(3,4)]
  have "agree items events lease (at e) s'"
    using ag law s' by (auto simp: agree_def durable_def)
  then show ?thesis using law s' by (simp add: mail_Get_def index_get_state)
qed

end

section \<open>Two backends side by side\<close>

text \<open>
  A backend whose calls only touch its own part of the shared state: \<open>chg b b'\<close> says that \<open>b'\<close> differs
  from \<open>b\<close> in that part at most.
\<close>

locale mailbox_framed = mailbox_backend B inv env_ok start at item_ok event_ok items events lease
  for B :: "('e, 'b, 'err) Backend" and inv :: "nat \<Rightarrow> 'b \<Rightarrow> bool" and env_ok :: "'e \<Rightarrow> bool"
    and start :: "'e \<Rightarrow> int" and at :: "'e \<Rightarrow> int" and item_ok :: "Item \<Rightarrow> bool" and event_ok :: "Event \<Rightarrow> bool"
    and items :: "'b \<Rightarrow> string \<Rightarrow> Item option" and events :: "'b \<Rightarrow> string \<Rightarrow> Event list"
    and lease :: "'b \<Rightarrow> string \<Rightarrow> string \<Rightarrow> LeaseRecord option" +
  fixes chg :: "'b \<Rightarrow> 'b \<Rightarrow> bool"
  assumes chg_load: "inv n b \<Longrightarrow> env_ok e \<Longrightarrow> chg b (fst (be_Load B e b))"
    and chg_create: "inv (n + 4) b \<Longrightarrow> env_ok e \<Longrightarrow> item_ok it \<Longrightarrow> it_ID it \<noteq> [] \<Longrightarrow> items b (it_ID it) = None \<Longrightarrow>
      chg b (fst (be_CreateItem B e it b))"
    and chg_append: "inv (Suc n) b \<Longrightarrow> env_ok e \<Longrightarrow> event_ok ev \<Longrightarrow> items b (ev_ItemID ev) \<noteq> None \<Longrightarrow>
      (\<And>x. x \<in> set (events b (ev_ItemID ev)) \<Longrightarrow> ev_Timestamp x < at e) \<Longrightarrow> chg b (fst (be_AppendEvent B e ev b))"
    and chg_claim: "inv (Suc n) b \<Longrightarrow> env_ok e \<Longrightarrow> items b i = Some it \<Longrightarrow> QueueName it \<noteq> [] \<Longrightarrow> utf8_valid holder \<Longrightarrow>
      chg b (fst (be_Claim B e (QueueName it) i holder ttl b))"
    and chg_renew: "inv (Suc n) b \<Longrightarrow> env_ok e \<Longrightarrow> items b i = Some it \<Longrightarrow> QueueName it \<noteq> [] \<Longrightarrow> at e < start e + ttl \<Longrightarrow>
      chg b (fst (be_Renew B e (QueueName it) i holder token ttl b))"
    and chg_release: "inv (Suc n) b \<Longrightarrow> env_ok e \<Longrightarrow> items b i = Some it \<Longrightarrow> QueueName it \<noteq> [] \<Longrightarrow>
      chg b (fst (be_Release B e (QueueName it) i holder token b))"
    and chg_delete: "inv (n + 5 + length (events b i)) b \<Longrightarrow> env_ok e \<Longrightarrow> be_DeleteItem B e i b = (b', None) \<Longrightarrow> chg b b'"
    and contains_law: "inv n b \<Longrightarrow> env_ok e \<Longrightarrow> be_ContainsItem B e i b = (b', r) \<Longrightarrow>
      inv n b' \<and> chg b b' \<and> items b' = items b \<and> events b' = events b \<and> lease b' = lease b \<and> r = (items b i \<noteq> None)"

end
