(* ===== verification/Mailbox_KV.thy ===== *)
theory Mailbox_KV
  imports Mailbox_Backend
begin

text \<open>
  The mailbox backends on the key-value store (\<open>pkg/agent/mailbox/private_kv.go\<close>, \<open>scoped_kv.go\<close>):
  key parts in unpadded URL-safe base64, items and event payloads as JSON, events in append logs, claims
  as leases. The operations take the key-value operations as arguments, as the collections do. The text
  of a JSON document is a pair of functions \<open>txt\<close> and \<open>prs\<close>.
\<close>

section \<open>Key parts\<close>

text \<open>\<open>base64.RawURLEncoding\<close>. Decoding ignores line breaks and does not look at left-over bits.\<close>

definition b64_char :: "nat \<Rightarrow> char" where
  "b64_char n = char_of (if n < 26 then n + 65 else if n < 52 then n + 71 else if n < 62 then n - 4
     else if n = 62 then 45 else 95)"

definition b64_val :: "char \<Rightarrow> nat option" where
  "b64_val c = (let n = of_char c :: nat in
     if 65 \<le> n \<and> n \<le> 90 then Some (n - 65)
     else if 97 \<le> n \<and> n \<le> 122 then Some (n - 71)
     else if 48 \<le> n \<and> n \<le> 57 then Some (n + 4)
     else if n = 45 then Some 62
     else if n = 95 then Some 63
     else None)"

fun b64_encode :: "nat list \<Rightarrow> nat list" where
  "b64_encode [] = []"
| "b64_encode [a] = [a div 4, a mod 4 * 16]"
| "b64_encode [a, b] = [a div 4, a mod 4 * 16 + b div 16, b mod 16 * 4]"
| "b64_encode (a # b # c # r) =
     a div 4 # (a mod 4 * 16 + b div 16) # (b mod 16 * 4 + c div 64) # c mod 64 # b64_encode r"

fun b64_decode :: "nat list \<Rightarrow> nat list option" where
  "b64_decode [] = Some []"
| "b64_decode [w] = None"
| "b64_decode [w, x] = Some [w * 4 + x div 16]"
| "b64_decode [w, x, y] = Some [w * 4 + x div 16, x mod 16 * 16 + y div 4]"
| "b64_decode (w # x # y # z # r) =
     map_option (\<lambda>t. (w * 4 + x div 16) # (x mod 16 * 16 + y div 4) # (y mod 4 * 64 + z) # t) (b64_decode r)"

definition encodeKeyPart :: "string \<Rightarrow> string" where
  "encodeKeyPart s = map b64_char (b64_encode (map of_char s))"

definition decodeKeyPart :: "string \<Rightarrow> string option" where
  "decodeKeyPart s = Option.bind (those (map b64_val (filter (\<lambda>c. c \<noteq> CHR 0x0A \<and> c \<noteq> CHR 0x0D) s)))
     (\<lambda>vs. map_option (map char_of) (b64_decode vs))"

lemma b64_val_char: "n < 64 \<Longrightarrow> b64_val (b64_char n) = Some n"
  by (auto simp: b64_val_def b64_char_def Let_def)

lemma b64_char_code: "n < 64 \<Longrightarrow> (of_char (b64_char n) :: nat) \<in> {45} \<union> {48..57} \<union> {65..90} \<union> {95} \<union> {97..122}"
  by (auto simp: b64_char_def)

lemma byte_split:
  fixes a :: nat
  assumes "a < 256"
  shows "a div 4 < 64" "a div 16 < 16" "a div 64 < 4" "a mod 4 \<le> 3" "a mod 16 \<le> 15" "a mod 64 < 64"
  using assms mod_less_divisor [of 4 a] mod_less_divisor [of 16 a] by linarith+

lemma digit_split: "y < k \<Longrightarrow> (x * k + y) div k = x" "y < k \<Longrightarrow> (x * k + y) mod k = (y :: nat)"
  by simp_all

lemma b64_encode_bound: "list_all (\<lambda>a. a < 256) xs \<Longrightarrow> list_all (\<lambda>v. v < 64) (b64_encode xs)"
proof (induction xs rule: b64_encode.induct)
  case (2 a)
  then show ?case using byte_split [of a] by simp
next
  case (3 a b)
  then show ?case using byte_split [of a] byte_split [of b] by simp
next
  case (4 a b c r)
  then show ?case using byte_split [of a] byte_split [of b] byte_split [of c] by simp
qed simp

lemma b64_decode_encode: "list_all (\<lambda>a. a < 256) xs \<Longrightarrow> b64_decode (b64_encode xs) = Some xs"
proof (induction xs rule: b64_encode.induct)
  case (3 a b)
  then show ?case using byte_split [of b] by (simp add: digit_split)
next
  case (4 a b c r)
  then show ?case using byte_split [of b] byte_split [of c] by (simp add: digit_split)
qed simp_all

lemma encodeKeyPart_chars:
  assumes "c \<in> set (encodeKeyPart s)"
  shows "(of_char c :: nat) \<in> {45} \<union> {48..57} \<union> {65..90} \<union> {95} \<union> {97..122}"
proof -
  have "list_all (\<lambda>v. v < 64) (b64_encode (map of_char s))"
    by (rule b64_encode_bound) (simp add: list_all_iff)
  then obtain n where "n < 64" "c = b64_char n"
    using assms by (auto simp: encodeKeyPart_def list_all_iff)
  then show ?thesis using b64_char_code [of n] by blast
qed

lemma encode_no_slash [simp]: "CHR ''/'' \<notin> set (encodeKeyPart s)"
  using encodeKeyPart_chars [of "CHR ''/''" s] by auto

lemma encode_ascii: "list_all (byte_in 0 127) (encodeKeyPart s)"
  unfolding list_all_iff byte_in_def
proof
  fix c assume "c \<in> set (encodeKeyPart s)"
  from encodeKeyPart_chars [OF this] show "0 \<le> (of_char c :: nat) \<and> (of_char c :: nat) \<le> 127" by auto
qed

lemma encode_no_breaks: "filter (\<lambda>c. c \<noteq> CHR 0x0A \<and> c \<noteq> CHR 0x0D) (encodeKeyPart s) = encodeKeyPart s"
proof (rule filter_True, rule ballI)
  fix c assume "c \<in> set (encodeKeyPart s)"
  from encodeKeyPart_chars [OF this] show "c \<noteq> CHR 0x0A \<and> c \<noteq> CHR 0x0D" by auto
qed

lemma decode_encode [simp]: "decodeKeyPart (encodeKeyPart s) = Some s"
proof -
  have b: "list_all (\<lambda>a. a < 256) (map of_char s :: nat list)" by (simp add: list_all_iff)
  have "those (map b64_val (map b64_char vs)) = Some vs" if "list_all (\<lambda>v. v < 64) vs" for vs
    using that by (induction vs) (auto simp: b64_val_char)
  from this [OF b64_encode_bound [OF b]] have "those (map b64_val (encodeKeyPart s)) = Some (b64_encode (map of_char s))"
    by (simp add: encodeKeyPart_def)
  then show ?thesis
    using b64_decode_encode [OF b] by (simp add: decodeKeyPart_def encode_no_breaks comp_def)
qed

lemma encode_inj [simp]: "encodeKeyPart s = encodeKeyPart t \<longleftrightarrow> s = t"
  by (metis decode_encode option.inject)

lemma encode_Nil [simp]: "encodeKeyPart s = [] \<longleftrightarrow> s = []"
  by (cases s; cases "tl s"; cases "tl (tl s)") (auto simp: encodeKeyPart_def)

section \<open>JSON forms\<close>

text \<open>\<open>time.Time\<close> marshals in the years 0 to 9999 only; the nanoseconds are kept.\<close>

definition time_ns_ok :: "int \<Rightarrow> bool" where
  "time_ns_ok t \<longleftrightarrow> time_json_ok (t div 1000000000)"

fun dec_time_ns :: "json option \<Rightarrow> int option" where
  "dec_time_ns None = Some zero_ns"
| "dec_time_ns (Some JNull) = Some zero_ns"
| "dec_time_ns (Some (JTime t)) = Some t"
| "dec_time_ns (Some _) = None"

definition principal_to_json :: "Principal \<Rightarrow> json" where
  "principal_to_json p = JObj ([(''id'', jstr (pn_ID p)), (''kind'', jstr (pn_Kind p)), (''scope'', jstr (pn_Scope p))]
     @ omit_string ''device_hint'' (pn_DeviceHint p) @ omit_string ''route_hint'' (pn_RouteHint p))"

definition principal_of_fields :: "(string \<times> json) list \<Rightarrow> Principal option" where
  "principal_of_fields obj = do {
     i \<leftarrow> dec_string (jget obj ''id'');
     k \<leftarrow> dec_string (jget obj ''kind'');
     sc \<leftarrow> dec_string (jget obj ''scope'');
     d \<leftarrow> dec_string (jget obj ''device_hint'');
     r \<leftarrow> dec_string (jget obj ''route_hint'');
     Some \<lparr>pn_ID = i, pn_Kind = k, pn_Scope = sc, pn_DeviceHint = d, pn_RouteHint = r\<rparr> }"

definition ref_to_json :: "PayloadRef \<Rightarrow> json" where
  "ref_to_json r = JObj ([(''kind'', jstr (pr_Kind r)), (''key'', jstr (pr_Key r)), (''size'', JInt (pr_Size r))]
     @ omit_string ''digest'' (pr_Digest r))"

definition ref_of_fields :: "(string \<times> json) list \<Rightarrow> PayloadRef option" where
  "ref_of_fields obj = do {
     k \<leftarrow> dec_string (jget obj ''kind'');
     key \<leftarrow> dec_string (jget obj ''key'');
     sz \<leftarrow> dec_int (jget obj ''size'');
     d \<leftarrow> dec_string (jget obj ''digest'');
     Some \<lparr>pr_Kind = k, pr_Key = key, pr_Size = sz, pr_Digest = d\<rparr> }"

text \<open>Decoding a struct value: absent and \<open>null\<close> leave the zero value.\<close>

fun struct_of :: "((string \<times> json) list \<Rightarrow> 'v option) \<Rightarrow> json option \<Rightarrow> 'v option" where
  "struct_of f None = f []"
| "struct_of f (Some JNull) = f []"
| "struct_of f (Some (JObj obj)) = f obj"
| "struct_of f (Some _) = None"

text \<open>A \<open>json.RawMessage\<close> field holds whatever document is there.\<close>

definition item_to_json :: "Item \<Rightarrow> json option" where
  "item_to_json i = (if time_ns_ok (it_ExpiresAt i) \<and> time_ns_ok (it_CreatedAt i) then Some (JObj (
     [(''id'', jstr (it_ID i)), (''kind'', jstr (it_Kind i)), (''from'', principal_to_json (it_From i))]
     @ omit_ptr ''to'' principal_to_json (it_To i)
     @ omit_string ''target_skill'' (it_TargetSkill i) @ omit_string ''session_id'' (it_SessionID i)
     @ omit_string ''request_id'' (it_RequestID i) @ omit_string ''reply_to'' (it_ReplyTo i)
     @ omit_string ''idempotency_key'' (it_IdempotencyKey i)
     @ omit_ptr ''payload_ref'' ref_to_json (it_PayloadRef i)
     @ omit_ptr ''payload_inline'' id (it_PayloadInline i)
     @ omit_string ''priority'' (it_Priority i)
     @ [(''expires_at'', JTime (it_ExpiresAt i)), (''created_at'', JTime (it_CreatedAt i))])) else None)"

definition item_of_fields :: "(string \<times> json) list \<Rightarrow> Item option" where
  "item_of_fields obj = do {
     i \<leftarrow> dec_string (jget obj ''id'');
     k \<leftarrow> dec_string (jget obj ''kind'');
     fr \<leftarrow> struct_of principal_of_fields (jget obj ''from'');
     to \<leftarrow> dec_ptr (\<lambda>j. struct_of principal_of_fields (Some j)) (jget obj ''to'');
     sk \<leftarrow> dec_string (jget obj ''target_skill'');
     se \<leftarrow> dec_string (jget obj ''session_id'');
     rq \<leftarrow> dec_string (jget obj ''request_id'');
     rt \<leftarrow> dec_string (jget obj ''reply_to'');
     ik \<leftarrow> dec_string (jget obj ''idempotency_key'');
     ref \<leftarrow> dec_ptr (\<lambda>j. struct_of ref_of_fields (Some j)) (jget obj ''payload_ref'');
     pri \<leftarrow> dec_string (jget obj ''priority'');
     ex \<leftarrow> dec_time_ns (jget obj ''expires_at'');
     cr \<leftarrow> dec_time_ns (jget obj ''created_at'');
     Some \<lparr>it_ID = i, it_Kind = k, it_From = fr, it_To = to, it_TargetSkill = sk, it_SessionID = se, it_RequestID = rq,
       it_ReplyTo = rt, it_IdempotencyKey = ik, it_PayloadRef = ref, it_PayloadInline = jget obj ''payload_inline'',
       it_Priority = pri, it_ExpiresAt = ex, it_CreatedAt = cr\<rparr> }"

definition item_of_json :: "json \<Rightarrow> Item option" where
  "item_of_json j = struct_of item_of_fields (Some j)"

text \<open>\<open>eventPayload\<close>: the part of an event that its log entry does not carry by itself.\<close>

definition event_to_json :: "Event \<Rightarrow> json" where
  "event_to_json e = JObj ([(''type'', jstr (ev_Type e)), (''actor'', principal_to_json (ev_Actor e))]
     @ omit_string ''lease_id'' (ev_LeaseID e) @ omit_string ''error'' (ev_Error e)
     @ (case ev_Meta e of None \<Rightarrow> [] | Some m \<Rightarrow> omit_map ''meta'' jstr m))"

definition dec_meta :: "json option \<Rightarrow> (string, string) gomap option option" where
  "dec_meta j = (case j of None \<Rightarrow> Some None | Some JNull \<Rightarrow> Some None
     | Some _ \<Rightarrow> map_option Some (dec_map (\<lambda>x. dec_string (Some x)) j))"

definition event_of_fields :: "string \<Rightarrow> string \<Rightarrow> int \<Rightarrow> (string \<times> json) list \<Rightarrow> Event option" where
  "event_of_fields itemID eid ts obj = do {
     t \<leftarrow> dec_string (jget obj ''type'');
     a \<leftarrow> struct_of principal_of_fields (jget obj ''actor'');
     l \<leftarrow> dec_string (jget obj ''lease_id'');
     er \<leftarrow> dec_string (jget obj ''error'');
     m \<leftarrow> dec_meta (jget obj ''meta'');
     Some \<lparr>ev_ItemID = itemID, ev_EventID = eid, ev_Type = t, ev_Actor = a, ev_LeaseID = l, ev_Error = er,
       ev_Timestamp = ts, ev_Meta = m\<rparr> }"

definition event_of_entry :: "(bytes \<Rightarrow> json option) \<Rightarrow> string \<Rightarrow> AppendLogEntry \<Rightarrow> Event option" where
  "event_of_entry prs itemID entry = Option.bind (prs (al_Value entry))
     (\<lambda>j. struct_of (event_of_fields itemID (al_ID entry) (al_CreatedAt entry)) (Some j))"

definition lease_to_json :: "LeaseRecord \<Rightarrow> json option" where
  "lease_to_json r = (if time_ns_ok (le_AcquiredAt r) \<and> time_ns_ok (le_ExpiresAt r) then Some (JObj
     [(''name'', jstr (le_Name r)), (''holder'', jstr (le_Holder r)), (''token'', jstr (le_Token r)),
      (''acquired_at'', JTime (le_AcquiredAt r)), (''expires_at'', JTime (le_ExpiresAt r))]) else None)"

definition lease_of_fields :: "(string \<times> json) list \<Rightarrow> LeaseRecord option" where
  "lease_of_fields obj = do {
     n \<leftarrow> dec_string (jget obj ''name'');
     h \<leftarrow> dec_string (jget obj ''holder'');
     t \<leftarrow> dec_string (jget obj ''token'');
     a \<leftarrow> dec_time_ns (jget obj ''acquired_at'');
     x \<leftarrow> dec_time_ns (jget obj ''expires_at'');
     Some \<lparr>le_Name = n, le_Holder = h, le_Token = t, le_AcquiredAt = a, le_ExpiresAt = x\<rparr> }"

section \<open>Round trips\<close>

definition principal_ok :: "Principal \<Rightarrow> bool" where
  "principal_ok p \<longleftrightarrow> utf8_valid (pn_ID p) \<and> utf8_valid (pn_Kind p) \<and> utf8_valid (pn_Scope p) \<and>
     utf8_valid (pn_DeviceHint p) \<and> utf8_valid (pn_RouteHint p)"

definition ref_ok :: "PayloadRef \<Rightarrow> bool" where
  "ref_ok r \<longleftrightarrow> utf8_valid (pr_Kind r) \<and> utf8_valid (pr_Key r) \<and> utf8_valid (pr_Digest r) \<and> int64_ok (pr_Size r)"

text \<open>A document as \<open>encoding/json\<close> reads it without a target type: no timestamps and byte slices.\<close>

fun plain :: "json \<Rightarrow> bool" where
  "plain (JTime t) = False"
| "plain (JBytes d) = False"
| "plain (JArr xs) = list_all plain xs"
| "plain (JObj fs) = list_all (\<lambda>kv. plain (snd kv)) fs"
| "plain _ = True"

definition item_wire_ok :: "Item \<Rightarrow> bool" where
  "item_wire_ok i \<longleftrightarrow> utf8_valid (it_ID i) \<and> utf8_valid (it_Kind i) \<and> principal_ok (it_From i) \<and>
     (case it_To i of None \<Rightarrow> True | Some p \<Rightarrow> principal_ok p) \<and> utf8_valid (it_TargetSkill i) \<and> utf8_valid (it_SessionID i) \<and>
     utf8_valid (it_RequestID i) \<and> utf8_valid (it_ReplyTo i) \<and> utf8_valid (it_IdempotencyKey i) \<and>
     (case it_PayloadRef i of None \<Rightarrow> True | Some r \<Rightarrow> ref_ok r) \<and> utf8_valid (it_Priority i) \<and>
     (case it_PayloadInline i of None \<Rightarrow> True | Some j \<Rightarrow> plain j)"

definition event_wire_ok :: "Event \<Rightarrow> bool" where
  "event_wire_ok e \<longleftrightarrow> utf8_valid (ev_Type e) \<and> principal_ok (ev_Actor e) \<and> utf8_valid (ev_LeaseID e) \<and> utf8_valid (ev_Error e) \<and>
     (case ev_Meta e of None \<Rightarrow> True | Some m \<Rightarrow> m \<noteq> fmempty \<and> keys_utf8 m \<and> list_all (\<lambda>(k, v). utf8_valid v) (fm_items m))"

definition lease_wire_ok :: "LeaseRecord \<Rightarrow> bool" where
  "lease_wire_ok r \<longleftrightarrow> utf8_valid (le_Name r) \<and> utf8_valid (le_Holder r) \<and> utf8_valid (le_Token r)"

lemma principal_roundtrip: "principal_ok p \<Longrightarrow> struct_of principal_of_fields (Some (principal_to_json p)) = Some p"
  by (simp add: principal_to_json_def principal_of_fields_def principal_ok_def)

lemma ref_roundtrip: "ref_ok r \<Longrightarrow> struct_of ref_of_fields (Some (ref_to_json r)) = Some r"
  by (simp add: ref_to_json_def ref_of_fields_def ref_ok_def)

lemma dec_ptr_roundtrip:
  "(\<And>v. p = Some v \<Longrightarrow> g (f v) = Some v) \<Longrightarrow> (\<And>v. f v \<noteq> JNull) \<Longrightarrow> dec_ptr g (map_option f p) = Some p"
proof (cases p)
  case (Some v)
  assume "\<And>v. p = Some v \<Longrightarrow> g (f v) = Some v" "\<And>v. f v \<noteq> JNull"
  with Some have "g (f v) = Some v" "f v \<noteq> JNull" by auto
  with Some show ?thesis by (cases "f v") auto
qed simp

lemma item_roundtrip:
  assumes "item_wire_ok i" "item_to_json i = Some j"
  shows "item_of_json j = Some i"
proof -
  have to: "dec_ptr (\<lambda>j. struct_of principal_of_fields (Some j)) (map_option principal_to_json (it_To i)) = Some (it_To i)"
    using assms(1) principal_roundtrip
    by (intro dec_ptr_roundtrip) (auto simp: item_wire_ok_def principal_to_json_def split: option.splits)
  have ref: "dec_ptr (\<lambda>j. struct_of ref_of_fields (Some j)) (map_option ref_to_json (it_PayloadRef i)) = Some (it_PayloadRef i)"
    using assms(1) ref_roundtrip
    by (intro dec_ptr_roundtrip) (auto simp: item_wire_ok_def ref_to_json_def split: option.splits)
  define obj where "obj = [(''id'', jstr (it_ID i)), (''kind'', jstr (it_Kind i)), (''from'', principal_to_json (it_From i))]
     @ omit_ptr ''to'' principal_to_json (it_To i)
     @ omit_string ''target_skill'' (it_TargetSkill i) @ omit_string ''session_id'' (it_SessionID i)
     @ omit_string ''request_id'' (it_RequestID i) @ omit_string ''reply_to'' (it_ReplyTo i)
     @ omit_string ''idempotency_key'' (it_IdempotencyKey i)
     @ omit_ptr ''payload_ref'' ref_to_json (it_PayloadRef i)
     @ omit_ptr ''payload_inline'' id (it_PayloadInline i)
     @ omit_string ''priority'' (it_Priority i)
     @ [(''expires_at'', JTime (it_ExpiresAt i)), (''created_at'', JTime (it_CreatedAt i))]"
  have j: "j = JObj obj" using assms(2) by (simp add: item_to_json_def obj_def split: if_splits)
  have fields: "jget obj ''id'' = Some (jstr (it_ID i))" "jget obj ''kind'' = Some (jstr (it_Kind i))"
    "jget obj ''from'' = Some (principal_to_json (it_From i))" "jget obj ''to'' = map_option principal_to_json (it_To i)"
    "jget obj ''target_skill'' = (if it_TargetSkill i = [] then None else Some (jstr (it_TargetSkill i)))"
    "jget obj ''session_id'' = (if it_SessionID i = [] then None else Some (jstr (it_SessionID i)))"
    "jget obj ''request_id'' = (if it_RequestID i = [] then None else Some (jstr (it_RequestID i)))"
    "jget obj ''reply_to'' = (if it_ReplyTo i = [] then None else Some (jstr (it_ReplyTo i)))"
    "jget obj ''idempotency_key'' = (if it_IdempotencyKey i = [] then None else Some (jstr (it_IdempotencyKey i)))"
    "jget obj ''payload_ref'' = map_option ref_to_json (it_PayloadRef i)" "jget obj ''payload_inline'' = it_PayloadInline i"
    "jget obj ''priority'' = (if it_Priority i = [] then None else Some (jstr (it_Priority i)))"
    "jget obj ''expires_at'' = Some (JTime (it_ExpiresAt i))" "jget obj ''created_at'' = Some (JTime (it_CreatedAt i))"
    by (simp_all add: obj_def option.map_id map_option_case cong: option.case_cong)
  have ok: "utf8_valid (it_ID i)" "utf8_valid (it_Kind i)" "principal_ok (it_From i)" "utf8_valid (it_TargetSkill i)"
    "utf8_valid (it_SessionID i)" "utf8_valid (it_RequestID i)" "utf8_valid (it_ReplyTo i)" "utf8_valid (it_IdempotencyKey i)"
    "utf8_valid (it_Priority i)" using assms(1) by (simp_all add: item_wire_ok_def)
  show ?thesis
    unfolding j item_of_json_def struct_of.simps item_of_fields_def fields
    using ok by (simp add: to ref principal_roundtrip del: struct_of.simps dec_ptr.simps)
qed

lemma event_roundtrip:
  assumes "event_wire_ok e"
  shows "struct_of (event_of_fields (ev_ItemID e) eid ts) (Some (event_to_json e)) = Some (e\<lparr>ev_EventID := eid, ev_Timestamp := ts\<rparr>)"
proof -
  have meta: "dec_meta (Some (enc_map jstr m)) = Some (Some m)" if "ev_Meta e = Some m" for m
  proof -
    have "dec_map (\<lambda>x. dec_string (Some x)) (Some (enc_map jstr m)) = Some m"
      using assms that by (intro dec_enc_map) (auto simp: event_wire_ok_def list_all_iff)
    then show ?thesis by (simp add: dec_meta_def enc_map_def)
  qed
  have none: "dec_meta None = Some None" by (simp add: dec_meta_def)
  show ?thesis
    using assms principal_roundtrip [of "ev_Actor e"] meta none
    by (cases "ev_Meta e") (auto simp: event_to_json_def event_of_fields_def event_wire_ok_def)
qed

lemma lease_roundtrip:
  "lease_wire_ok r \<Longrightarrow> lease_to_json r = Some j \<Longrightarrow> struct_of lease_of_fields (Some j) = Some r"
  by (auto simp: lease_to_json_def lease_of_fields_def lease_wire_ok_def split: if_splits)

text \<open>
  The documents the backend writes: objects whose fields are plain except the three timestamp fields.
  A text of such a document can be read back, because the names of the fields tell which strings are times.
\<close>

definition time_fields :: "string list" where
  "time_fields = [''expires_at'', ''created_at'', ''acquired_at'']"

definition field_ok :: "string \<times> json \<Rightarrow> bool" where
  "field_ok kv = (if fst kv \<in> set time_fields then (case snd kv of JTime _ \<Rightarrow> True | _ \<Rightarrow> False) else plain (snd kv))"

fun doc_ok :: "json \<Rightarrow> bool" where
  "doc_ok (JObj fs) = list_all field_ok fs"
| "doc_ok _ = False"

lemma plain_parts [simp]:
  "plain (jstr s)" "plain (principal_to_json p)" "plain (ref_to_json r)" "plain (enc_map jstr m)"
  by (auto simp: jstr_def principal_to_json_def ref_to_json_def enc_map_def omit_string_def list_all_iff split: prod.splits)

lemma field_ok_parts [simp]:
  "f \<notin> set time_fields \<Longrightarrow> field_ok (f, j) \<longleftrightarrow> plain j"
  "f \<notin> set time_fields \<Longrightarrow> list_all field_ok (omit_string f s)"
  "f \<notin> set time_fields \<Longrightarrow> list_all field_ok (omit_map f jstr m)"
  "f \<notin> set time_fields \<Longrightarrow> list_all field_ok (omit_ptr f g x) \<longleftrightarrow> (case x of None \<Rightarrow> True | Some v \<Rightarrow> plain (g v))"
  by (auto simp: field_ok_def omit_defs split: option.split)

lemma item_doc_ok: "item_wire_ok i \<Longrightarrow> item_to_json i = Some j \<Longrightarrow> doc_ok j"
  by (auto simp: item_to_json_def item_wire_ok_def field_ok_def time_fields_def split: if_splits option.split)

lemma event_doc_ok: "doc_ok (event_to_json e)"
  by (auto simp: event_to_json_def time_fields_def split: option.split)

lemma lease_doc_ok: "lease_to_json r = Some j \<Longrightarrow> doc_ok j"
  by (auto simp: lease_to_json_def field_ok_def time_fields_def split: if_splits)

section \<open>Keys\<close>

definition itemsPrefix :: "string \<Rightarrow> string" where
  "itemsPrefix root = root @ ''/items''"

definition itemKey :: "string \<Rightarrow> string \<Rightarrow> string" where
  "itemKey root itemID = itemsPrefix root @ ''/'' @ encodeKeyPart itemID"

definition itemIDFromKey :: "string \<Rightarrow> string \<Rightarrow> 'err mail_error + string option" where
  "itemIDFromKey root key = (case CutPrefix key (itemsPrefix root @ ''/'') of
      None \<Rightarrow> Inr None
    | Some sfx \<Rightarrow> if sfx = [] then Inr None
        else (case decodeKeyPart sfx of None \<Rightarrow> Inl (BadKey key) | Some i \<Rightarrow> Inr (Some i)))"

definition eventLogPrefix :: "string \<Rightarrow> string \<Rightarrow> string" where
  "eventLogPrefix root itemID = root @ ''/events/'' @ encodeKeyPart itemID"

definition leasesPrefix :: "string \<Rightarrow> string" where
  "leasesPrefix root = root @ ''/leases''"

definition queueLeasePrefix :: "string \<Rightarrow> string \<Rightarrow> string" where
  "queueLeasePrefix root queue = leasesPrefix root @ ''/'' @ encodeKeyPart queue"

definition outboxIndexKey :: "string \<Rightarrow> string \<Rightarrow> string \<Rightarrow> string" where
  "outboxIndexKey root principalID itemID = root @ ''/index/outbox/'' @ encodeKeyPart principalID @ ''/'' @ encodeKeyPart itemID"

definition inboxIndexKey :: "string \<Rightarrow> string \<Rightarrow> string \<Rightarrow> string" where
  "inboxIndexKey root principalID itemID = root @ ''/index/inbox/'' @ encodeKeyPart principalID @ ''/'' @ encodeKeyPart itemID"

definition queueIndexKey :: "string \<Rightarrow> string \<Rightarrow> string \<Rightarrow> string" where
  "queueIndexKey root queue itemID = root @ ''/index/queue/'' @ encodeKeyPart queue @ ''/'' @ encodeKeyPart itemID"

definition claimKeyParts :: "string \<Rightarrow> string \<Rightarrow> 'err mail_error + (string \<times> string) option" where
  "claimKeyParts root key = (case CutPrefix key (leasesPrefix root @ ''/'') of
      None \<Rightarrow> Inr None
    | Some sfx \<Rightarrow> if sfx = [] then Inr None
        else (case Cut (CHR ''/'') sfx of
          None \<Rightarrow> Inr None
        | Some (qp, ip) \<Rightarrow> if qp = [] \<or> ip = [] then Inr None
            else (case decodeKeyPart qp of None \<Rightarrow> Inl (BadKey qp)
              | Some q \<Rightarrow> (case decodeKeyPart ip of None \<Rightarrow> Inl (BadKey ip) | Some i \<Rightarrow> Inr (Some (q, i))))))"

section \<open>The private backend\<close>

text \<open>
  What one backend call takes from its surroundings: the environment of the key-value calls, three
  clock readings, the random part of a log identifier and the lease token.
\<close>

record 'k mail_env =
  mv_kv :: 'k
  mv_t1 :: int
  mv_t2 :: int
  mv_t3 :: int
  mv_uuid :: string
  mv_token :: string

definition dec_item :: "(bytes \<Rightarrow> json option) \<Rightarrow> bytes \<Rightarrow> Item option" where
  "dec_item prs d = Option.bind (prs d) item_of_json"

definition enc_lease :: "(json \<Rightarrow> bytes option) \<Rightarrow> LeaseRecord \<Rightarrow> bytes option" where
  "enc_lease txt r = Option.bind (lease_to_json r) txt"

definition dec_lease :: "(bytes \<Rightarrow> json option) \<Rightarrow> bytes \<Rightarrow> LeaseRecord option" where
  "dec_lease prs d = Option.bind (prs d) (\<lambda>j. struct_of lease_of_fields (Some j))"

fun kv_listItems ::
  "(string \<Rightarrow> 's \<Rightarrow> 's \<times> bytes option) \<Rightarrow> (bytes \<Rightarrow> json option) \<Rightarrow> string \<Rightarrow> string list \<Rightarrow> 's
    \<Rightarrow> 's \<times> ('err mail_error + Item list)" where
  "kv_listItems get_op prs root [] s = (s, Inr [])"
| "kv_listItems get_op prs root (key # keys) s = (case itemIDFromKey root key of
      Inl err \<Rightarrow> (s, Inl err)
    | Inr None \<Rightarrow> kv_listItems get_op prs root keys s
    | Inr (Some _) \<Rightarrow> (case get_op key s of
        (s1, None) \<Rightarrow> kv_listItems get_op prs root keys s1
      | (s1, Some data) \<Rightarrow> (case dec_item prs data of
          None \<Rightarrow> (s1, Inl ParseFail)
        | Some item \<Rightarrow> (case kv_listItems get_op prs root keys s1 of
            (s2, Inl err) \<Rightarrow> (s2, Inl err)
          | (s2, Inr items) \<Rightarrow> (s2, Inr (item # items))))))"

definition kv_listEvents ::
  "(string \<Rightarrow> 's \<Rightarrow> 's \<times> string list) \<Rightarrow> (string \<Rightarrow> 's \<Rightarrow> 's \<times> bytes option) \<Rightarrow> (bytes \<Rightarrow> json option) \<Rightarrow> string \<Rightarrow> string \<Rightarrow> 's
    \<Rightarrow> 's \<times> ('err mail_error + Event list)" where
  "kv_listEvents list_op get_op prs root itemID s = (case log_List list_op get_op (eventLogPrefix root itemID) s of
      (s1, Inl i) \<Rightarrow> (s1, Inl (BadLogID i))
    | (s1, Inr entries) \<Rightarrow> (case those (map (event_of_entry prs itemID) entries) of
        None \<Rightarrow> (s1, Inl ParseFail) | Some evs \<Rightarrow> (s1, Inr evs)))"

fun kv_listClaims ::
  "(string \<Rightarrow> 's \<Rightarrow> 's \<times> bytes option) \<Rightarrow> (bytes \<Rightarrow> json option) \<Rightarrow> string \<Rightarrow> int \<Rightarrow> string list \<Rightarrow> 's
    \<Rightarrow> 's \<times> ('err mail_error + Claim list)" where
  "kv_listClaims get_op prs root now [] s = (s, Inr [])"
| "kv_listClaims get_op prs root now (key # keys) s = (case claimKeyParts root key of
      Inl err \<Rightarrow> (s, Inl err)
    | Inr None \<Rightarrow> kv_listClaims get_op prs root now keys s
    | Inr (Some (q, i)) \<Rightarrow> (case get_op key s of
        (s1, None) \<Rightarrow> kv_listClaims get_op prs root now keys s1
      | (s1, Some raw) \<Rightarrow> (case dec_lease prs raw of
          None \<Rightarrow> (s1, Inl ParseFail)
        | Some r \<Rightarrow>
            if Expired r now then kv_listClaims get_op prs root now keys s1
            else (case kv_listClaims get_op prs root now keys s1 of
                (s2, Inl err) \<Rightarrow> (s2, Inl err)
              | (s2, Inr cs) \<Rightarrow> (s2, Inr (claimFromLease q i r # cs))))))"

fun kv_loadEvents ::
  "(string \<Rightarrow> 's \<Rightarrow> 's \<times> string list) \<Rightarrow> (string \<Rightarrow> 's \<Rightarrow> 's \<times> bytes option) \<Rightarrow> (bytes \<Rightarrow> json option) \<Rightarrow> string \<Rightarrow> Item list
    \<Rightarrow> (string, Event list) gomap \<Rightarrow> 's \<Rightarrow> 's \<times> ('err mail_error + (string, Event list) gomap)" where
  "kv_loadEvents list_op get_op prs root [] m s = (s, Inr m)"
| "kv_loadEvents list_op get_op prs root (item # items) m s =
     (case kv_listEvents list_op get_op prs root (it_ID item) s of
        (s1, Inl err) \<Rightarrow> (s1, Inl err)
      | (s1, Inr evs) \<Rightarrow> kv_loadEvents list_op get_op prs root items (if evs = [] then m else fmupd (it_ID item) evs m) s1)"

definition kv_Load ::
  "(string \<Rightarrow> 's \<Rightarrow> 's \<times> string list) \<Rightarrow> (string \<Rightarrow> 's \<Rightarrow> 's \<times> bytes option) \<Rightarrow> (bytes \<Rightarrow> json option) \<Rightarrow> string \<Rightarrow> int \<Rightarrow> 's
    \<Rightarrow> 's \<times> ('err mail_error + MailSnapshot)" where
  "kv_Load list_op get_op prs root now s = (case list_op (itemsPrefix root @ ''/'') s of (s0, keys) \<Rightarrow>
     (case kv_listItems get_op prs root keys s0 of
        (s1, Inl err) \<Rightarrow> (s1, Inl err)
      | (s1, Inr items) \<Rightarrow> (case kv_loadEvents list_op get_op prs root items fmempty s1 of
          (s2, Inl err) \<Rightarrow> (s2, Inl err)
        | (s2, Inr evs) \<Rightarrow> (case list_op (leasesPrefix root @ ''/'') s2 of (s3, lkeys) \<Rightarrow>
            (case kv_listClaims get_op prs root now lkeys s3 of
               (s4, Inl err) \<Rightarrow> (s4, Inl err)
             | (s4, Inr claims) \<Rightarrow> (s4, Inr \<lparr>sp_Items = items, sp_Events = evs, sp_Claims = claims\<rparr>))))))"

text \<open>Setting and deleting several keys in turn, up to the first failure; \<open>markerValue\<close> is the byte 1.\<close>

fun set_all :: "(string \<Rightarrow> bytes \<Rightarrow> 's \<Rightarrow> 's \<times> 'err option) \<Rightarrow> (string \<times> bytes) list \<Rightarrow> 's \<Rightarrow> 's \<times> 'err option" where
  "set_all set_op [] s = (s, None)"
| "set_all set_op ((k, v) # kvs) s = (case set_op k v s of
      (s1, Some err) \<Rightarrow> (s1, Some err) | (s1, None) \<Rightarrow> set_all set_op kvs s1)"

fun delete_all :: "(string \<Rightarrow> 's \<Rightarrow> 's \<times> 'err option) \<Rightarrow> string list \<Rightarrow> 's \<Rightarrow> 's \<times> 'err option" where
  "delete_all del_op [] s = (s, None)"
| "delete_all del_op (k # ks) s = (case del_op k s of
      (s1, Some err) \<Rightarrow> (s1, Some err) | (s1, None) \<Rightarrow> delete_all del_op ks s1)"

definition markerValue :: bytes where
  "markerValue = [49]"

definition item_index_keys :: "string \<Rightarrow> Item \<Rightarrow> string list" where
  "item_index_keys root item = outboxIndexKey root (pn_ID (it_From item)) (it_ID item) #
     (if RecipientID item \<noteq> [] then [inboxIndexKey root (RecipientID item) (it_ID item)] else []) @
     (if QueueName item \<noteq> [] then [queueIndexKey root (QueueName item) (it_ID item)] else [])"

definition kv_CreateItem ::
  "(string \<Rightarrow> bytes \<Rightarrow> 's \<Rightarrow> 's \<times> 'err option) \<Rightarrow> (json \<Rightarrow> bytes option) \<Rightarrow> string \<Rightarrow> Item \<Rightarrow> 's \<Rightarrow> 's \<times> 'err mail_error option" where
  "kv_CreateItem set_op txt root item s = (case Option.bind (item_to_json item) txt of
      None \<Rightarrow> (s, Some MarshalFail)
    | Some data \<Rightarrow> (case set_all set_op ((itemKey root (it_ID item), data) #
          map (\<lambda>k. (k, markerValue)) (item_index_keys root item)) s of
        (s1, err) \<Rightarrow> (s1, map_option KvErr err)))"

definition kv_AppendEvent ::
  "(string \<Rightarrow> bytes \<Rightarrow> 's \<Rightarrow> 's \<times> 'err option) \<Rightarrow> (json \<Rightarrow> bytes option) \<Rightarrow> string \<Rightarrow> int \<Rightarrow> string \<Rightarrow> Event \<Rightarrow> 's
    \<Rightarrow> 's \<times> ('err mail_error + Event)" where
  "kv_AppendEvent set_op txt root now uuid event s = (case Event_Validate event of
      Some err \<Rightarrow> (s, Inl err)
    | None \<Rightarrow> (case txt (event_to_json event) of
        None \<Rightarrow> (s, Inl MarshalFail)
      | Some data \<Rightarrow> (case log_Append set_op (eventLogPrefix root (ev_ItemID event)) now uuid uuid data s of
          (s1, Inl err) \<Rightarrow> (s1, Inl (KvErr err))
        | (s1, Inr entry) \<Rightarrow> (s1, Inr (event\<lparr>ev_EventID := al_ID entry, ev_Timestamp := al_CreatedAt entry\<rparr>)))))"

text \<open>The lease functions return the zero record where there is none.\<close>

definition claim_result :: "string \<Rightarrow> string \<Rightarrow> 's \<times> ('err lease_error + LeaseRecord option \<times> bool)
  \<Rightarrow> 's \<times> ('err mail_error + Claim \<times> bool)" where
  "claim_result queue itemID res = (case res of
      (s, Inl err) \<Rightarrow> (s, Inl (LeaseErr err))
    | (s, Inr (r, ok)) \<Rightarrow> (s, Inr (claimFromLease queue itemID (case r of Some l \<Rightarrow> l
        | None \<Rightarrow> \<lparr>le_Name = [], le_Holder = [], le_Token = [], le_AcquiredAt = zero_ns, le_ExpiresAt = zero_ns\<rparr>), ok)))"

definition kv_DeleteItem ::
  "(string \<Rightarrow> 's \<Rightarrow> 's \<times> 'err option) \<Rightarrow> (string \<Rightarrow> 's \<Rightarrow> 's \<times> string list) \<Rightarrow> (string \<Rightarrow> 's \<Rightarrow> 's \<times> bytes option)
    \<Rightarrow> (bytes \<Rightarrow> json option) \<Rightarrow> string \<Rightarrow> string \<Rightarrow> 's \<Rightarrow> 's \<times> 'err mail_error option" where
  "kv_DeleteItem del_op list_op get_op prs root itemID s = (case get_op (itemKey root itemID) s of
      (s1, None) \<Rightarrow> (s1, None)
    | (s1, Some data) \<Rightarrow> (case dec_item prs data of
        None \<Rightarrow> (s1, Some ParseFail)
      | Some item \<Rightarrow> (case del_op (itemKey root itemID) s1 of
          (s2, Some err) \<Rightarrow> (s2, Some (KvErr err))
        | (s2, None) \<Rightarrow> (case list_op (eventLogPrefix root itemID @ ''/'') s2 of (s3, keys) \<Rightarrow>
            (case delete_all del_op (keys @ outboxIndexKey root (pn_ID (it_From item)) itemID #
                 (if RecipientID item \<noteq> [] then [inboxIndexKey root (RecipientID item) itemID] else []) @
                 (if QueueName item \<noteq> [] then [queueIndexKey root (QueueName item) itemID,
                    queueLeasePrefix root (QueueName item) @ ''/'' @ encodeKeyPart itemID] else [])) s3 of
               (s4, err) \<Rightarrow> (s4, map_option KvErr err))))))"

definition PrivateKVBackend ::
  "('k \<Rightarrow> string \<Rightarrow> bytes \<Rightarrow> 's \<Rightarrow> 's \<times> 'err option) \<Rightarrow> ('k \<Rightarrow> string \<Rightarrow> 's \<Rightarrow> 's \<times> bytes option)
    \<Rightarrow> ('k \<Rightarrow> string \<Rightarrow> 's \<Rightarrow> 's \<times> 'err option) \<Rightarrow> ('k \<Rightarrow> string \<Rightarrow> 's \<Rightarrow> 's \<times> string list)
    \<Rightarrow> (json \<Rightarrow> bytes option) \<Rightarrow> (bytes \<Rightarrow> json option) \<Rightarrow> string \<Rightarrow> ('k mail_env, 's, 'err) Backend" where
  "PrivateKVBackend set_op get_op del_op list_op txt prs root = \<lparr>
     be_Load = (\<lambda>e. kv_Load (list_op (mv_kv e)) (get_op (mv_kv e)) prs root (mv_t3 e)),
     be_CreateItem = (\<lambda>e. kv_CreateItem (set_op (mv_kv e)) txt root),
     be_AppendEvent = (\<lambda>e. kv_AppendEvent (set_op (mv_kv e)) txt root (mv_t3 e) (mv_uuid e)),
     be_Claim = (\<lambda>e queue itemID holder ttl s. claim_result queue itemID
        (lease_Claim (enc_lease txt) (dec_lease prs) (set_op (mv_kv e)) (get_op (mv_kv e)) (queueLeasePrefix root queue)
           (mv_t1 e, mv_t2 e, mv_t3 e) (mv_token e) (encodeKeyPart itemID) holder ttl s)),
     be_Renew = (\<lambda>e queue itemID holder token ttl s. claim_result queue itemID
        (lease_Renew (enc_lease txt) (dec_lease prs) (set_op (mv_kv e)) (get_op (mv_kv e)) (queueLeasePrefix root queue)
           (mv_t1 e, mv_t2 e, mv_t3 e) token (encodeKeyPart itemID) holder ttl s)),
     be_Release = (\<lambda>e queue itemID holder token s.
        (case lease_Release (dec_lease prs) (del_op (mv_kv e)) (get_op (mv_kv e)) (queueLeasePrefix root queue) token
               (encodeKeyPart itemID) holder s of
           (s1, Inl err) \<Rightarrow> (s1, Inl (LeaseErr err)) | (s1, Inr ok) \<Rightarrow> (s1, Inr ok))),
     be_DeleteItem = (\<lambda>e. kv_DeleteItem (del_op (mv_kv e)) (list_op (mv_kv e)) (get_op (mv_kv e)) prs root),
     be_ContainsItem = (\<lambda>e itemID s. case get_op (mv_kv e) (itemKey root itemID) s of (s1, d) \<Rightarrow> (s1, d \<noteq> None))\<rparr>"

end
