(* ===== verification/Mailbox_KV_Laws.thy ===== *)
theory Mailbox_KV_Laws
  imports Mailbox_KV
begin

text \<open>
  The key-value backend keeps the contract \<open>mailbox_backend\<close>. Its state stands for the items, timelines
  and leases read off the abstract map of the key-value store; \<open>wf_mail\<close> says which keys may be there.
  The locale \<open>mailbox_kv\<close> takes any store with the \<open>kv_store\<close> laws and any text of JSON documents that
  can be read back.
\<close>

section \<open>What the keys stand for\<close>

definition kv_item :: "(bytes \<Rightarrow> json option) \<Rightarrow> string \<Rightarrow> (string \<Rightarrow> bytes option) \<Rightarrow> string \<Rightarrow> Item option" where
  "kv_item prs root V i = Option.bind (V (itemKey root i)) (dec_item prs)"

definition kv_timeline ::
  "(bytes \<Rightarrow> json option) \<Rightarrow> string \<Rightarrow> (string \<Rightarrow> bytes option) \<Rightarrow> string \<Rightarrow> Event list option" where
  "kv_timeline prs root V i =
     (let p = eventLogPrefix root i in
      case gather V p (log_keys V p) of Inl _ \<Rightarrow> None | Inr es \<Rightarrow> those (map (event_of_entry prs i) es))"

definition kv_events :: "(bytes \<Rightarrow> json option) \<Rightarrow> string \<Rightarrow> (string \<Rightarrow> bytes option) \<Rightarrow> string \<Rightarrow> Event list" where
  "kv_events prs root V i = (case kv_timeline prs root V i of None \<Rightarrow> [] | Some evs \<Rightarrow> evs)"

definition kv_lease ::
  "(bytes \<Rightarrow> json option) \<Rightarrow> string \<Rightarrow> (string \<Rightarrow> bytes option) \<Rightarrow> string \<Rightarrow> string \<Rightarrow> LeaseRecord option" where
  "kv_lease prs root V q i = held (dec_lease prs) V (queueLeasePrefix root q) (encodeKeyPart i)"

definition event_key :: "string \<Rightarrow> string \<Rightarrow> string \<Rightarrow> bool" where
  "event_key root i k \<longleftrightarrow> prefix (listPrefix (eventLogPrefix root i)) k"

definition log_key_ok :: "string \<Rightarrow> string \<Rightarrow> string \<Rightarrow> bool" where
  "log_key_ok root i k \<longleftrightarrow>
     (\<exists>t u. 0 \<le> t \<and> t < 2 ^ 63 \<and> list_all (byte_in 0 127) u \<and> k = entryKey (eventLogPrefix root i) (appendLogID t u u))"

text \<open>The keys below the three prefixes the backend reads; its index keys are not among them.\<close>

definition mail_key :: "string \<Rightarrow> string \<Rightarrow> bool" where
  "mail_key root k \<longleftrightarrow> prefix (itemsPrefix root @ ''/'') k \<or> prefix (root @ ''/events/'') k \<or> prefix (leasesPrefix root @ ''/'') k"

definition items_wf :: "(bytes \<Rightarrow> json option) \<Rightarrow> string \<Rightarrow> (string \<Rightarrow> bytes option) \<Rightarrow> bool" where
  "items_wf prs root V \<longleftrightarrow> (\<forall>k. V k \<noteq> None \<longrightarrow> prefix (itemsPrefix root @ ''/'') k \<longrightarrow>
     (\<exists>i it. i \<noteq> [] \<and> k = itemKey root i \<and> kv_item prs root V i = Some it \<and> it_ID it = i))"

definition log_wf :: "(bytes \<Rightarrow> json option) \<Rightarrow> string \<Rightarrow> (string \<Rightarrow> bytes option) \<Rightarrow> string \<Rightarrow> bool" where
  "log_wf prs root V i \<longleftrightarrow>
     (\<exists>evs. kv_timeline prs root V i = Some evs \<and> sorted_wrt (\<lambda>x y. ev_Timestamp x < ev_Timestamp y) evs) \<and>
     (\<forall>k. V k \<noteq> None \<longrightarrow> event_key root i k \<longrightarrow> log_key_ok root i k \<and> kv_item prs root V i \<noteq> None)"

definition leases_wf :: "(bytes \<Rightarrow> json option) \<Rightarrow> string \<Rightarrow> (string \<Rightarrow> bytes option) \<Rightarrow> bool" where
  "leases_wf prs root V \<longleftrightarrow> (\<forall>k. V k \<noteq> None \<longrightarrow> prefix (leasesPrefix root @ ''/'') k \<longrightarrow>
     (\<exists>q i l it. k = lease_key (queueLeasePrefix root q) (encodeKeyPart i) \<and> kv_lease prs root V q i = Some l \<and>
        le_Name l = encodeKeyPart i \<and> lease_wire_ok l \<and> kv_item prs root V i = Some it \<and> QueueName it = q \<and> q \<noteq> []))"

definition wf_mail :: "(bytes \<Rightarrow> json option) \<Rightarrow> string \<Rightarrow> (string \<Rightarrow> bytes option) \<Rightarrow> bool" where
  "wf_mail prs root V \<longleftrightarrow> items_wf prs root V \<and> (\<forall>i. log_wf prs root V i) \<and> leases_wf prs root V"

section \<open>Keys do not collide\<close>

lemma encode_slash_prefix:
  "prefix (encodeKeyPart i @ CHR ''/'' # []) k \<Longrightarrow> prefix (encodeKeyPart j @ CHR ''/'' # r) k \<Longrightarrow> i = j"
proof -
  have cut: "xs @ CHR ''/'' # a = ys @ CHR ''/'' # b \<Longrightarrow> CHR ''/'' \<notin> set xs \<Longrightarrow> CHR ''/'' \<notin> set ys \<Longrightarrow> xs = ys" for xs ys a b
    by (induction xs arbitrary: ys) (auto simp: Cons_eq_append_conv append_eq_Cons_conv)
  assume "prefix (encodeKeyPart i @ CHR ''/'' # []) k" "prefix (encodeKeyPart j @ CHR ''/'' # r) k"
  then obtain a b where "encodeKeyPart i @ CHR ''/'' # a = encodeKeyPart j @ CHR ''/'' # b"
    by (auto simp: prefix_def)
  from cut [OF this] show "i = j" by simp
qed

lemma itemKey_inj [simp]: "itemKey root i = itemKey root j \<longleftrightarrow> i = j"
  by (simp add: itemKey_def)

lemma encode_slash_eq:
  "encodeKeyPart q @ CHR ''/'' # a = encodeKeyPart p @ CHR ''/'' # b \<longleftrightarrow> q = p \<and> a = b"
  using encode_slash_prefix [of q "encodeKeyPart q @ CHR ''/'' # a" p b] by auto

lemma leaseKey_inj [simp]:
  "lease_key (queueLeasePrefix root q) (encodeKeyPart i) = lease_key (queueLeasePrefix root p) (encodeKeyPart j) \<longleftrightarrow> q = p \<and> i = j"
  by (simp add: lease_key_def queueLeasePrefix_def encode_slash_eq)

lemma event_key_inj: "event_key root i k \<Longrightarrow> event_key root j k \<Longrightarrow> i = j"
  unfolding event_key_def listPrefix_def eventLogPrefix_def
  by (auto simp: prefix_def encode_slash_eq)

lemmas key_defs = itemKey_def itemsPrefix_def eventLogPrefix_def listPrefix_def leasesPrefix_def queueLeasePrefix_def
  outboxIndexKey_def inboxIndexKey_def queueIndexKey_def lease_key_def entryKey_def

lemma key_kinds:
  "\<not> event_key root i (itemKey root j)" "\<not> event_key root i (lease_key (queueLeasePrefix root q) n)"
  "event_key root i k \<Longrightarrow> itemKey root j \<noteq> k" "event_key root i k \<Longrightarrow> lease_key (queueLeasePrefix root q) n \<noteq> k"
  "itemKey root i \<noteq> lease_key (queueLeasePrefix root q) n"
  "\<not> prefix (itemsPrefix root @ ''/'') (lease_key (queueLeasePrefix root q) n)"
  "\<not> prefix (leasesPrefix root @ ''/'') (itemKey root j)"
  "event_key root i k \<Longrightarrow> \<not> prefix (itemsPrefix root @ ''/'') k"
  "event_key root i k \<Longrightarrow> \<not> prefix (leasesPrefix root @ ''/'') k"
  by (auto simp: key_defs event_key_def prefix_def)

lemma index_key_kinds: "k \<in> set (item_index_keys root it) \<Longrightarrow> \<not> mail_key root k"
  by (auto simp: item_index_keys_def key_defs mail_key_def prefix_def split: if_splits)

lemma mail_key_kinds:
  "mail_key root (itemKey root i)" "event_key root i k \<Longrightarrow> mail_key root k"
  "mail_key root (lease_key (queueLeasePrefix root q) n)"
  "prefix (itemsPrefix root @ ''/'') k \<Longrightarrow> mail_key root k" "prefix (leasesPrefix root @ ''/'') k \<Longrightarrow> mail_key root k"
  by (auto simp: key_defs event_key_def mail_key_def prefix_def)

text \<open>The maps agree outside the keys below \<open>root\<close>.\<close>

definition outside :: "string \<Rightarrow> (string \<Rightarrow> bytes option) \<Rightarrow> (string \<Rightarrow> bytes option) \<Rightarrow> bool" where
  "outside root V V' \<longleftrightarrow> (\<forall>k. \<not> prefix (root @ ''/'') k \<longrightarrow> V' k = V k)"

lemma keys_inside:
  "prefix (root @ ''/'') (itemKey root i)" "prefix (root @ ''/'') (lease_key (queueLeasePrefix root q) n)"
  "event_key root i k \<Longrightarrow> prefix (root @ ''/'') k" "prefix (root @ ''/'') (entryKey (eventLogPrefix root i) j)"
  "k \<in> set (item_index_keys root it) \<Longrightarrow> prefix (root @ ''/'') k" "mail_key root k \<Longrightarrow> prefix (root @ ''/'') k"
  by (auto simp: key_defs event_key_def mail_key_def item_index_keys_def prefix_def split: if_splits)

lemma outside_simps [simp]:
  "outside root V V" "prefix (root @ ''/'') k \<Longrightarrow> outside root V (V(k := x))"
  by (auto simp: outside_def)

lemma keys_ascii:
  assumes "list_all (byte_in 0 127) root"
  shows "utf8_valid (itemKey root i)" "utf8_valid (lease_key (queueLeasePrefix root q) (encodeKeyPart i))"
    "list_all (byte_in 0 127) u \<Longrightarrow> 0 \<le> t \<Longrightarrow> utf8_valid (entryKey (eventLogPrefix root i) (appendLogID t u u))"
    "k \<in> set (item_index_keys root it) \<Longrightarrow> utf8_valid k"
    "log_key_ok root i k \<Longrightarrow> utf8_valid k"
proof -
  have dig: "0 \<le> t \<Longrightarrow> list_all (byte_in 0 127) (pad0 20 t)" for t
    using pad0_digits [of t 20] by (auto simp: list_all_iff is_digit_def byte_in_def)
  have c: "byte_in 0 127 CHR ''/''" "byte_in 0 127 CHR ''-''" by (simp_all add: byte_in_def)
  show "utf8_valid (itemKey root i)" "utf8_valid (lease_key (queueLeasePrefix root q) (encodeKeyPart i))"
    "list_all (byte_in 0 127) u \<Longrightarrow> 0 \<le> t \<Longrightarrow> utf8_valid (entryKey (eventLogPrefix root i) (appendLogID t u u))"
    "k \<in> set (item_index_keys root it) \<Longrightarrow> utf8_valid k"
    "log_key_ok root i k \<Longrightarrow> utf8_valid k"
    using assms by (auto simp: key_defs item_index_keys_def encode_ascii byte_in_def appendLogID_def dig log_key_ok_def
        intro!: utf8_ascii split: if_splits)
qed

section \<open>Changing one key\<close>

lemma kv_item_cong: "V (itemKey root i) = V' (itemKey root i) \<Longrightarrow> kv_item prs root V i = kv_item prs root V' i"
  by (simp add: kv_item_def)

lemma kv_timeline_cong:
  assumes "\<And>k. event_key root i k \<Longrightarrow> V k = V' k"
  shows "kv_timeline prs root V i = kv_timeline prs root V' i"
proof -
  have keys: "log_keys V (eventLogPrefix root i) = log_keys V' (eventLogPrefix root i)"
    unfolding log_keys_def using assms by (intro arg_cong [of _ _ sorted_list_of_set]) (auto simp: event_key_def)
  have "gather V (eventLogPrefix root i) ks = gather V' (eventLogPrefix root i) ks" for ks
  proof (induction ks)
    case (Cons k ks)
    then show ?case
    proof (cases "event_key root i k")
      case True
      then show ?thesis by (simp only: gather.simps Cons assms [OF True])
    next
      case False
      then have "CutPrefix k (listPrefix (eventLogPrefix root i)) = None"
        by (auto simp: event_key_def prefix_def CutPrefix_Some simp flip: not_Some_eq)
      then show ?thesis using Cons by simp
    qed
  qed simp
  then show ?thesis by (simp add: kv_timeline_def keys Let_def)
qed

lemma kv_lease_cong:
  "V (lease_key (queueLeasePrefix root q) (encodeKeyPart i)) = V' (lease_key (queueLeasePrefix root q) (encodeKeyPart i)) \<Longrightarrow>
   kv_lease prs root V q i = kv_lease prs root V' q i"
  by (simp add: kv_lease_def held_def)

lemma kv_events_cong: "(\<And>k. event_key root i k \<Longrightarrow> V k = V' k) \<Longrightarrow> kv_events prs root V i = kv_events prs root V' i"
  using kv_timeline_cong [of root i V V' prs] by (simp add: kv_events_def)

text \<open>Keys outside the three prefixes do not matter.\<close>

definition same_mail :: "string \<Rightarrow> (string \<Rightarrow> bytes option) \<Rightarrow> (string \<Rightarrow> bytes option) \<Rightarrow> bool" where
  "same_mail root V V' \<longleftrightarrow> (\<forall>k. mail_key root k \<longrightarrow> V k = V' k)"

lemma same_mail_views:
  assumes "same_mail root V V'"
  shows "kv_item prs root V = kv_item prs root V'" "kv_timeline prs root V = kv_timeline prs root V'"
    "kv_events prs root V = kv_events prs root V'" "kv_lease prs root V = kv_lease prs root V'"
proof -
  have eq: "mail_key root k \<Longrightarrow> V k = V' k" for k using assms by (simp add: same_mail_def)
  show "kv_item prs root V = kv_item prs root V'" "kv_timeline prs root V = kv_timeline prs root V'"
    "kv_events prs root V = kv_events prs root V'" "kv_lease prs root V = kv_lease prs root V'"
    by (intro ext kv_item_cong kv_timeline_cong kv_events_cong kv_lease_cong eq mail_key_kinds; assumption)+
qed

lemma same_mail_wf:
  assumes "same_mail root V V'" "wf_mail prs root V"
  shows "wf_mail prs root V'"
proof -
  note eq = same_mail_views [OF assms(1), of prs]
  have key: "mail_key root k \<Longrightarrow> V' k = V k" for k using assms(1) by (simp add: same_mail_def)
  have "items_wf prs root V'" "leases_wf prs root V'"
    using assms(2) unfolding wf_mail_def items_wf_def leases_wf_def eq by (metis key mail_key_kinds(4,5))+
  moreover have "log_wf prs root V' i" for i
    using assms(2) unfolding wf_mail_def log_wf_def eq by (metis key mail_key_kinds(2))
  ultimately show ?thesis by (simp add: wf_mail_def)
qed

text \<open>Writing an item that was not there.\<close>

lemma wf_log_empty:
  assumes "wf_mail prs root V" "kv_item prs root V i = None"
  shows "event_key root i k \<Longrightarrow> V k = None" "kv_events prs root V i = []"
proof -
  show none: "event_key root i k \<Longrightarrow> V k = None" for k
    using assms unfolding wf_mail_def log_wf_def by metis
  then have "{k. V k \<noteq> None \<and> prefix (listPrefix (eventLogPrefix root i)) k} = {}" by (auto simp: event_key_def)
  then have "log_keys V (eventLogPrefix root i) = []" by (simp only: log_keys_def sorted_list_of_set_empty)
  then show "kv_events prs root V i = []" by (simp add: kv_events_def kv_timeline_def)
qed

lemma item_write:
  assumes "wf_mail prs root V" "kv_item prs root V (it_ID it) = None" "it_ID it \<noteq> []" "dec_item prs d = Some it"
  defines "V' \<equiv> V(itemKey root (it_ID it) \<mapsto> d)"
  shows "kv_item prs root V' = (kv_item prs root V)(it_ID it \<mapsto> it)" "kv_timeline prs root V' = kv_timeline prs root V"
    "kv_events prs root V' = kv_events prs root V" "kv_lease prs root V' = kv_lease prs root V" "wf_mail prs root V'"
proof -
  show item: "kv_item prs root V' = (kv_item prs root V)(it_ID it \<mapsto> it)"
    using assms(4) by (auto simp: V'_def kv_item_def)
  have other: "itemKey root (it_ID it) \<noteq> k \<Longrightarrow> V' k = V k" for k by (simp add: V'_def)
  have log: "event_key root i k \<Longrightarrow> V' k = V k" for i k by (rule other) (rule key_kinds(3))
  show tl: "kv_timeline prs root V' = kv_timeline prs root V" and "kv_events prs root V' = kv_events prs root V"
    by (intro ext kv_timeline_cong kv_events_cong log; assumption)+
  show le: "kv_lease prs root V' = kv_lease prs root V"
    by (intro ext kv_lease_cong other key_kinds(5))
  have item_mono: "kv_item prs root V i = Some x \<Longrightarrow> kv_item prs root V' i = Some x" for i x
    using assms(2) by (auto simp: item)
  have "items_wf prs root V'"
    unfolding items_wf_def
  proof (intro allI impI)
    fix k assume k: "V' k \<noteq> None" "prefix (itemsPrefix root @ ''/'') k"
    show "\<exists>i x. i \<noteq> [] \<and> k = itemKey root i \<and> kv_item prs root V' i = Some x \<and> it_ID x = i"
    proof (cases "k = itemKey root (it_ID it)")
      case True
      then show ?thesis using assms(3) item by auto
    next
      case False
      then have "V k \<noteq> None" using k other by metis
      with k(2) assms(1) obtain i x where "i \<noteq> []" "k = itemKey root i" "kv_item prs root V i = Some x" "it_ID x = i"
        unfolding wf_mail_def items_wf_def by metis
      then show ?thesis using item_mono by blast
    qed
  qed
  moreover have "log_wf prs root V' i" for i
    using assms(1) item_mono unfolding wf_mail_def log_wf_def tl by (metis log not_None_eq)
  moreover have "leases_wf prs root V'"
    unfolding leases_wf_def le
  proof (intro allI impI)
    fix k assume k: "V' k \<noteq> None" "prefix (leasesPrefix root @ ''/'') k"
    then have "V k \<noteq> None" using other key_kinds(7) by metis
    with k(2) assms(1) have "\<exists>q i l x. k = lease_key (queueLeasePrefix root q) (encodeKeyPart i) \<and> kv_lease prs root V q i = Some l \<and>
        le_Name l = encodeKeyPart i \<and> lease_wire_ok l \<and> kv_item prs root V i = Some x \<and> QueueName x = q \<and> q \<noteq> []"
      unfolding wf_mail_def leases_wf_def by metis
    then show "\<exists>q i l x. k = lease_key (queueLeasePrefix root q) (encodeKeyPart i) \<and> kv_lease prs root V q i = Some l \<and>
        le_Name l = encodeKeyPart i \<and> lease_wire_ok l \<and> kv_item prs root V' i = Some x \<and> QueueName x = q \<and> q \<noteq> []"
      using item_mono by metis
  qed
  ultimately show "wf_mail prs root V'" by (simp add: wf_mail_def)
qed

text \<open>Writing or clearing a lease of an item in its queue.\<close>

lemma lease_write:
  assumes "wf_mail prs root V" "kv_item prs root V i = Some it" "QueueName it \<noteq> []"
    and "x = None \<or> (\<exists>d l. x = Some d \<and> dec_lease prs d = Some l \<and> le_Name l = encodeKeyPart i \<and> lease_wire_ok l)"
  defines "V' \<equiv> V(lease_key (queueLeasePrefix root (QueueName it)) (encodeKeyPart i) := x)"
  shows "kv_item prs root V' = kv_item prs root V" "kv_events prs root V' = kv_events prs root V"
    "kv_lease prs root V' = (kv_lease prs root V)(QueueName it := (kv_lease prs root V (QueueName it))(i := Option.bind x (dec_lease prs)))"
    "wf_mail prs root V'"
proof -
  let ?k = "lease_key (queueLeasePrefix root (QueueName it)) (encodeKeyPart i)"
  have other: "?k \<noteq> k \<Longrightarrow> V' k = V k" for k by (simp add: V'_def)
  have log: "event_key root j k \<Longrightarrow> V' k = V k" for j k by (rule other) (rule key_kinds(4))
  show item: "kv_item prs root V' = kv_item prs root V"
    by (intro ext kv_item_cong other) (simp add: key_kinds(5) [symmetric])
  have tl: "kv_timeline prs root V' = kv_timeline prs root V" by (intro ext kv_timeline_cong log)
  show "kv_events prs root V' = kv_events prs root V" by (intro ext kv_events_cong log)
  show le: "kv_lease prs root V' = (kv_lease prs root V)(QueueName it := (kv_lease prs root V (QueueName it))(i := Option.bind x (dec_lease prs)))"
    by (auto simp: V'_def kv_lease_def held_def fun_eq_iff)
  have "items_wf prs root V'"
    using assms(1) unfolding wf_mail_def items_wf_def item by (metis other key_kinds(6))
  moreover have "log_wf prs root V' j" for j
    using assms(1) unfolding wf_mail_def log_wf_def tl item by (metis log)
  moreover have "leases_wf prs root V'"
    unfolding leases_wf_def item
  proof (intro allI impI)
    fix k assume k: "V' k \<noteq> None" "prefix (leasesPrefix root @ ''/'') k"
    show "\<exists>q j l y. k = lease_key (queueLeasePrefix root q) (encodeKeyPart j) \<and> kv_lease prs root V' q j = Some l \<and>
        le_Name l = encodeKeyPart j \<and> lease_wire_ok l \<and> kv_item prs root V j = Some y \<and> QueueName y = q \<and> q \<noteq> []"
    proof (cases "?k = k")
      case True
      then obtain d l where "x = Some d" "dec_lease prs d = Some l" "le_Name l = encodeKeyPart i" "lease_wire_ok l"
        using assms(4) k(1) by (auto simp: V'_def)
      then show ?thesis using True assms(2,3) by (intro exI [of _ "QueueName it"] exI [of _ i] exI [of _ l] exI [of _ it]) (simp add: le)
    next
      case False
      then have "V k \<noteq> None" using k other by metis
      with k(2) assms(1) obtain q j l y where "k = lease_key (queueLeasePrefix root q) (encodeKeyPart j)" "kv_lease prs root V q j = Some l"
        "le_Name l = encodeKeyPart j" "lease_wire_ok l" "kv_item prs root V j = Some y" "QueueName y = q" "q \<noteq> []"
        unfolding wf_mail_def leases_wf_def by metis
      moreover have "kv_lease prs root V' q j = kv_lease prs root V q j" using False calculation(1) by (auto simp: le)
      ultimately show ?thesis by metis
    qed
  qed
  ultimately show "wf_mail prs root V'" by (simp add: wf_mail_def)
qed

text \<open>Appending an event later than the others of its item.\<close>

lemma gather_member:
  assumes "gather V p keys = Inr es" "entryKey p i \<in> set keys" "i \<noteq> []" "V (entryKey p i) = Some v"
  shows "\<exists>t. parseAppendLogID i = Some t \<and> \<lparr>al_ID = i, al_CreatedAt = t, al_Value = v\<rparr> \<in> set es"
  using assms(1,2)
proof (induction keys arbitrary: es)
  case (Cons key keys)
  have own: "CutPrefix (entryKey p i) (listPrefix p) = Some i" by (simp add: CutPrefix_Some entryKey_def)
  show ?case
  proof (cases "key = entryKey p i")
    case True
    then show ?thesis using Cons.prems(1) own assms(3,4) by (auto split: option.splits sum.splits)
  next
    case False
    then have mem: "entryKey p i \<in> set keys" using Cons.prems(2) by auto
    have "\<exists>es'. gather V p keys = Inr es' \<and> set es' \<subseteq> set es"
      using Cons.prems(1) by (auto split: option.splits sum.splits if_splits)
    then show ?thesis using Cons.IH [OF _ mem] by blast
  qed
qed simp

lemma event_of_entry_time: "event_of_entry prs i entry = Some ev \<Longrightarrow> ev_Timestamp ev = al_CreatedAt entry"
proof -
  have "struct_of (event_of_fields i eid t) j = Some ev \<Longrightarrow> ev_Timestamp ev = t" for eid t j
    by (cases "(event_of_fields i eid t, j)" rule: struct_of.cases) (auto simp: event_of_fields_def bind_eq_Some_conv)
  then show "event_of_entry prs i entry = Some ev \<Longrightarrow> ev_Timestamp ev = al_CreatedAt entry"
    by (auto simp: event_of_entry_def bind_eq_Some_conv)
qed

lemma those_Some_iff: "those xs = Some ys \<longleftrightarrow> xs = map Some ys"
  by (induction xs arbitrary: ys) (auto split: option.splits)

lemma timeline_entries:
  assumes "kv_timeline prs root V i = Some evs"
  obtains es where "gather V (eventLogPrefix root i) (log_keys V (eventLogPrefix root i)) = Inr es"
    "map (event_of_entry prs i) es = map Some evs"
  using assms by (auto simp: kv_timeline_def Let_def those_Some_iff split: sum.splits)

lemma append_less: "xs @ a < xs @ b \<longleftrightarrow> a < (b :: string)"
  by (induction xs) auto

lemma log_key_time:
  assumes "kv_timeline prs root V i = Some evs" "finite {k. V k \<noteq> None \<and> event_key root i k}"
    and "0 \<le> t" "t < 2 ^ 63" "V (entryKey (eventLogPrefix root i) (appendLogID t u u)) \<noteq> None"
  shows "\<exists>ev \<in> set evs. ev_Timestamp ev = t"
proof -
  let ?i = "appendLogID t u u"
  obtain es where es: "gather V (eventLogPrefix root i) (log_keys V (eventLogPrefix root i)) = Inr es"
    "map (event_of_entry prs i) es = map Some evs" using timeline_entries [OF assms(1)] .
  obtain v where v: "V (entryKey (eventLogPrefix root i) ?i) = Some v" using assms(5) by auto
  have "entryKey (eventLogPrefix root i) ?i \<in> set (log_keys V (eventLogPrefix root i))"
    using assms(2) v by (simp add: log_keys_def event_key_def entryKey_def)
  from gather_member [OF es(1) this _ v] parse_appendLogID [OF assms(3,4), of u u]
  have mem: "\<lparr>al_ID = ?i, al_CreatedAt = t, al_Value = v\<rparr> \<in> set es" by (auto simp: appendLogID_def)
  then have "event_of_entry prs i \<lparr>al_ID = ?i, al_CreatedAt = t, al_Value = v\<rparr> \<in> set (map Some evs)"
    using es(2) by (metis image_eqI list.set_map)
  then show ?thesis using event_of_entry_time by fastforce
qed

text \<open>The new key is above the old ones, so the timeline grows at its end.\<close>

lemma timeline_append:
  assumes "log_wf prs root V i" "kv_timeline prs root V i = Some evs" "finite {k. V k \<noteq> None \<and> event_key root i k}"
    and "0 \<le> t" "t < 2 ^ 63" "\<And>x. x \<in> set evs \<Longrightarrow> ev_Timestamp x < t"
    and "event_of_entry prs i \<lparr>al_ID = appendLogID t u u, al_CreatedAt = t, al_Value = d\<rparr> = Some ev"
  shows "kv_timeline prs root (V(entryKey (eventLogPrefix root i) (appendLogID t u u) \<mapsto> d)) i = Some (evs @ [ev])"
proof -
  let ?p = "eventLogPrefix root i" and ?i = "appendLogID t u u"
  let ?V = "V(entryKey ?p ?i \<mapsto> d)"
  obtain es where es: "gather V ?p (log_keys V ?p) = Inr es" "map (event_of_entry prs i) es = map Some evs"
    using timeline_entries [OF assms(2)] .
  have below: "k < entryKey ?p ?i" if k: "V k \<noteq> None" "prefix (listPrefix ?p) k" for k
  proof -
    obtain t' u' where t': "0 \<le> t'" "t' < 2 ^ 63" "k = entryKey ?p (appendLogID t' u' u')"
      using assms(1) k unfolding log_wf_def event_key_def log_key_ok_def by blast
    with log_key_time [OF assms(2,3) t'(1,2)] k(1) assms(6) have "t' < t" by blast
    from appendLogID_time_order [OF t'(1) this assms(5)] show ?thesis by (simp add: t'(3) entryKey_def append_less)
  qed
  have keys: "log_keys ?V ?p = log_keys V ?p @ [entryKey ?p ?i]"
    using assms(3) below by (intro log_keys_insert) (simp_all add: event_key_def)
  have "?V k = V k" if "k \<in> set (log_keys V ?p)" for k
    using that assms(3) below [of k] by (auto simp: log_keys_def event_key_def)
  then have "gather ?V ?p (log_keys V ?p) = Inr es" using es(1) gather_cong [of "log_keys V ?p" ?V V ?p] by simp
  moreover have "?V (entryKey ?p ?i) = Some d" "?i \<noteq> []" by (simp_all add: appendLogID_def)
  ultimately have "gather ?V ?p (log_keys ?V ?p) = Inr (es @ [\<lparr>al_ID = ?i, al_CreatedAt = t, al_Value = d\<rparr>])"
    unfolding keys by (intro gather_snoc parse_appendLogID assms(4,5))
  then show ?thesis using es(2) assms(7) by (simp add: kv_timeline_def Let_def those_Some_iff)
qed

lemma event_write:
  assumes "wf_mail prs root V" "kv_item prs root V i \<noteq> None" "finite {k. V k \<noteq> None \<and> event_key root i k}"
    and "0 \<le> t" "t < 2 ^ 63" "list_all (byte_in 0 127) u" "\<And>x. x \<in> set (kv_events prs root V i) \<Longrightarrow> ev_Timestamp x < t"
    and "event_of_entry prs i \<lparr>al_ID = appendLogID t u u, al_CreatedAt = t, al_Value = d\<rparr> = Some ev"
  defines "V' \<equiv> V(entryKey (eventLogPrefix root i) (appendLogID t u u) \<mapsto> d)"
  shows "kv_item prs root V' = kv_item prs root V" "kv_lease prs root V' = kv_lease prs root V"
    "kv_events prs root V' = (kv_events prs root V)(i := kv_events prs root V i @ [ev])" "wf_mail prs root V'"
proof -
  let ?k = "entryKey (eventLogPrefix root i) (appendLogID t u u)"
  have mine: "event_key root i ?k" by (simp add: event_key_def entryKey_def)
  have other: "?k \<noteq> k \<Longrightarrow> V' k = V k" for k by (simp add: V'_def)
  have log: "event_key root j k \<Longrightarrow> j \<noteq> i \<Longrightarrow> V' k = V k" for j k using other event_key_inj [OF mine] by metis
  show item: "kv_item prs root V' = kv_item prs root V"
    by (intro ext kv_item_cong other) (use mine key_kinds(1) in metis)
  show le: "kv_lease prs root V' = kv_lease prs root V"
    by (intro ext kv_lease_cong other) (use mine key_kinds(2) in metis)
  obtain evs where evs: "kv_timeline prs root V i = Some evs" "sorted_wrt (\<lambda>x y. ev_Timestamp x < ev_Timestamp y) evs"
    using assms(1) unfolding wf_mail_def log_wf_def by blast
  have before: "ev_Timestamp x < t" if "x \<in> set evs" for x using assms(7) evs(1) that by (simp add: kv_events_def)
  have wf: "log_wf prs root V j" for j using assms(1) by (simp add: wf_mail_def)
  have new: "kv_timeline prs root V' i = Some (evs @ [ev])"
    unfolding V'_def by (rule timeline_append [OF wf evs(1) assms(3-5) before assms(8)])
  have tl: "kv_timeline prs root V' j = kv_timeline prs root V j" if "j \<noteq> i" for j
    using that by (intro kv_timeline_cong log)
  show "kv_events prs root V' = (kv_events prs root V)(i := kv_events prs root V i @ [ev])"
    using new evs(1) tl by (auto simp: kv_events_def)
  have "items_wf prs root V'" "leases_wf prs root V'"
    using assms(1) mine unfolding wf_mail_def items_wf_def leases_wf_def item le by (metis other key_kinds(8,9))+
  moreover have "log_wf prs root V' j" for j
  proof (cases "j = i")
    case True
    have "sorted_wrt (\<lambda>x y. ev_Timestamp x < ev_Timestamp y) (evs @ [ev])"
      using evs(2) before event_of_entry_time [OF assms(8)] by (simp add: sorted_wrt_append)
    moreover have "log_key_ok root i ?k" using assms(4-6) unfolding log_key_ok_def by blast
    ultimately show ?thesis
      using wf [of i] assms(2) True new unfolding log_wf_def item by (metis other)
  next
    case False
    then show ?thesis using wf [of j] tl [OF False] unfolding log_wf_def item by (metis log)
  qed
  ultimately show "wf_mail prs root V'" by (simp add: wf_mail_def)
qed

text \<open>Removing everything a deleted item had.\<close>

definition clears :: "string \<Rightarrow> (string \<Rightarrow> bytes option) \<Rightarrow> string \<Rightarrow> Item \<Rightarrow> string set \<Rightarrow> bool" where
  "clears root V i it K \<longleftrightarrow>
     (\<forall>k\<in>K. mail_key root k \<longrightarrow> k = itemKey root i \<or> event_key root i k \<or>
        k = lease_key (queueLeasePrefix root (QueueName it)) (encodeKeyPart i)) \<and>
     itemKey root i \<in> K \<and> (\<forall>k. V k \<noteq> None \<longrightarrow> event_key root i k \<longrightarrow> k \<in> K) \<and>
     (QueueName it \<noteq> [] \<longrightarrow> lease_key (queueLeasePrefix root (QueueName it)) (encodeKeyPart i) \<in> K)"

definition without :: "string set \<Rightarrow> (string \<Rightarrow> bytes option) \<Rightarrow> string \<Rightarrow> bytes option" where
  "without K V = (\<lambda>k. if k \<in> K then None else V k)"

lemma wf_lease_home:
  assumes "wf_mail prs root V" "V (lease_key (queueLeasePrefix root q) (encodeKeyPart i)) \<noteq> None"
  shows "\<exists>l it. kv_lease prs root V q i = Some l \<and> le_Name l = encodeKeyPart i \<and> lease_wire_ok l \<and>
    kv_item prs root V i = Some it \<and> QueueName it = q \<and> q \<noteq> []"
proof -
  have "prefix (leasesPrefix root @ ''/'') (lease_key (queueLeasePrefix root q) (encodeKeyPart i))" by (simp add: key_defs)
  with assms obtain q' j l y where "lease_key (queueLeasePrefix root q) (encodeKeyPart i) = lease_key (queueLeasePrefix root q') (encodeKeyPart j)"
    "kv_lease prs root V q' j = Some l" "le_Name l = encodeKeyPart j" "lease_wire_ok l"
    "kv_item prs root V j = Some y" "QueueName y = q'" "q' \<noteq> []" unfolding wf_mail_def leases_wf_def by metis
  then show ?thesis by auto
qed

lemma removal_keys:
  assumes "clears root V i it K"
  shows "event_key root i k \<Longrightarrow> without K V k = None" "event_key root j k \<Longrightarrow> j \<noteq> i \<Longrightarrow> without K V k = V k"
    "without K V (itemKey root j) = (if j = i then None else V (itemKey root j))"
    "j \<noteq> i \<Longrightarrow> without K V (lease_key (queueLeasePrefix root q) (encodeKeyPart j)) = V (lease_key (queueLeasePrefix root q) (encodeKeyPart j))"
    "without K V k \<noteq> None \<Longrightarrow> V k \<noteq> None"
proof -
  have kept: "without K V k = V k" if "mail_key root k" "k \<noteq> itemKey root i" "\<not> event_key root i k"
    "k \<noteq> lease_key (queueLeasePrefix root (QueueName it)) (encodeKeyPart i)" for k
    using assms that by (auto simp: without_def clears_def)
  show "event_key root i k \<Longrightarrow> without K V k = None"
    using assms by (cases "V k") (auto simp: without_def clears_def)
  show "event_key root j k \<Longrightarrow> j \<noteq> i \<Longrightarrow> without K V k = V k"
    by (rule kept) (use mail_key_kinds(2) event_key_inj key_kinds in metis)+
  show "without K V (itemKey root j) = (if j = i then None else V (itemKey root j))"
    using assms kept [of "itemKey root j"] by (auto simp: mail_key_kinds key_kinds without_def clears_def)
  show "j \<noteq> i \<Longrightarrow> without K V (lease_key (queueLeasePrefix root q) (encodeKeyPart j)) = V (lease_key (queueLeasePrefix root q) (encodeKeyPart j))"
    by (intro kept) (auto simp: mail_key_kinds key_kinds key_kinds(5) [symmetric])
  show "without K V k \<noteq> None \<Longrightarrow> V k \<noteq> None" by (auto simp: without_def split: if_splits)
qed

lemma item_removal_views:
  assumes "wf_mail prs root V" "kv_item prs root V i = Some it" "clears root V i it K"
  shows "kv_item prs root (without K V) = (kv_item prs root V)(i := None)"
    "kv_timeline prs root (without K V) = (kv_timeline prs root V)(i \<mapsto> [])"
    "kv_lease prs root (without K V) = (\<lambda>q. (kv_lease prs root V q)(i := None))"
proof -
  let ?V = "without K V"
  note keys = removal_keys [OF assms(3)]
  show "kv_item prs root ?V = (kv_item prs root V)(i := None)"
    by (auto simp: kv_item_def keys(3) fun_eq_iff)
  have "{k. ?V k \<noteq> None \<and> prefix (listPrefix (eventLogPrefix root i)) k} = {}" using keys(1) by (auto simp: event_key_def)
  then have "log_keys ?V (eventLogPrefix root i) = []" by (simp only: log_keys_def sorted_list_of_set_empty)
  then have "kv_timeline prs root ?V i = Some []" by (simp add: kv_timeline_def Let_def)
  moreover have "kv_timeline prs root ?V j = kv_timeline prs root V j" if "j \<noteq> i" for j
    using that by (intro kv_timeline_cong keys(2))
  ultimately show "kv_timeline prs root ?V = (kv_timeline prs root V)(i \<mapsto> [])" by auto
  have none: "?V (lease_key (queueLeasePrefix root q) (encodeKeyPart i)) = None" for q
  proof (rule ccontr)
    assume k: "?V (lease_key (queueLeasePrefix root q) (encodeKeyPart i)) \<noteq> None"
    from wf_lease_home [OF assms(1) keys(5) [OF this]] have "QueueName it = q" "q \<noteq> []" using assms(2) by auto
    then show False using k assms(3) by (simp add: without_def clears_def)
  qed
  show "kv_lease prs root ?V = (\<lambda>q. (kv_lease prs root V q)(i := None))"
  proof (intro ext)
    fix q j
    show "kv_lease prs root ?V q j = ((kv_lease prs root V q)(i := None)) j"
      using none [of q] keys(4) [of j q] by (cases "j = i") (simp_all add: kv_lease_def held_def)
  qed
qed

lemma item_removal_wf:
  assumes "wf_mail prs root V" "kv_item prs root V i = Some it" "clears root V i it K"
  shows "wf_mail prs root (without K V)"
proof -
  let ?V = "without K V"
  note keys = removal_keys [OF assms(3)] and views = item_removal_views [OF assms]
  have "items_wf prs root ?V"
    unfolding items_wf_def
  proof (intro allI impI)
    fix k assume k: "?V k \<noteq> None" "prefix (itemsPrefix root @ ''/'') k"
    with keys(5) assms(1) obtain j x where j: "j \<noteq> []" "k = itemKey root j" "kv_item prs root V j = Some x" "it_ID x = j"
      unfolding wf_mail_def items_wf_def by metis
    then show "\<exists>i x. i \<noteq> [] \<and> k = itemKey root i \<and> kv_item prs root ?V i = Some x \<and> it_ID x = i"
      using k(1) by (auto simp: views(1) keys(3) split: if_splits)
  qed
  moreover have "log_wf prs root ?V j" for j
  proof (cases "j = i")
    case True
    then show ?thesis using keys(1) unfolding log_wf_def views by auto
  next
    case False
    have "log_wf prs root V j" using assms(1) by (simp add: wf_mail_def)
    then show ?thesis using False keys(5) by (auto simp: log_wf_def views)
  qed
  moreover have "leases_wf prs root ?V"
    unfolding leases_wf_def
  proof (intro allI impI)
    fix k assume k: "?V k \<noteq> None" "prefix (leasesPrefix root @ ''/'') k"
    with keys(5) assms(1) obtain q j l y where j: "k = lease_key (queueLeasePrefix root q) (encodeKeyPart j)" "kv_lease prs root V q j = Some l"
        "le_Name l = encodeKeyPart j" "lease_wire_ok l" "kv_item prs root V j = Some y" "QueueName y = q" "q \<noteq> []"
      unfolding wf_mail_def leases_wf_def by metis
    then have "j \<noteq> i" using k(1) assms(2,3) by (auto simp: without_def clears_def)
    then show "\<exists>q i l x. k = lease_key (queueLeasePrefix root q) (encodeKeyPart i) \<and> kv_lease prs root ?V q i = Some l \<and>
        le_Name l = encodeKeyPart i \<and> lease_wire_ok l \<and> kv_item prs root ?V i = Some x \<and> QueueName x = q \<and> q \<noteq> []"
      using j by (intro exI [of _ q] exI [of _ j] exI [of _ l] exI [of _ y]) (simp add: views)
  qed
  ultimately show ?thesis by (simp add: wf_mail_def)
qed

section \<open>The operations on the map\<close>

locale mailbox_kv = kv_store inv view env_ok set_op get_op del_op list_op
  for inv :: "nat \<Rightarrow> 's \<Rightarrow> bool" and view :: "'s \<Rightarrow> string \<Rightarrow> bytes option" and env_ok :: "'k \<Rightarrow> bool"
    and set_op :: "'k \<Rightarrow> string \<Rightarrow> bytes \<Rightarrow> 's \<Rightarrow> 's \<times> 'err option"
    and get_op :: "'k \<Rightarrow> string \<Rightarrow> 's \<Rightarrow> 's \<times> bytes option"
    and del_op :: "'k \<Rightarrow> string \<Rightarrow> 's \<Rightarrow> 's \<times> 'err option"
    and list_op :: "'k \<Rightarrow> string \<Rightarrow> 's \<Rightarrow> 's \<times> string list" +
  fixes print :: "json \<Rightarrow> bytes option"
    and parse :: "bytes \<Rightarrow> json option"
    and root :: string
  assumes kv_mono: "inv n s \<Longrightarrow> m \<le> n \<Longrightarrow> inv m s"
    and text_law: "doc_ok j \<Longrightarrow> print j = Some d \<Longrightarrow> parse d = Some j"
    and root_ascii: "list_all (byte_in 0 127) root"

text \<open>The clock readings of a call are in order and after 1970, and its random strings are ASCII.\<close>

definition mail_env_ok :: "('k \<Rightarrow> bool) \<Rightarrow> 'k mail_env \<Rightarrow> bool" where
  "mail_env_ok ok e \<longleftrightarrow> ok (mv_kv e) \<and> mv_t1 e \<le> mv_t2 e \<and> mv_t2 e \<le> mv_t3 e \<and> 0 \<le> mv_t3 e \<and> mv_t3 e < 2 ^ 63 \<and>
     list_all (byte_in 0 127) (mv_uuid e) \<and> list_all (byte_in 0 127) (mv_token e)"

definition mail_inv ::
  "(nat \<Rightarrow> 's \<Rightarrow> bool) \<Rightarrow> ('s \<Rightarrow> string \<Rightarrow> bytes option) \<Rightarrow> (bytes \<Rightarrow> json option) \<Rightarrow> string \<Rightarrow> nat \<Rightarrow> 's \<Rightarrow> bool" where
  "mail_inv ok view prs root n s \<longleftrightarrow> ok n s \<and> wf_mail prs root (view s)"

context mailbox_kv
begin

lemma finite_keys:
  assumes "inv n s" "env_ok e"
  shows "finite {k. view s k \<noteq> None \<and> prefix p k}"
proof -
  obtain s' ks where "list_op e p s = (s', ks)" by fastforce
  from list_law [OF assms this] show ?thesis by (metis List.finite_set)
qed

lemma list_step:
  assumes "inv n s" "env_ok e"
  obtains s' ks where "list_op e p s = (s', ks)" "inv n s'" "view s' = view s" "sorted ks" "distinct ks"
    "set ks = {k. view s k \<noteq> None \<and> prefix p k}"
proof -
  obtain s' ks where l: "list_op e p s = (s', ks)" by fastforce
  from list_law [OF assms l] show ?thesis by (intro that [OF l]) auto
qed

lemma dec_item_print:
  assumes "item_wire_ok it" "Option.bind (item_to_json it) print = Some d"
  shows "dec_item parse d = Some it"
proof -
  obtain j where j: "item_to_json it = Some j" "print j = Some d" using assms(2) by (auto simp: bind_eq_Some_conv)
  show ?thesis using text_law [OF item_doc_ok [OF assms(1) j(1)] j(2)] item_roundtrip [OF assms(1) j(1)] by (simp add: dec_item_def)
qed

lemma dec_lease_print:
  assumes "lease_wire_ok l" "enc_lease print l = Some d"
  shows "dec_lease parse d = Some l"
proof -
  obtain j where j: "lease_to_json l = Some j" "print j = Some d" using assms(2) by (auto simp: enc_lease_def bind_eq_Some_conv)
  show ?thesis using text_law [OF lease_doc_ok [OF j(1)] j(2)] lease_roundtrip [OF assms(1) j(1)] by (simp add: dec_lease_def)
qed

lemma dec_event_print:
  assumes "event_wire_ok ev" "print (event_to_json ev) = Some d"
  shows "event_of_entry parse (ev_ItemID ev) \<lparr>al_ID = eid, al_CreatedAt = t, al_Value = d\<rparr> =
    Some (ev\<lparr>ev_EventID := eid, ev_Timestamp := t\<rparr>)"
  using text_law [OF event_doc_ok assms(2)] event_roundtrip [OF assms(1)] by (simp add: event_of_entry_def)

text \<open>The leases, with every step of a call spelled out.\<close>

lemma encode_trim: "i \<noteq> [] \<Longrightarrow> TrimSpace (encodeKeyPart i) \<noteq> []"
proof -
  assume i: "i \<noteq> []"
  have "\<not> is_space c" if "c \<in> set (encodeKeyPart i)" for c
    using encodeKeyPart_chars [OF that] by (auto simp: is_space_def)
  then have "TrimSpace (encodeKeyPart i) = encodeKeyPart i"
    by (auto simp: TrimSpace_def dropWhile_eq_self_iff dest: hd_in_set)
       (metis dropWhile_eq_self_iff hd_in_set rev_is_Nil_conv rev_rev_ident set_rev)
  then show ?thesis using i by simp
qed

lemma lease_Get_value:
  fixes dec :: "bytes \<Rightarrow> LeaseRecord option"
  assumes "inv n s" "env_ok e" "TrimSpace name \<noteq> []" "\<And>d. view s (lease_key p name) = Some d \<Longrightarrow> dec d \<noteq> None"
  obtains s' where "lease_Get dec (get_op e) p t name s = (s', Inr (live_lease t (held dec (view s) p name)) :: 'err lease_error + _)"
    "lease_getRaw dec (get_op e) p name s = (s', Inr (held dec (view s) p name) :: 'err lease_error + _)" "inv n s'" "view s' = view s"
proof -
  obtain s1 where g: "get_op e (lease_key p name) s = (s1, view s (lease_key p name))" "inv n s1" "view s1 = view s"
    using get_step [OF assms(1,2)] by blast
  show ?thesis
    using that [of s1] assms(3,4) g
    by (cases "view s (lease_key p name)") (auto simp: lease_Get_def lease_getRaw_def held_def live_lease_def split: option.splits)
qed

text \<open>The end of \<open>Claim\<close> and \<open>Renew\<close>: write the record and read it back.\<close>

lemma lease_put_confirm:
  assumes "inv (Suc n) s" "env_ok e" "TrimSpace (le_Name r) \<noteq> []" "utf8_valid (lease_key p (le_Name r))"
    and enc: "\<And>d. enc r = Some d \<Longrightarrow> dec d = Some r"
    and call: "(case lease_put enc (set_op e) p r s of (s2, Some err) \<Rightarrow> (s2, Inl err)
          | (s2, None) \<Rightarrow> lease_confirm (le_Token r) (lease_Get dec (get_op e) p t (le_Name r) s2)) = (s', res)"
  shows "inv n s' \<and>
    (view s' = view s \<and> (\<exists>err. res = Inl err) \<or>
     (\<exists>d. enc r = Some d \<and> view s' = (view s)(lease_key p (le_Name r) \<mapsto> d) \<and>
        res = Inr (if Expired r t then (None, False) else (Some r, True))))"
proof (cases "enc r")
  case None
  then show ?thesis using call kv_mono [OF assms(1), of n] by (auto simp: lease_put_def)
next
  case (Some d)
  obtain s2 z where set: "set_op e (lease_key p (le_Name r)) d s = (s2, z)" by fastforce
  note law = set_law [OF assms(1,2,4) set]
  show ?thesis
  proof (cases z)
    case (Some err)
    then show ?thesis using call law \<open>enc r = Some d\<close> set by (auto simp: lease_put_def)
  next
    case None
    then have v2: "inv n s2" "view s2 = (view s)(lease_key p (le_Name r) \<mapsto> d)" using law by auto
    have h: "held dec (view s2) p (le_Name r) = Some r" "\<And>x. view s2 (lease_key p (le_Name r)) = Some x \<Longrightarrow> dec x \<noteq> None"
      using v2(2) enc [OF Some] by (auto simp: held_def)
    obtain s3 where "lease_Get dec (get_op e) p t (le_Name r) s2 =
        (s3, Inr (live_lease t (held dec (view s2) p (le_Name r))) :: 'err lease_error + _)"
      "inv n s3" "view s3 = view s2" by (rule lease_Get_value [OF v2(1) assms(2,3) h(2)])
    then show ?thesis using call Some set None v2(2) h(1)
      by (auto simp: lease_put_def lease_confirm_def live_lease_def split: if_splits)
  qed
qed

lemma lease_Claim_value:
  assumes "inv (Suc n) s" "env_ok e" "TrimSpace name \<noteq> []" "utf8_valid (lease_key p name)"
    and "\<And>d. view s (lease_key p name) = Some d \<Longrightarrow> dec d \<noteq> None" "t1 \<le> t2" "t2 \<le> t3"
    and r_def: "r = \<lparr>le_Name = name, le_Holder = holder, le_Token = token, le_AcquiredAt = t2, le_ExpiresAt = t2 + ttl\<rparr>"
    and enc: "\<And>d. enc r = Some d \<Longrightarrow> dec d = Some r"
    and "lease_Claim enc dec (set_op e) (get_op e) p (t1, t2, t3) token name holder ttl s = (s', res)"
  shows "inv n s' \<and>
    (view s' = view s \<and> (\<nexists>x. res = Inr (x, True)) \<or>
     (\<exists>d. enc r = Some d \<and> view s' = (view s)(lease_key p name \<mapsto> d) \<and> live_lease t3 (held dec (view s) p name) = None \<and>
        res = Inr (if Expired r t3 then (None, False) else (Some r, True))))"
proof -
  let ?h = "held dec (view s) p name"
  obtain s1 where g1: "lease_Get dec (get_op e) p t1 name s = (s1, Inr (live_lease t1 ?h) :: 'err lease_error + _)"
    "inv (Suc n) s1" "view s1 = view s" by (rule lease_Get_value [OF assms(1-3,5)])
  have mono: "inv n s" "inv n s1" using kv_mono [OF assms(1), of n] kv_mono [OF g1(2), of n] by simp_all
  show ?thesis
  proof (cases "validateLeaseInput name holder ttl :: 'err lease_error option")
    case (Some err)
    then show ?thesis using assms(10) mono by (auto simp: lease_Claim_def)
  next
    case valid: None
    show ?thesis
    proof (cases "live_lease t2 (live_lease t1 ?h)")
      case (Some x)
      then show ?thesis using assms(10) mono g1 valid
        by (auto simp: lease_Claim_def live_lease_def split: option.splits if_splits)
    next
      case free: None
      then have gone: "live_lease t3 ?h = None"
        using assms(6,7) by (auto simp: live_lease_def Expired_def split: option.splits if_splits)
      have "(case lease_put enc (set_op e) p r s1 of (s2, Some err) \<Rightarrow> (s2, Inl err)
          | (s2, None) \<Rightarrow> lease_confirm (le_Token r) (lease_Get dec (get_op e) p t3 (le_Name r) s2)) = (s', res)"
        using assms(10) g1 valid free
        by (auto simp: lease_Claim_def r_def Let_def live_lease_def split: option.splits if_splits)
      from lease_put_confirm [OF g1(2) assms(2) _ _ enc this] gone g1(3) assms(3,4)
      show ?thesis by (auto simp: r_def)
    qed
  qed
qed

lemma lease_Renew_value:
  assumes "inv (Suc n) s" "env_ok e" "TrimSpace name \<noteq> []" "utf8_valid (lease_key p name)"
    and "\<And>d. view s (lease_key p name) = Some d \<Longrightarrow> dec d \<noteq> None"
    and "\<And>r. held dec (view s) p name = Some r \<Longrightarrow> le_Name r = name"
    and enc: "\<And>r d x. held dec (view s) p name = Some r \<Longrightarrow> enc (r\<lparr>le_ExpiresAt := x\<rparr>) = Some d \<Longrightarrow> dec d = Some (r\<lparr>le_ExpiresAt := x\<rparr>)"
    and "lease_Renew enc dec (set_op e) (get_op e) p (t1, t2, t3) token name holder ttl s = (s', res)"
  shows "inv n s' \<and>
    (view s' = view s \<and> (\<nexists>x. res = Inr (x, True)) \<or>
     (\<exists>d r. held dec (view s) p name = Some r \<and> le_Holder r = holder \<and> le_Token r = token \<and>
        enc (r\<lparr>le_ExpiresAt := t2 + ttl\<rparr>) = Some d \<and> view s' = (view s)(lease_key p name \<mapsto> d) \<and>
        res = Inr (if Expired (r\<lparr>le_ExpiresAt := t2 + ttl\<rparr>) t3 then (None, False) else (Some (r\<lparr>le_ExpiresAt := t2 + ttl\<rparr>), True))))"
proof -
  let ?h = "held dec (view s) p name"
  obtain s1 where g1: "lease_Get dec (get_op e) p t1 name s = (s1, Inr (live_lease t1 ?h) :: 'err lease_error + _)"
    "inv (Suc n) s1" "view s1 = view s" by (rule lease_Get_value [OF assms(1-3,5)])
  have mono: "inv n s" "inv n s1" using kv_mono [OF assms(1), of n] kv_mono [OF g1(2), of n] by simp_all
  show ?thesis
  proof (cases "\<exists>r. live_lease t1 ?h = Some r \<and> \<not> Expired r t2 \<and> le_Holder r = holder \<and> le_Token r = token \<and> token \<noteq> [] \<and>
      (validateLeaseInput name holder ttl :: 'err lease_error option) = None")
    case False
    then show ?thesis using assms(8) mono g1
      by (auto simp: lease_Renew_def split: option.splits if_splits)
  next
    case True
    then obtain r where r: "live_lease t1 ?h = Some r" "\<not> Expired r t2" "le_Holder r = holder" "le_Token r = token" "token \<noteq> []"
      "(validateLeaseInput name holder ttl :: 'err lease_error option) = None" by blast
    then have h: "?h = Some r" by (auto simp: live_lease_def split: option.splits if_splits)
    let ?r = "r\<lparr>le_ExpiresAt := t2 + ttl\<rparr>"
    have name: "le_Name ?r = name" "le_Token ?r = token" using assms(6) [OF h] r(4) by simp_all
    have "(case lease_put enc (set_op e) p ?r s1 of (s2, Some err) \<Rightarrow> (s2, Inl err)
        | (s2, None) \<Rightarrow> lease_confirm (le_Token ?r) (lease_Get dec (get_op e) p t3 (le_Name ?r) s2)) = (s', res)"
      unfolding name using assms(8) g1 r by (auto simp: lease_Renew_def)
    from lease_put_confirm [OF g1(2) assms(2) _ _ enc [OF h] this] g1(3) assms(3,4) name h r(3,4)
    show ?thesis by auto
  qed
qed

lemma lease_Release_value:
  fixes res :: "'err lease_error + bool"
  assumes "inv (Suc n) s" "env_ok e" "TrimSpace name \<noteq> []" "utf8_valid (lease_key p name)"
    and "\<And>d. view s (lease_key p name) = Some d \<Longrightarrow> dec d \<noteq> None"
    and "lease_Release dec (del_op e) (get_op e) p token name holder s = (s', res)"
  shows "inv n s' \<and> view s' = (if res = Inr True then (view s)(lease_key p name := None) else view s)"
proof -
  obtain s1 where g1: "lease_getRaw dec (get_op e) p name s = (s1, Inr (held dec (view s) p name) :: 'err lease_error + _)"
    "inv (Suc n) s1" "view s1 = view s" by (rule lease_Get_value [OF assms(1-3,5)])
  have mono: "inv n s" "inv n s1" using kv_mono [OF assms(1), of n] kv_mono [OF g1(2), of n] by simp_all
  obtain s2 z where del: "del_op e (lease_key p name) s1 = (s2, z)" by fastforce
  show ?thesis
    using assms(6) mono g1 del_law [OF g1(2) assms(2,4) del] del
    by (auto simp: lease_Release_def split: option.splits if_splits)
qed

text \<open>Loading.\<close>

lemma get_fact: "inv n s \<Longrightarrow> env_ok e \<Longrightarrow> \<exists>s1. get_op e k s = (s1, view s k) \<and> inv n s1 \<and> view s1 = view s"
  using get_step by blast

lemma CutPrefix_slash [simp]: "CutPrefix (xs @ c # ys) (xs @ [c]) = Some ys"
  by (simp add: CutPrefix_Some)

lemma itemIDFromKey_key [simp]: "i \<noteq> [] \<Longrightarrow> itemIDFromKey root (itemKey root i) = Inr (Some i)"
  by (simp add: itemIDFromKey_def itemKey_def)

lemma claimKeyParts_key [simp]:
  "i \<noteq> [] \<Longrightarrow> q \<noteq> [] \<Longrightarrow> claimKeyParts root (lease_key (queueLeasePrefix root q) (encodeKeyPart i)) = Inr (Some (q, i))"
  by (simp add: claimKeyParts_def lease_key_def queueLeasePrefix_def Cut_append)

lemma listItems_value:
  assumes "env_ok e"
  shows "inv n s \<Longrightarrow> (\<And>k. k \<in> set keys \<Longrightarrow> \<exists>i it. i \<noteq> [] \<and> k = itemKey root i \<and> kv_item parse root (view s) i = Some it) \<Longrightarrow>
    \<exists>s' its. (kv_listItems (get_op e) parse root keys s :: 's \<times> ('err mail_error + Item list)) = (s', Inr its) \<and> inv n s' \<and> view s' = view s \<and>
      (\<forall>it. it \<in> set its \<longleftrightarrow> (\<exists>i. itemKey root i \<in> set keys \<and> kv_item parse root (view s) i = Some it))"
proof (induction keys arbitrary: s)
  case (Cons key keys)
  obtain i it where i: "i \<noteq> []" "key = itemKey root i" "kv_item parse root (view s) i = Some it" using Cons.prems(2) [of key] by auto
  obtain s1 where g: "get_op e key s = (s1, view s key)" "inv n s1" "view s1 = view s"
    using get_fact [OF Cons.prems(1) assms] by blast
  have d: "Option.bind (view s key) (dec_item parse) = Some it" using i by (simp add: kv_item_def)
  have "\<exists>s' its. (kv_listItems (get_op e) parse root keys s1 :: 's \<times> ('err mail_error + Item list)) = (s', Inr its) \<and>
      inv n s' \<and> view s' = view s1 \<and>
      (\<forall>it. it \<in> set its \<longleftrightarrow> (\<exists>i. itemKey root i \<in> set keys \<and> kv_item parse root (view s1) i = Some it))"
    by (rule Cons.IH [OF g(2)]) (use Cons.prems(2) g(3) in auto)
  then obtain s2 its where ih: "(kv_listItems (get_op e) parse root keys s1 :: 's \<times> ('err mail_error + Item list)) = (s2, Inr its)"
    "inv n s2" "view s2 = view s"
    "\<And>it. it \<in> set its \<longleftrightarrow> (\<exists>i. itemKey root i \<in> set keys \<and> kv_item parse root (view s) i = Some it)" using g(3) by auto
  have "(kv_listItems (get_op e) parse root (key # keys) s :: 's \<times> ('err mail_error + Item list)) = (s2, Inr (it # its))"
    using i(1,2) g(1) d ih(1) by (auto simp: bind_eq_Some_conv)
  moreover have "x \<in> set (it # its) \<longleftrightarrow> (\<exists>j. itemKey root j \<in> set (key # keys) \<and> kv_item parse root (view s) j = Some x)" for x
    using i ih(4) by auto
  ultimately show ?case using ih(2,3) by blast
qed simp

lemma listEvents_value:
  assumes "inv n s" "env_ok e" "kv_timeline parse root (view s) i = Some evs"
  shows "\<exists>s'. (kv_listEvents (list_op e) (get_op e) parse root i s :: 's \<times> ('err mail_error + Event list)) = (s', Inr evs) \<and>
    inv n s' \<and> view s' = view s"
proof -
  obtain s1 r where l: "log_List (list_op e) (get_op e) (eventLogPrefix root i) s = (s1, r)" by fastforce
  note law = log_List_gathers [OF assms(1,2) l]
  obtain es where "gather (view s) (eventLogPrefix root i) (log_keys (view s) (eventLogPrefix root i)) = Inr es"
    "map (event_of_entry parse i) es = map Some evs" using timeline_entries [OF assms(3)] .
  then show ?thesis using law l by (auto simp: kv_listEvents_def those_Some_iff [symmetric])
qed

lemma loadEvents_value:
  assumes "env_ok e"
  shows "inv n s \<Longrightarrow> (\<And>i. kv_timeline parse root (view s) i \<noteq> None) \<Longrightarrow>
    \<exists>s' m'. (kv_loadEvents (list_op e) (get_op e) parse root its m s :: 's \<times> ('err mail_error + (string, Event list) gomap)) = (s', Inr m') \<and>
      inv n s' \<and> view s' = view s \<and>
      (\<forall>i. fmlookup m' i = (if (\<exists>it\<in>set its. it_ID it = i) \<and> kv_events parse root (view s) i \<noteq> []
         then Some (kv_events parse root (view s) i) else fmlookup m i))"
proof (induction its arbitrary: s m)
  case (Cons it its)
  obtain evs where evs: "kv_timeline parse root (view s) (it_ID it) = Some evs" using Cons.prems(2) by fastforce
  then have kv: "kv_events parse root (view s) (it_ID it) = evs" by (simp add: kv_events_def)
  obtain s1 where l: "(kv_listEvents (list_op e) (get_op e) parse root (it_ID it) s :: 's \<times> ('err mail_error + Event list)) = (s1, Inr evs)"
    "inv n s1" "view s1 = view s" using listEvents_value [OF Cons.prems(1) assms evs] by blast
  let ?m = "if evs = [] then m else fmupd (it_ID it) evs m"
  obtain s2 m' where ih: "(kv_loadEvents (list_op e) (get_op e) parse root its ?m s1 :: 's \<times> ('err mail_error + _)) = (s2, Inr m')"
    "inv n s2" "view s2 = view s"
    "\<And>i. fmlookup m' i = (if (\<exists>it\<in>set its. it_ID it = i) \<and> kv_events parse root (view s) i \<noteq> []
         then Some (kv_events parse root (view s) i) else fmlookup ?m i)"
    using Cons.IH [OF l(2), of ?m] Cons.prems(2) l(3) by auto
  have "fmlookup m' i = (if (\<exists>x\<in>set (it # its). it_ID x = i) \<and> kv_events parse root (view s) i \<noteq> []
         then Some (kv_events parse root (view s) i) else fmlookup m i)" for i
    using ih(4) [of i] kv by auto
  then show ?case using ih(1-3) l(1) by auto
qed simp

lemma listClaims_value:
  assumes "env_ok e"
  shows "inv n s \<Longrightarrow> (\<And>k. k \<in> set keys \<Longrightarrow> \<exists>q i l. q \<noteq> [] \<and> i \<noteq> [] \<and> k = lease_key (queueLeasePrefix root q) (encodeKeyPart i) \<and>
      kv_lease parse root (view s) q i = Some l) \<Longrightarrow>
    \<exists>s' cs. (kv_listClaims (get_op e) parse root now keys s :: 's \<times> ('err mail_error + Claim list)) = (s', Inr cs) \<and> inv n s' \<and> view s' = view s \<and>
      (\<forall>c. c \<in> set cs \<longleftrightarrow> (\<exists>q i l. lease_key (queueLeasePrefix root q) (encodeKeyPart i) \<in> set keys \<and>
         live_lease now (kv_lease parse root (view s) q i) = Some l \<and> c = claimFromLease q i l))"
proof (induction keys arbitrary: s)
  case (Cons key keys)
  obtain q i l where i: "q \<noteq> []" "i \<noteq> []" "key = lease_key (queueLeasePrefix root q) (encodeKeyPart i)"
    "kv_lease parse root (view s) q i = Some l" using Cons.prems(2) [of key] by auto
  obtain s1 where g: "get_op e key s = (s1, view s key)" "inv n s1" "view s1 = view s"
    using get_fact [OF Cons.prems(1) assms] by blast
  have d: "Option.bind (view s key) (dec_lease parse) = Some l" using i by (simp add: kv_lease_def held_def)
  have "\<exists>s' cs. (kv_listClaims (get_op e) parse root now keys s1 :: 's \<times> ('err mail_error + Claim list)) = (s', Inr cs) \<and>
      inv n s' \<and> view s' = view s1 \<and>
      (\<forall>c. c \<in> set cs \<longleftrightarrow> (\<exists>q i l. lease_key (queueLeasePrefix root q) (encodeKeyPart i) \<in> set keys \<and>
         live_lease now (kv_lease parse root (view s1) q i) = Some l \<and> c = claimFromLease q i l))"
    by (rule Cons.IH [OF g(2)]) (use Cons.prems(2) g(3) in auto)
  then obtain s2 cs where ih: "(kv_listClaims (get_op e) parse root now keys s1 :: 's \<times> ('err mail_error + Claim list)) = (s2, Inr cs)"
    "inv n s2" "view s2 = view s"
    "\<And>c. c \<in> set cs \<longleftrightarrow> (\<exists>q i l. lease_key (queueLeasePrefix root q) (encodeKeyPart i) \<in> set keys \<and>
         live_lease now (kv_lease parse root (view s) q i) = Some l \<and> c = claimFromLease q i l)" using g(3) by auto
  let ?cs = "if Expired l now then cs else claimFromLease q i l # cs"
  have "(kv_listClaims (get_op e) parse root now (key # keys) s :: 's \<times> ('err mail_error + Claim list)) = (s2, Inr ?cs)"
    using i(1-3) g(1) d ih(1) by (auto simp: bind_eq_Some_conv)
  moreover have live: "live_lease now (kv_lease parse root (view s) q i) = (if Expired l now then None else Some l)"
    by (simp add: live_lease_def i(4))
  have "c \<in> set ?cs \<longleftrightarrow> (\<exists>q i l. lease_key (queueLeasePrefix root q) (encodeKeyPart i) \<in> set (key # keys) \<and>
         live_lease now (kv_lease parse root (view s) q i) = Some l \<and> c = claimFromLease q i l)" for c
    using live unfolding i(3) by (cases "Expired l now") (auto simp: ih(4))
  ultimately show ?case using ih(2,3) by blast
qed simp

section \<open>The contract\<close>

lemma wf_item_id:
  assumes "wf_mail parse root V" "kv_item parse root V i = Some it"
  shows "it_ID it = i \<and> i \<noteq> []"
proof -
  have "V (itemKey root i) \<noteq> None" "prefix (itemsPrefix root @ ''/'') (itemKey root i)"
    using assms(2) by (auto simp: kv_item_def itemKey_def bind_eq_Some_conv)
  with assms obtain j x where "j \<noteq> []" "itemKey root i = itemKey root j" "kv_item parse root V j = Some x" "it_ID x = j"
    unfolding wf_mail_def items_wf_def by metis
  then show ?thesis using assms(2) by simp
qed

lemma item_key_present:
  assumes "wf_mail parse root V"
  shows "V (itemKey root i) \<noteq> None \<longleftrightarrow> kv_item parse root V i \<noteq> None"
proof
  assume k: "V (itemKey root i) \<noteq> None"
  have "prefix (itemsPrefix root @ ''/'') (itemKey root i)" by (simp add: itemKey_def)
  with k assms obtain j x where "itemKey root i = itemKey root j" "kv_item parse root V j = Some x"
    unfolding wf_mail_def items_wf_def by metis
  then show "kv_item parse root V i \<noteq> None" by simp
qed (auto simp: kv_item_def bind_eq_Some_conv)

lemma wf_timeline:
  assumes "wf_mail parse root V"
  shows "kv_timeline parse root V i = Some (kv_events parse root V i)"
    "sorted_wrt (\<lambda>x y. ev_Timestamp x < ev_Timestamp y) (kv_events parse root V i)"
proof -
  obtain evs where "kv_timeline parse root V i = Some evs" "sorted_wrt (\<lambda>x y. ev_Timestamp x < ev_Timestamp y) evs"
    using assms unfolding wf_mail_def log_wf_def by blast
  then show "kv_timeline parse root V i = Some (kv_events parse root V i)"
    "sorted_wrt (\<lambda>x y. ev_Timestamp x < ev_Timestamp y) (kv_events parse root V i)" by (simp_all add: kv_events_def)
qed

lemma backend_load:
  assumes "mail_inv inv view parse root n b" "mail_env_ok env_ok e"
    and "be_Load (PrivateKVBackend set_op get_op del_op list_op print parse root) e b = (b', ld)"
  shows "mail_inv inv view parse root n b' \<and> view b' = view b \<and>
    (\<exists>sp. ld = Inr sp \<and> (\<forall>it. it \<in> set (sp_Items sp) \<longleftrightarrow> (\<exists>i. kv_item parse root (view b) i = Some it)) \<and>
      (\<forall>i. fmlookup (sp_Events sp) i = (if kv_events parse root (view b) i = [] then None else Some (kv_events parse root (view b) i))) \<and>
      (\<forall>c. c \<in> set (sp_Claims sp) \<longleftrightarrow>
         (\<exists>q i l. live_lease (mv_t3 e) (kv_lease parse root (view b) q i) = Some l \<and> c = claimFromLease q i l)))"
proof -
  let ?V = "view b" and ?k = "mv_kv e"
  have inv: "inv n b" and wf: "wf_mail parse root ?V" and env: "env_ok ?k"
    using assms(1,2) by (auto simp: mail_inv_def mail_env_ok_def)
  obtain s0 ks where l0: "list_op ?k (itemsPrefix root @ ''/'') b = (s0, ks)" "inv n s0" "view s0 = ?V" "sorted ks" "distinct ks"
    "set ks = {k. ?V k \<noteq> None \<and> prefix (itemsPrefix root @ ''/'') k}" by (rule list_step [OF inv env])
  have item_keys: "\<exists>i it. i \<noteq> [] \<and> k = itemKey root i \<and> kv_item parse root (view s0) i = Some it" if "k \<in> set ks" for k
    using that wf unfolding l0(3,6) wf_mail_def items_wf_def by blast
  obtain s1 its where l1: "(kv_listItems (get_op ?k) parse root ks s0 :: 's \<times> ('err mail_error + Item list)) = (s1, Inr its)"
    "inv n s1" "view s1 = ?V"
    "\<And>it. it \<in> set its \<longleftrightarrow> (\<exists>i. itemKey root i \<in> set ks \<and> kv_item parse root ?V i = Some it)"
    using listItems_value [OF env l0(2) item_keys, of ks] unfolding l0(3) by auto
  have mem: "it \<in> set its \<longleftrightarrow> (\<exists>i. kv_item parse root ?V i = Some it)" for it
    unfolding l1(4) l0(6) by (auto simp: kv_item_def itemKey_def bind_eq_Some_conv)
  have tl: "kv_timeline parse root (view s1) i \<noteq> None" for i using wf_timeline(1) [OF wf] by (simp add: l1(3))
  obtain s2 m where l2: "(kv_loadEvents (list_op ?k) (get_op ?k) parse root its fmempty s1 :: 's \<times> ('err mail_error + _)) = (s2, Inr m)"
    "inv n s2" "view s2 = ?V"
    "\<And>i. fmlookup m i = (if (\<exists>it\<in>set its. it_ID it = i) \<and> kv_events parse root ?V i \<noteq> []
         then Some (kv_events parse root ?V i) else None)"
    using loadEvents_value [OF env l1(2) tl, of its fmempty] unfolding l1(3) by auto
  have evs: "fmlookup m i = (if kv_events parse root ?V i = [] then None else Some (kv_events parse root ?V i))" for i
    using l2(4) [of i] mem wf_item_id [OF wf] wf_log_empty(2) [OF wf, of i] by fastforce
  obtain s3 ls where l3: "list_op ?k (leasesPrefix root @ ''/'') s2 = (s3, ls)" "inv n s3" "view s3 = view s2" "sorted ls" "distinct ls"
    "set ls = {k. view s2 k \<noteq> None \<and> prefix (leasesPrefix root @ ''/'') k}" by (rule list_step [OF l2(2) env])
  have lease_keys: "\<exists>q i l. q \<noteq> [] \<and> i \<noteq> [] \<and> k = lease_key (queueLeasePrefix root q) (encodeKeyPart i) \<and>
      kv_lease parse root (view s3) q i = Some l" if "k \<in> set ls" for k
    using that wf wf_item_id [OF wf] unfolding l3(3,6) l2(3) wf_mail_def leases_wf_def by blast
  obtain s4 cs where l4: "(kv_listClaims (get_op ?k) parse root (mv_t3 e) ls s3 :: 's \<times> ('err mail_error + Claim list)) = (s4, Inr cs)"
    "inv n s4" "view s4 = ?V"
    "\<And>c. c \<in> set cs \<longleftrightarrow> (\<exists>q i l. lease_key (queueLeasePrefix root q) (encodeKeyPart i) \<in> set ls \<and>
         live_lease (mv_t3 e) (kv_lease parse root ?V q i) = Some l \<and> c = claimFromLease q i l)"
    using listClaims_value [OF env l3(2) lease_keys, of ls "mv_t3 e"] unfolding l3(3) l2(3) by auto
  have in_ls: "lease_key (queueLeasePrefix root q) (encodeKeyPart i) \<in> set ls" if "kv_lease parse root ?V q i = Some l" for q i l
    using that unfolding l3(6) l2(3) by (auto simp: kv_lease_def held_def key_defs bind_eq_Some_conv)
  have claims: "c \<in> set cs \<longleftrightarrow> (\<exists>q i l. live_lease (mv_t3 e) (kv_lease parse root ?V q i) = Some l \<and> c = claimFromLease q i l)" for c
    unfolding l4(4) using in_ls by (metis live_simps(1) not_Some_eq)
  have "b' = s4 \<and> ld = Inr \<lparr>sp_Items = its, sp_Events = m, sp_Claims = cs\<rparr>"
    using assms(3) l0(1) l1(1) l2(1) l3(1) l4(1) by (simp add: PrivateKVBackend_def kv_Load_def)
  then show ?thesis using mem evs claims l4(2,3) wf by (simp add: mail_inv_def)
qed

lemma backend_append:
  assumes "mail_inv inv view parse root (Suc n) b" "mail_env_ok env_ok e" "event_wire_ok ev"
    and "kv_item parse root (view b) (ev_ItemID ev) \<noteq> None"
    and "\<And>x. x \<in> set (kv_events parse root (view b) (ev_ItemID ev)) \<Longrightarrow> ev_Timestamp x < mv_t3 e"
    and "be_AppendEvent (PrivateKVBackend set_op get_op del_op list_op print parse root) e ev b = (b', ap)"
  shows "mail_inv inv view parse root n b' \<and> outside root (view b) (view b') \<and> kv_item parse root (view b') = kv_item parse root (view b) \<and>
    kv_lease parse root (view b') = kv_lease parse root (view b) \<and>
    (case ap of Inl _ \<Rightarrow> kv_events parse root (view b') = kv_events parse root (view b)
     | Inr st \<Rightarrow> (\<exists>eid. st = ev\<lparr>ev_EventID := eid, ev_Timestamp := mv_t3 e\<rparr>) \<and>
         kv_events parse root (view b') = (kv_events parse root (view b))(ev_ItemID ev := kv_events parse root (view b) (ev_ItemID ev) @ [st]))"
proof -
  let ?i = "ev_ItemID ev" and ?t = "mv_t3 e" and ?u = "mv_uuid e"
  let ?k = "entryKey (eventLogPrefix root ?i) (appendLogID ?t ?u ?u)"
  have inv: "inv (Suc n) b" and wf: "wf_mail parse root (view b)" and env: "env_ok (mv_kv e)"
    and t: "0 \<le> ?t" "?t < 2 ^ 63" "list_all (byte_in 0 127) ?u"
    using assms(1,2) by (auto simp: mail_inv_def mail_env_ok_def)
  have mono: "inv n b" using kv_mono [OF inv, of n] by simp
  show ?thesis
  proof (cases "(Event_Validate ev :: 'err mail_error option) = None \<and> print (event_to_json ev) \<noteq> None")
    case False
    then have "b' = b" "\<exists>err. ap = Inl err"
      using assms(6) by (auto simp: PrivateKVBackend_def kv_AppendEvent_def split: option.splits)
    then show ?thesis using mono wf by (auto simp: mail_inv_def)
  next
    case True
    then obtain d where d: "print (event_to_json ev) = Some d" by auto
    obtain s1 z where set: "set_op (mv_kv e) ?k d b = (s1, z)" by fastforce
    note law = set_law [OF inv env keys_ascii(3) [OF root_ascii t(3,1)] set]
    have fin: "finite {k. view b k \<noteq> None \<and> event_key root ?i k}" unfolding event_key_def by (rule finite_keys [OF inv env])
    note upd = event_write [OF wf assms(4) fin t(1,2,3) assms(5) dec_event_print [OF assms(3) d]]
    show ?thesis
      using assms(6) True d set law wf upd
      by (cases z) (auto simp: PrivateKVBackend_def kv_AppendEvent_def log_Append_def mail_inv_def keys_inside)
  qed
qed

text \<open>Writing markers and deleting keys.\<close>

lemma set_marks:
  assumes "env_ok e"
  shows "inv (n + length ks) s \<Longrightarrow> list_all utf8_valid ks \<Longrightarrow> set_all (set_op e) (map (\<lambda>k. (k, v)) ks) s = (s', err) \<Longrightarrow>
    inv n s' \<and> (\<forall>k. k \<notin> set ks \<longrightarrow> view s' k = view s k)"
proof (induction ks arbitrary: s)
  case (Cons k ks)
  obtain s1 z where set: "set_op e k v s = (s1, z)" by fastforce
  have "inv (n + length ks) s1 \<and> view s1 = (if z = None then (view s)(k \<mapsto> v) else view s)"
    using set_law [of "n + length ks", OF _ assms _ set] Cons.prems by simp
  then show ?case using Cons kv_mono [of "n + length ks" s1 n] set by (cases z) auto
qed simp

lemma delete_keys:
  assumes "env_ok e"
  shows "inv (n + length ks) s \<Longrightarrow> list_all utf8_valid ks \<Longrightarrow> delete_all (del_op e) ks s = (s', None) \<Longrightarrow>
    inv n s' \<and> view s' = without (set ks) (view s)"
proof (induction ks arbitrary: s)
  case (Cons k ks)
  obtain s1 z where del: "del_op e k s = (s1, z)" by fastforce
  have "inv (n + length ks) s1 \<and> view s1 = (if z = None then (view s)(k := None) else view s)"
    using del_law [of "n + length ks", OF _ assms _ del] Cons.prems by simp
  then show ?case using Cons del by (cases z) (auto simp: without_def fun_eq_iff)
qed (simp add: without_def)

lemma backend_create:
  assumes "mail_inv inv view parse root (n + 4) b" "mail_env_ok env_ok e" "item_wire_ok it" "it_ID it \<noteq> []"
    and "kv_item parse root (view b) (it_ID it) = None"
    and "be_CreateItem (PrivateKVBackend set_op get_op del_op list_op print parse root) e it b = (b', err)"
  shows "mail_inv inv view parse root n b' \<and> outside root (view b) (view b') \<and> kv_events parse root (view b') = kv_events parse root (view b) \<and>
    kv_lease parse root (view b') = kv_lease parse root (view b) \<and>
    (kv_item parse root (view b') = (kv_item parse root (view b))(it_ID it \<mapsto> it) \<or>
     (err \<noteq> None \<and> kv_item parse root (view b') = kv_item parse root (view b)))"
proof (cases "Option.bind (item_to_json it) print")
  case None
  then show ?thesis
    using assms(1,6) kv_mono [of "n + 4" b n] by (auto simp: PrivateKVBackend_def kv_CreateItem_def mail_inv_def)
next
  case (Some d)
  let ?ks = "item_index_keys root it"
  have inv: "inv (Suc (n + 3)) b" and wf: "wf_mail parse root (view b)" and env: "env_ok (mv_kv e)"
    using assms(1,2) by (simp_all add: mail_inv_def mail_env_ok_def eval_nat_numeral)
  obtain s1 z where set: "set_op (mv_kv e) (itemKey root (it_ID it)) d b = (s1, z)" by fastforce
  note law = set_law [OF inv env keys_ascii(1) [OF root_ascii] set]
  note upd = item_write [OF wf assms(5,4) dec_item_print [OF assms(3) Some]]
  show ?thesis
  proof (cases z)
    case (Some x)
    then have "b' = s1" "err \<noteq> None"
      using assms(6) \<open>Option.bind _ _ = Some d\<close> set by (auto simp: PrivateKVBackend_def kv_CreateItem_def)
    then show ?thesis using law Some wf kv_mono [of "n + 3" s1 n] by (simp add: mail_inv_def)
  next
    case None
    obtain s2 x where marks: "set_all (set_op (mv_kv e)) (map (\<lambda>k. (k, markerValue)) ?ks) s1 = (s2, x)" by fastforce
    have "length ?ks \<le> 3" by (simp add: item_index_keys_def)
    then have "inv (n + length ?ks) s1" using law kv_mono [of "n + 3" s1 "n + length ?ks"] by simp
    then have two: "inv n s2 \<and> (\<forall>k. k \<notin> set ?ks \<longrightarrow> view s2 k = view s1 k)"
      by (rule set_marks [OF env _ _ marks]) (auto simp: list_all_iff keys_ascii(4) [OF root_ascii])
    then have "same_mail root (view s1) (view s2)" using index_key_kinds unfolding same_mail_def by metis
    note same = same_mail_views [OF this] same_mail_wf [OF this]
    have "b' = s2" using assms(6) Some set None marks by (auto simp: PrivateKVBackend_def kv_CreateItem_def)
    moreover have "outside root (view b) (view s2)"
      using two law None keys_inside(1,5) unfolding outside_def by (metis fun_upd_other)
    ultimately show ?thesis using two law None upd same by (simp add: mail_inv_def)
  qed
qed

text \<open>What the lease lemmas need of the well-formed map.\<close>

lemma lease_ready:
  assumes "wf_mail parse root V" "kv_item parse root V i = Some it"
  shows "TrimSpace (encodeKeyPart i) \<noteq> []" "utf8_valid (lease_key (queueLeasePrefix root q) (encodeKeyPart i))"
    "V (lease_key (queueLeasePrefix root q) (encodeKeyPart i)) = Some d \<Longrightarrow> dec_lease parse d \<noteq> None"
    "held (dec_lease parse) V (queueLeasePrefix root q) (encodeKeyPart i) = Some r \<Longrightarrow> le_Name r = encodeKeyPart i \<and> lease_wire_ok r"
proof -
  show "TrimSpace (encodeKeyPart i) \<noteq> []" using wf_item_id [OF assms] encode_trim by simp
  show "utf8_valid (lease_key (queueLeasePrefix root q) (encodeKeyPart i))" by (rule keys_ascii(2) [OF root_ascii])
  show "V (lease_key (queueLeasePrefix root q) (encodeKeyPart i)) = Some d \<Longrightarrow> dec_lease parse d \<noteq> None"
    using wf_lease_home [OF assms(1), of q i] by (auto simp: kv_lease_def held_def)
  assume h: "held (dec_lease parse) V (queueLeasePrefix root q) (encodeKeyPart i) = Some r"
  then have "V (lease_key (queueLeasePrefix root q) (encodeKeyPart i)) \<noteq> None" by (auto simp: held_def bind_eq_Some_conv)
  from wf_lease_home [OF assms(1) this] h show "le_Name r = encodeKeyPart i \<and> lease_wire_ok r"
    by (auto simp: kv_lease_def)
qed

lemma backend_claim:
  assumes "mail_inv inv view parse root (Suc n) b" "mail_env_ok env_ok e" "kv_item parse root (view b) i = Some it"
    and "QueueName it \<noteq> []" "utf8_valid holder"
    and "be_Claim (PrivateKVBackend set_op get_op del_op list_op print parse root) e (QueueName it) i holder ttl b = (b', cr)"
  shows "mail_inv inv view parse root n b' \<and> outside root (view b) (view b') \<and> kv_item parse root (view b') = kv_item parse root (view b) \<and>
    kv_events parse root (view b') = kv_events parse root (view b) \<and>
    (\<exists>x. kv_lease parse root (view b') = (kv_lease parse root (view b))(QueueName it := (kv_lease parse root (view b) (QueueName it))(i := x)) \<and>
      (case cr of
         Inr (c, True) \<Rightarrow> (\<exists>l. x = Some l \<and> c = claimFromLease (QueueName it) i l \<and> le_Holder l = holder \<and> utf8_valid (le_Token l)) \<and>
           live_lease (mv_t3 e) (kv_lease parse root (view b) (QueueName it) i) = None
       | _ \<Rightarrow> live_lease (mv_t3 e) x = live_lease (mv_t3 e) (kv_lease parse root (view b) (QueueName it) i)))"
proof -
  let ?q = "QueueName it"
  let ?p = "queueLeasePrefix root ?q"
  have inv: "inv (Suc n) b" and wf: "wf_mail parse root (view b)" and env: "env_ok (mv_kv e)"
    and t: "mv_t1 e \<le> mv_t2 e" "mv_t2 e \<le> mv_t3 e" "utf8_valid (mv_token e)"
    using assms(1,2) by (simp_all add: mail_inv_def mail_env_ok_def)
  note ready = lease_ready [OF wf assms(3)]
  define r where "r = \<lparr>le_Name = encodeKeyPart i, le_Holder = holder, le_Token = mv_token e, le_AcquiredAt = mv_t2 e,
    le_ExpiresAt = mv_t2 e + ttl\<rparr>"
  have wire: "lease_wire_ok r" using assms(5) t(3) encode_ascii [of i] by (simp add: r_def lease_wire_ok_def)
  obtain s1 res where call: "(lease_Claim (enc_lease print) (dec_lease parse) (set_op (mv_kv e)) (get_op (mv_kv e)) ?p
      (mv_t1 e, mv_t2 e, mv_t3 e) (mv_token e) (encodeKeyPart i) holder ttl b :: 's \<times> ('err lease_error + _)) = (s1, res)" by fastforce
  then have out: "claim_result ?q i (s1, res) = (b', cr)" using assms(6) by (simp add: PrivateKVBackend_def)
  have law: "inv n s1 \<and> (view s1 = view b \<and> (\<nexists>x. res = Inr (x, True)) \<or>
      (\<exists>d. enc_lease print r = Some d \<and> view s1 = (view b)(lease_key ?p (encodeKeyPart i) \<mapsto> d) \<and>
        live_lease (mv_t3 e) (held (dec_lease parse) (view b) ?p (encodeKeyPart i)) = None \<and>
        res = Inr (if Expired r (mv_t3 e) then (None, False) else (Some r, True))))"
    by (rule lease_Claim_value [OF inv env ready(1,2) _ t(1,2) r_def _ call]) (fact ready(3) dec_lease_print [OF wire])+
  then have inv1: "inv n s1" by blast
  show ?thesis
  proof (cases "view s1 = view b \<and> (\<nexists>x. res = Inr (x, True))")
    case True
    have "b' = s1" "\<nexists>c. cr = Inr (c, True)"
      using out True by (auto simp: claim_result_def split: sum.splits prod.splits)
    then show ?thesis using True inv1 wf
      by (intro conjI exI [of _ "kv_lease parse root (view b) ?q i"])
         (auto simp: mail_inv_def split: sum.splits prod.splits bool.splits)
  next
    case False
    then obtain d where d: "enc_lease print r = Some d" "view s1 = (view b)(lease_key ?p (encodeKeyPart i) \<mapsto> d)"
      "live_lease (mv_t3 e) (kv_lease parse root (view b) ?q i) = None"
      "res = Inr (if Expired r (mv_t3 e) then (None, False) else (Some r, True))" using law by (auto simp: kv_lease_def)
    have dec: "dec_lease parse d = Some r" by (rule dec_lease_print [OF wire d(1)])
    note upd = lease_write [OF wf assms(3,4), of "Some d"]
    have b': "b' = s1" using out by (auto simp: claim_result_def split: sum.splits prod.splits)
    show ?thesis using out inv1 d dec upd wire t(3) unfolding b'
      by (intro conjI exI [of _ "Some r"])
         (auto simp: mail_inv_def r_def claim_result_def live_lease_def keys_inside split: if_splits)
  qed
qed

lemma backend_renew:
  assumes "mail_inv inv view parse root (Suc n) b" "mail_env_ok env_ok e" "kv_item parse root (view b) i = Some it"
    and "QueueName it \<noteq> []" "mv_t3 e < mv_t2 e + ttl"
    and "be_Renew (PrivateKVBackend set_op get_op del_op list_op print parse root) e (QueueName it) i holder token ttl b = (b', cr)"
  shows "mail_inv inv view parse root n b' \<and> outside root (view b) (view b') \<and> kv_item parse root (view b') = kv_item parse root (view b) \<and>
    kv_events parse root (view b') = kv_events parse root (view b) \<and>
    (\<exists>x. kv_lease parse root (view b') = (kv_lease parse root (view b))(QueueName it := (kv_lease parse root (view b) (QueueName it))(i := x)) \<and>
      (case cr of
         Inr (c, True) \<Rightarrow> \<exists>l. x = Some l \<and> c = claimFromLease (QueueName it) i l \<and> le_Holder l = holder \<and> le_Token l = token
       | _ \<Rightarrow> x = kv_lease parse root (view b) (QueueName it) i))"
proof -
  let ?q = "QueueName it"
  let ?p = "queueLeasePrefix root ?q" and ?x = "mv_t2 e + ttl"
  let ?h = "held (dec_lease parse) (view b) ?p (encodeKeyPart i)"
  have inv: "inv (Suc n) b" and wf: "wf_mail parse root (view b)" and env: "env_ok (mv_kv e)"
    using assms(1,2) by (simp_all add: mail_inv_def mail_env_ok_def)
  note ready = lease_ready [OF wf assms(3)]
  have name: "le_Name r = encodeKeyPart i" if "?h = Some r" for r using ready(4) that by blast
  have enc: "dec_lease parse d = Some (r\<lparr>le_ExpiresAt := x\<rparr>)" if "?h = Some r" "enc_lease print (r\<lparr>le_ExpiresAt := x\<rparr>) = Some d" for r d x
    using ready(4) [OF that(1)] by (intro dec_lease_print that(2)) (auto simp: lease_wire_ok_def)
  obtain s1 res where call: "(lease_Renew (enc_lease print) (dec_lease parse) (set_op (mv_kv e)) (get_op (mv_kv e)) ?p
      (mv_t1 e, mv_t2 e, mv_t3 e) token (encodeKeyPart i) holder ttl b :: 's \<times> ('err lease_error + _)) = (s1, res)" by fastforce
  then have out: "claim_result ?q i (s1, res) = (b', cr)" using assms(6) by (simp add: PrivateKVBackend_def)
  have law: "inv n s1 \<and> (view s1 = view b \<and> (\<nexists>x. res = Inr (x, True)) \<or>
      (\<exists>d r. ?h = Some r \<and> le_Holder r = holder \<and> le_Token r = token \<and> enc_lease print (r\<lparr>le_ExpiresAt := ?x\<rparr>) = Some d \<and>
        view s1 = (view b)(lease_key ?p (encodeKeyPart i) \<mapsto> d) \<and>
        res = Inr (if Expired (r\<lparr>le_ExpiresAt := ?x\<rparr>) (mv_t3 e) then (None, False) else (Some (r\<lparr>le_ExpiresAt := ?x\<rparr>), True))))"
    by (rule lease_Renew_value [OF inv env ready(1,2) _ _ _ call]) (fact ready(3) name enc)+
  then have inv1: "inv n s1" by blast
  have b': "b' = s1" using out by (auto simp: claim_result_def split: sum.splits prod.splits)
  show ?thesis
  proof (cases "view s1 = view b \<and> (\<nexists>x. res = Inr (x, True))")
    case True
    then have "\<nexists>c. cr = Inr (c, True)" using out by (auto simp: claim_result_def split: sum.splits prod.splits)
    then show ?thesis using True inv1 wf b'
      by (intro conjI exI [of _ "kv_lease parse root (view b) ?q i"])
         (auto simp: mail_inv_def split: sum.splits prod.splits bool.splits)
  next
    case False
    then obtain d r where d: "?h = Some r" "le_Holder r = holder" "le_Token r = token" "enc_lease print (r\<lparr>le_ExpiresAt := ?x\<rparr>) = Some d"
      "view s1 = (view b)(lease_key ?p (encodeKeyPart i) \<mapsto> d)" "res = Inr (Some (r\<lparr>le_ExpiresAt := ?x\<rparr>), True)"
      using law assms(5) by (auto simp: Expired_def)
    note upd = lease_write [OF wf assms(3,4), of "Some d"]
    have "le_Name r = encodeKeyPart i \<and> lease_wire_ok r" using ready(4) d(1) by blast
    then show ?thesis using out inv1 d enc [OF d(1,4)] upd unfolding b'
      by (intro conjI exI [of _ "Some (r\<lparr>le_ExpiresAt := ?x\<rparr>)"]) (auto simp: mail_inv_def claim_result_def lease_wire_ok_def keys_inside)
  qed
qed

lemma backend_release:
  assumes "mail_inv inv view parse root (Suc n) b" "mail_env_ok env_ok e" "kv_item parse root (view b) i = Some it"
    and "QueueName it \<noteq> []"
    and "be_Release (PrivateKVBackend set_op get_op del_op list_op print parse root) e (QueueName it) i holder token b = (b', rr)"
  shows "mail_inv inv view parse root n b' \<and> outside root (view b) (view b') \<and> kv_item parse root (view b') = kv_item parse root (view b) \<and>
    kv_events parse root (view b') = kv_events parse root (view b) \<and>
    kv_lease parse root (view b') = (if rr = Inr True
      then (kv_lease parse root (view b))(QueueName it := (kv_lease parse root (view b) (QueueName it))(i := None))
      else kv_lease parse root (view b))"
proof -
  let ?p = "queueLeasePrefix root (QueueName it)"
  have inv: "inv (Suc n) b" and wf: "wf_mail parse root (view b)" and env: "env_ok (mv_kv e)"
    using assms(1,2) by (simp_all add: mail_inv_def mail_env_ok_def)
  note ready = lease_ready [OF wf assms(3)]
  obtain s1 res where call: "(lease_Release (dec_lease parse) (del_op (mv_kv e)) (get_op (mv_kv e)) ?p token (encodeKeyPart i) holder b
      :: 's \<times> ('err lease_error + bool)) = (s1, res)" by fastforce
  then have out: "b' = s1" "rr = Inr True \<longleftrightarrow> res = Inr True" using assms(5) by (auto simp: PrivateKVBackend_def split: sum.splits)
  have law: "inv n s1 \<and> view s1 = (if res = Inr True then (view b)(lease_key ?p (encodeKeyPart i) := None) else view b)"
    by (rule lease_Release_value [OF inv env ready(1,2) _ call]) (fact ready(3))
  show ?thesis
    using law out lease_write [OF wf assms(3,4), of None] wf by (auto simp: mail_inv_def keys_inside)
qed

text \<open>A deletion that reports no error removed the item, its events, its index entries and its lease.\<close>

lemma gather_length:
  assumes "gather V p keys = Inr es" "\<And>k. k \<in> set keys \<Longrightarrow> V k \<noteq> None \<and> (\<exists>i. i \<noteq> [] \<and> k = entryKey p i)"
  shows "length es = length keys"
  using assms
proof (induction keys arbitrary: es)
  case (Cons key keys)
  obtain i v where "i \<noteq> []" "key = entryKey p i" "V key = Some v" using Cons.prems(2) [of key] by auto
  then show ?case using Cons by (auto simp: entryKey_def CutPrefix_Some split: option.splits sum.splits)
qed simp

lemma event_keys_listed:
  assumes "wf_mail parse root V" "sorted ks" "distinct ks" "set ks = {k. V k \<noteq> None \<and> event_key root i k}"
  shows "length ks = length (kv_events parse root V i)" "list_all utf8_valid ks"
proof -
  have ok: "log_key_ok root i k" if "k \<in> set ks" for k
    using assms(1,4) that unfolding wf_mail_def log_wf_def by blast
  then show "list_all utf8_valid ks" using keys_ascii(5) [OF root_ascii] by (auto simp: list_all_iff)
  obtain es where es: "gather V (eventLogPrefix root i) (log_keys V (eventLogPrefix root i)) = Inr es"
    "map (event_of_entry parse i) es = map Some (kv_events parse root V i)" using timeline_entries [OF wf_timeline(1) [OF assms(1)]] .
  have keys: "log_keys V (eventLogPrefix root i) = ks"
    using assms(2-4) sorted_list_of_set.idem_if_sorted_distinct [of ks] by (simp add: log_keys_def event_key_def)
  have "\<exists>j. j \<noteq> [] \<and> k = entryKey (eventLogPrefix root i) j" if "k \<in> set ks" for k
    using ok [OF that] by (auto simp: log_key_ok_def appendLogID_def)
  then have "length es = length ks" using gather_length [OF es(1)] assms(4) unfolding keys by blast
  then show "length ks = length (kv_events parse root V i)" using arg_cong [OF es(2), of length] by simp
qed

lemma delete_rest:
  assumes "wf_mail parse root V" "kv_item parse root V i = Some it" "set ks = {k. V k \<noteq> None \<and> event_key root i k}"
    and "rest = outboxIndexKey root (pn_ID (it_From it)) i # (if RecipientID it \<noteq> [] then [inboxIndexKey root (RecipientID it) i] else []) @
      (if QueueName it \<noteq> [] then [queueIndexKey root (QueueName it) i, lease_key (queueLeasePrefix root (QueueName it)) (encodeKeyPart i)] else [])"
  shows "list_all utf8_valid rest" "clears root V i it (insert (itemKey root i) (set (ks @ rest)))" "length rest \<le> 4"
    "list_all (prefix (root @ ''/'')) rest"
proof -
  have id: "it_ID it = i" using wf_item_id [OF assms(1,2)] by simp
  have idx: "k \<in> set (item_index_keys root it) \<or>
      (QueueName it \<noteq> [] \<and> k = lease_key (queueLeasePrefix root (QueueName it)) (encodeKeyPart i))" if "k \<in> set rest" for k
    using that unfolding assms(4) item_index_keys_def id by (auto split: if_splits)
  then show "list_all utf8_valid rest" using keys_ascii(2,4) [OF root_ascii] by (fastforce simp: list_all_iff)
  have "k = lease_key (queueLeasePrefix root (QueueName it)) (encodeKeyPart i)" if "k \<in> set rest" "mail_key root k" for k
    using idx [OF that(1)] index_key_kinds [of k root it] that(2) by blast
  moreover have "lease_key (queueLeasePrefix root (QueueName it)) (encodeKeyPart i) \<in> set rest" if "QueueName it \<noteq> []"
    using that by (simp add: assms(4))
  ultimately show "clears root V i it (insert (itemKey root i) (set (ks @ rest)))"
    using assms(3) unfolding clears_def by auto
  show "length rest \<le> 4" by (simp add: assms(4))
  show "list_all (prefix (root @ ''/'')) rest" using idx keys_inside(2,5) by (fastforce simp: list_all_iff)
qed

lemma backend_delete:
  assumes "mail_inv inv view parse root (n + 5 + length (kv_events parse root (view b) i)) b" "mail_env_ok env_ok e"
    and "be_DeleteItem (PrivateKVBackend set_op get_op del_op list_op print parse root) e i b = (b', None)"
  shows "mail_inv inv view parse root n b' \<and> outside root (view b) (view b') \<and> kv_item parse root (view b') = (kv_item parse root (view b))(i := None) \<and>
    kv_events parse root (view b') = (kv_events parse root (view b))(i := []) \<and>
    kv_lease parse root (view b') = (\<lambda>q. (kv_lease parse root (view b) q)(i := None))"
proof -
  let ?V = "view b" and ?m = "n + 4 + length (kv_events parse root (view b) i)" and ?k = "mv_kv e"
  have inv: "inv (Suc ?m) b" and wf: "wf_mail parse root ?V" and env: "env_ok ?k"
    using assms(1,2) by (simp_all add: mail_inv_def mail_env_ok_def ac_simps)
  obtain s1 where g: "get_op ?k (itemKey root i) b = (s1, ?V (itemKey root i))" "inv (Suc ?m) s1" "view s1 = ?V"
    using get_fact [OF inv env] by blast
  show ?thesis
  proof (cases "?V (itemKey root i)")
    case None
    have b': "b' = s1" using assms(3) g(1) None by (simp add: PrivateKVBackend_def kv_DeleteItem_def)
    have item: "kv_item parse root ?V i = None" using None by (simp add: kv_item_def)
    have "kv_lease parse root ?V q i = None" for q
      using wf_lease_home [OF wf, of q i] item
      by (cases "?V (lease_key (queueLeasePrefix root q) (encodeKeyPart i))") (auto simp: kv_lease_def held_def)
    then show ?thesis
      using b' g item wf wf_log_empty(2) [OF wf item] kv_mono [OF g(2), of n] by (simp add: mail_inv_def fun_upd_idem)
  next
    case (Some d)
    then obtain it where it: "dec_item parse d = Some it" "kv_item parse root ?V i = Some it"
      using wf unfolding wf_mail_def items_wf_def by (fastforce simp: kv_item_def itemKey_def)
    obtain s2 where del: "del_op ?k (itemKey root i) s1 = (s2, None)"
      using assms(3) g(1) Some it(1) by (cases "snd (del_op ?k (itemKey root i) s1)")
        (auto simp: PrivateKVBackend_def kv_DeleteItem_def split: prod.splits)
    then have two: "inv ?m s2" "view s2 = ?V(itemKey root i := None)"
      using del_law [OF g(2) env keys_ascii(1) [OF root_ascii] del] g(3) by simp_all
    obtain s3 ks where l: "list_op ?k (eventLogPrefix root i @ ''/'') s2 = (s3, ks)" "inv ?m s3" "view s3 = view s2" "sorted ks" "distinct ks"
      "set ks = {k. view s2 k \<noteq> None \<and> prefix (eventLogPrefix root i @ ''/'') k}" by (rule list_step [OF two(1) env])
    have ks: "set ks = {k. ?V k \<noteq> None \<and> event_key root i k}"
      using l(6) two(2) key_kinds(1) [of root i i] by (auto simp: event_key_def listPrefix_def)
    note listed = event_keys_listed [OF wf l(4,5) ks]
    define rest where "rest = outboxIndexKey root (pn_ID (it_From it)) i # (if RecipientID it \<noteq> [] then [inboxIndexKey root (RecipientID it) i] else []) @
      (if QueueName it \<noteq> [] then [queueIndexKey root (QueueName it) i, lease_key (queueLeasePrefix root (QueueName it)) (encodeKeyPart i)] else [])"
    note rest = delete_rest [OF wf it(2) ks rest_def]
    have "delete_all (del_op ?k) (ks @ rest) s3 = (b', None)"
      using assms(3) g(1) Some it(1) del l(1)
      by (auto simp: PrivateKVBackend_def kv_DeleteItem_def rest_def lease_key_def split: prod.splits)
    moreover have "inv (n + length (ks @ rest)) s3" using kv_mono [OF l(2), of "n + length (ks @ rest)"] listed(1) rest(3) by simp
    ultimately have fin: "inv n b'" "view b' = without (set (ks @ rest)) (view s3)"
      using delete_keys [OF env, of n "ks @ rest" s3 b'] listed(2) rest(1) by auto
    have v: "view b' = without (insert (itemKey root i) (set (ks @ rest))) ?V"
      using fin(2) l(3) two(2) by (auto simp: without_def fun_eq_iff)
    have "outside root ?V (view b')" using rest(4) ks keys_inside(1,3) by (auto simp: v outside_def without_def list_all_iff)
    with item_removal_views [OF wf it(2) rest(2)] item_removal_wf [OF wf it(2) rest(2)] fin(1)
    show ?thesis by (auto simp: mail_inv_def v kv_events_def)
  qed
qed

end

text \<open>The private backend keeps the contract.\<close>

sublocale mailbox_kv \<subseteq> mailbox_framed "PrivateKVBackend set_op get_op del_op list_op print parse root"
  "mail_inv inv view parse root" "mail_env_ok env_ok" mv_t2 mv_t3 item_wire_ok event_wire_ok
  "\<lambda>s. kv_item parse root (view s)" "\<lambda>s. kv_events parse root (view s)" "\<lambda>s. kv_lease parse root (view s)"
  "\<lambda>s s'. outside root (view s) (view s')"
proof (unfold_locales, goal_cases)
  case (1 n b m)
  then show ?case using kv_mono by (auto simp: mail_inv_def)
next
  case (2 n b i it)
  then show ?case using wf_item_id by (auto simp: mail_inv_def)
next
  case (3 n b i)
  then show ?case using wf_log_empty(2) by (simp add: mail_inv_def)
next
  case (4 n b i)
  then show ?case using wf_timeline(2) by (simp add: mail_inv_def)
next
  case (5 n b q i l)
  then have "wf_mail parse root (view b)" "view b (lease_key (queueLeasePrefix root q) (encodeKeyPart i)) \<noteq> None"
    by (auto simp: mail_inv_def kv_lease_def held_def bind_eq_Some_conv)
  from wf_lease_home [OF this] show ?case by auto
next
  case (6 n b e b' ld)
  from backend_load [OF this] show ?case
    by (elim conjE exE) (simp, blast dest: live_leaseD)
next
  case (7 n b e it b' err)
  from backend_create [OF this] show ?case by simp
next
  case (8 n b e ev b' ap)
  from backend_append [OF this] show ?case by simp
next
  case (9 n b e i it holder ttl b' cr)
  from backend_claim [OF this] show ?case by simp
next
  case (10 n b e i it ttl holder token b' cr)
  from backend_renew [OF this] show ?case by simp
next
  case (11 n b e i it holder token b' rr)
  from backend_release [OF this] show ?case by simp
next
  case (12 n b i e b')
  from backend_delete [OF this] show ?case by simp
next
  case (13 n b e)
  from backend_load [OF this prod.collapse [symmetric]] show ?case by auto
next
  case (14 n b e it)
  from backend_create [OF this prod.collapse [symmetric]] show ?case by auto
next
  case (15 n b e ev)
  from backend_append [OF this prod.collapse [symmetric]] show ?case by auto
next
  case (16 n b e i it holder ttl)
  from backend_claim [OF this prod.collapse [symmetric]] show ?case by auto
next
  case (17 n b e i it ttl holder token)
  from backend_renew [OF this prod.collapse [symmetric]] show ?case by auto
next
  case (18 n b e i it holder token)
  from backend_release [OF this prod.collapse [symmetric]] show ?case by auto
next
  case (19 n b i e b')
  from backend_delete [OF this] show ?case by simp
next
  case (20 n b e i b' r)
  obtain s1 where g: "get_op (mv_kv e) (itemKey root i) b = (s1, view b (itemKey root i))" "inv n s1" "view s1 = view b"
    using get_fact [of n b "mv_kv e"] 20(1,2) by (auto simp: mail_inv_def mail_env_ok_def)
  have "view b (itemKey root i) \<noteq> None \<longleftrightarrow> kv_item parse root (view b) i \<noteq> None"
    using 20(1) item_key_present by (simp add: mail_inv_def)
  then show ?case using 20 g by (auto simp: PrivateKVBackend_def mail_inv_def)
qed

end
