(* ===== verification/Mailbox_Scoped.thy ===== *)
theory Mailbox_Scoped
  imports Mailbox_KV_Laws
begin

text \<open>
  The scoped backend (\<open>pkg/agent/mailbox/scoped_kv.go\<close>): two backends below different roots of one
  key-value store, items going to one of them by their scope. The locale \<open>mailbox_pair\<close> shows that two
  backends that keep to their own part of the state behave together as one; the interpretation is the
  backend the daemon opens, on the store model.
\<close>

section \<open>Routing\<close>

definition mergeSnapshots :: "MailSnapshot list \<Rightarrow> MailSnapshot" where
  "mergeSnapshots sps = fold (\<lambda>sp out. \<lparr>sp_Items = sp_Items out @ sp_Items sp,
       sp_Events = fold (\<lambda>(i, es) m. fmupd i ((case fmlookup m i of None \<Rightarrow> [] | Some old \<Rightarrow> old) @ es) m)
         (fm_items (sp_Events sp)) (sp_Events out),
       sp_Claims = sp_Claims out @ sp_Claims sp\<rparr>) sps
     \<lparr>sp_Items = [], sp_Events = fmempty, sp_Claims = []\<rparr>"

definition backendForScope :: "'be \<Rightarrow> 'be \<Rightarrow> string \<Rightarrow> 'be" where
  "backendForScope priv network scope = (if scope = ScopeSky10Network then network else priv)"

definition backendForItem ::
  "('e, 'b, 'err) Backend \<Rightarrow> ('e, 'b, 'err) Backend \<Rightarrow> 'e calls \<Rightarrow> string \<Rightarrow> 'b \<Rightarrow> 'b \<times> ('err mail_error + ('e, 'b, 'err) Backend)" where
  "backendForItem priv network es itemID b = (case be_ContainsItem network (es 0) itemID b of
      (b1, True) \<Rightarrow> (b1, Inr network)
    | (b1, False) \<Rightarrow> (case be_ContainsItem priv (es 1) itemID b1 of
        (b2, True) \<Rightarrow> (b2, Inr priv)
      | (b2, False) \<Rightarrow> (b2, Inl (ItemNotFound itemID))))"

text \<open>An operation on the backend that has the item.\<close>

definition on_owner ::
  "('e, 'b, 'err) Backend \<Rightarrow> ('e, 'b, 'err) Backend \<Rightarrow> 'e calls \<Rightarrow> string
    \<Rightarrow> (('e, 'b, 'err) Backend \<Rightarrow> 'e \<Rightarrow> 'b \<Rightarrow> 'b \<times> ('err mail_error + 'r)) \<Rightarrow> 'b \<Rightarrow> 'b \<times> ('err mail_error + 'r)" where
  "on_owner priv network es itemID call b = (case backendForItem priv network es itemID b of
      (b1, Inl err) \<Rightarrow> (b1, Inl err) | (b1, Inr backend) \<Rightarrow> call backend (es 2) b1)"

definition scoped_Load ::
  "('e, 'b, 'err) Backend \<Rightarrow> ('e, 'b, 'err) Backend \<Rightarrow> 'e calls \<Rightarrow> 'b \<Rightarrow> 'b \<times> ('err mail_error + MailSnapshot)" where
  "scoped_Load priv network es b = (case be_Load priv (es 0) b of
      (b1, Inl err) \<Rightarrow> (b1, Inl err)
    | (b1, Inr sp) \<Rightarrow> (case be_Load network (es 1) b1 of
        (b2, Inl err) \<Rightarrow> (b2, Inl err)
      | (b2, Inr sn) \<Rightarrow> (b2, Inr (mergeSnapshots [sp, sn]))))"

definition ScopedKVBackend ::
  "('e, 'b, 'err) Backend \<Rightarrow> ('e, 'b, 'err) Backend \<Rightarrow> ('e calls, 'b, 'err) Backend" where
  "ScopedKVBackend priv network = \<lparr>
     be_Load = scoped_Load priv network,
     be_CreateItem = (\<lambda>es item. be_CreateItem (backendForScope priv network (item_Scope item)) (es 2) item),
     be_AppendEvent = (\<lambda>es event. on_owner priv network es (ev_ItemID event) (\<lambda>be e. be_AppendEvent be e event)),
     be_Claim = (\<lambda>es queue itemID holder ttl. on_owner priv network es itemID (\<lambda>be e. be_Claim be e queue itemID holder ttl)),
     be_Renew = (\<lambda>es queue itemID holder token ttl.
        on_owner priv network es itemID (\<lambda>be e. be_Renew be e queue itemID holder token ttl)),
     be_Release = (\<lambda>es queue itemID holder token.
        on_owner priv network es itemID (\<lambda>be e. be_Release be e queue itemID holder token)),
     be_DeleteItem = (\<lambda>es itemID b. case backendForItem priv network es itemID b of
        (b1, Inl err) \<Rightarrow> (b1, Some err) | (b1, Inr backend) \<Rightarrow> be_DeleteItem backend (es 2) itemID b1),
     be_ContainsItem = (\<lambda>es itemID b. case be_ContainsItem priv (es 0) itemID b of
        (b1, True) \<Rightarrow> (b1, True) | (b1, False) \<Rightarrow> be_ContainsItem network (es 1) itemID b1)\<rparr>"

lemma merged_events:
  assumes "distinct (map fst kvs)" "\<And>i. i \<in> fst ` set kvs \<Longrightarrow> fmlookup m i = None"
  shows "fmlookup (fold (\<lambda>(i, es) m. fmupd i ((case fmlookup m i of None \<Rightarrow> [] | Some old \<Rightarrow> old) @ es) m) kvs m) j =
    (case map_of kvs j of None \<Rightarrow> fmlookup m j | Some es \<Rightarrow> Some es)"
  using assms
proof (induction kvs arbitrary: m)
  case (Cons kv kvs)
  obtain i es where kv: "kv = (i, es)" by (cases kv)
  have "map_of kvs i = None" using Cons.prems(1) by (simp add: kv map_of_eq_None_iff)
  moreover have "fmlookup (fmupd i es m) x = None" if "x \<in> fst ` set kvs" for x
    using Cons.prems that by (auto simp: kv)
  moreover have "fmlookup m i = None" using Cons.prems(2) by (simp add: kv)
  ultimately show ?case using Cons.IH [of "fmupd i es m"] Cons.prems(1) by (auto simp: kv split: option.split)
qed simp

lemma mergeSnapshots_two:
  assumes "\<And>i. fmlookup (sp_Events sp) i = None \<or> fmlookup (sp_Events sn) i = None"
  shows "sp_Items (mergeSnapshots [sp, sn]) = sp_Items sp @ sp_Items sn"
    "sp_Claims (mergeSnapshots [sp, sn]) = sp_Claims sp @ sp_Claims sn"
    "fmlookup (sp_Events (mergeSnapshots [sp, sn])) i =
       (case fmlookup (sp_Events sn) i of None \<Rightarrow> fmlookup (sp_Events sp) i | Some es \<Rightarrow> Some es)"
proof -
  have map: "map_of (fm_items m) j = fmlookup m j" for m :: "(string, Event list) gomap" and j by (simp add: fm_items_def)
  have keys: "i \<in> fst ` set (fm_items m) \<longleftrightarrow> fmlookup m i \<noteq> None" for m :: "(string, Event list) gomap" and i
    using map [of m i] by (metis map_of_eq_None_iff)
  let ?f = "\<lambda>(i, es) m. fmupd i ((case fmlookup m i of None \<Rightarrow> [] | Some old \<Rightarrow> old) @ es) m"
  have one: "fmlookup (fold ?f (fm_items (sp_Events sp)) fmempty) j = fmlookup (sp_Events sp) j" for j
    using merged_events [OF fm_items_distinct, of "sp_Events sp" fmempty j] by (simp add: map split: option.split)
  show "sp_Items (mergeSnapshots [sp, sn]) = sp_Items sp @ sp_Items sn"
    "sp_Claims (mergeSnapshots [sp, sn]) = sp_Claims sp @ sp_Claims sn" by (simp_all add: mergeSnapshots_def)
  show "fmlookup (sp_Events (mergeSnapshots [sp, sn])) i =
       (case fmlookup (sp_Events sn) i of None \<Rightarrow> fmlookup (sp_Events sp) i | Some es \<Rightarrow> Some es)"
  proof -
    have "fmlookup (fold ?f (fm_items (sp_Events sp)) fmempty) x = None" if "x \<in> fst ` set (fm_items (sp_Events sn))" for x
      using that assms [of x] unfolding keys one by auto
    from merged_events [OF fm_items_distinct this, of "sp_Events sn" i] show ?thesis
      using one [of i] by (cases "fmlookup (sp_Events sn) i") (simp_all add: mergeSnapshots_def map)
  qed
qed

section \<open>Both backends as one\<close>

definition scoped_items :: "('b \<Rightarrow> string \<Rightarrow> Item option) \<Rightarrow> ('b \<Rightarrow> string \<Rightarrow> Item option) \<Rightarrow> 'b \<Rightarrow> string \<Rightarrow> Item option" where
  "scoped_items ip inn b i = (if inn b i = None then ip b i else inn b i)"

definition scoped_events ::
  "('b \<Rightarrow> string \<Rightarrow> Item option) \<Rightarrow> ('b \<Rightarrow> string \<Rightarrow> Event list) \<Rightarrow> ('b \<Rightarrow> string \<Rightarrow> Event list) \<Rightarrow> 'b \<Rightarrow> string \<Rightarrow> Event list" where
  "scoped_events inn ep en b i = (if inn b i = None then ep b i else en b i)"

definition scoped_lease ::
  "('b \<Rightarrow> string \<Rightarrow> Item option) \<Rightarrow> ('b \<Rightarrow> string \<Rightarrow> string \<Rightarrow> LeaseRecord option)
    \<Rightarrow> ('b \<Rightarrow> string \<Rightarrow> string \<Rightarrow> LeaseRecord option) \<Rightarrow> 'b \<Rightarrow> string \<Rightarrow> string \<Rightarrow> LeaseRecord option" where
  "scoped_lease inn lp ln b q i = (if inn b i = None then lp b q i else ln b q i)"

text \<open>No item is in both backends.\<close>

definition scoped_inv ::
  "(nat \<Rightarrow> 'b \<Rightarrow> bool) \<Rightarrow> (nat \<Rightarrow> 'b \<Rightarrow> bool) \<Rightarrow> ('b \<Rightarrow> string \<Rightarrow> Item option) \<Rightarrow> ('b \<Rightarrow> string \<Rightarrow> Item option) \<Rightarrow> nat \<Rightarrow> 'b \<Rightarrow> bool" where
  "scoped_inv vp vn ip inn n b \<longleftrightarrow> vp n b \<and> vn n b \<and> (\<forall>i. ip b i = None \<or> inn b i = None)"

definition scoped_env_ok :: "('e \<Rightarrow> bool) \<Rightarrow> ('e \<Rightarrow> int) \<Rightarrow> 'e calls \<Rightarrow> bool" where
  "scoped_env_ok ok clk es \<longleftrightarrow> (\<forall>k. ok (es k) \<and> clk (es k) \<le> clk (es (Suc k)))"

lemma scoped_cong:
  "ip b' = ip b \<Longrightarrow> inn b' = inn b \<Longrightarrow> scoped_items ip inn b' = scoped_items ip inn b"
  "inn b' = inn b \<Longrightarrow> ep b' = ep b \<Longrightarrow> en b' = en b \<Longrightarrow> scoped_events inn ep en b' = scoped_events inn ep en b"
  "inn b' = inn b \<Longrightarrow> lp b' = lp b \<Longrightarrow> ln b' = ln b \<Longrightarrow> scoped_lease inn lp ln b' = scoped_lease inn lp ln b"
  by (simp_all add: fun_eq_iff scoped_items_def scoped_events_def scoped_lease_def)

text \<open>A change of one item's events or lease in the backend that has the item.\<close>

lemma scoped_change:
  assumes "inn b' = inn b"
  shows "inn b i = None \<Longrightarrow> ep b' = (ep b)(i := x) \<Longrightarrow> en b' = en b \<Longrightarrow> scoped_events inn ep en b' = (scoped_events inn ep en b)(i := x)"
    "inn b i \<noteq> None \<Longrightarrow> ep b' = ep b \<Longrightarrow> en b' = (en b)(i := x) \<Longrightarrow> scoped_events inn ep en b' = (scoped_events inn ep en b)(i := x)"
    "inn b i = None \<Longrightarrow> lp b' = (lp b)(q := (lp b q)(i := y)) \<Longrightarrow> ln b' = ln b \<Longrightarrow>
       scoped_lease inn lp ln b' = (scoped_lease inn lp ln b)(q := (scoped_lease inn lp ln b q)(i := y))"
    "inn b i \<noteq> None \<Longrightarrow> lp b' = lp b \<Longrightarrow> ln b' = (ln b)(q := (ln b q)(i := y)) \<Longrightarrow>
       scoped_lease inn lp ln b' = (scoped_lease inn lp ln b)(q := (scoped_lease inn lp ln b q)(i := y))"
  using assms by (auto simp: fun_eq_iff scoped_events_def scoped_lease_def)

lemmas scoped_defs = scoped_items_def scoped_events_def scoped_lease_def scoped_inv_def

locale mailbox_pair =
  P: mailbox_framed priv inv_p env_ok start at item_ok event_ok items_p events_p lease_p chg_p +
  N: mailbox_framed network inv_n env_ok start at item_ok event_ok items_n events_n lease_n chg_n
  for priv :: "('e, 'b, 'err) Backend" and network :: "('e, 'b, 'err) Backend"
    and inv_p :: "nat \<Rightarrow> 'b \<Rightarrow> bool" and inv_n :: "nat \<Rightarrow> 'b \<Rightarrow> bool" and env_ok :: "'e \<Rightarrow> bool"
    and start :: "'e \<Rightarrow> int" and at :: "'e \<Rightarrow> int" and item_ok :: "Item \<Rightarrow> bool" and event_ok :: "Event \<Rightarrow> bool"
    and items_p items_n :: "'b \<Rightarrow> string \<Rightarrow> Item option" and events_p events_n :: "'b \<Rightarrow> string \<Rightarrow> Event list"
    and lease_p lease_n :: "'b \<Rightarrow> string \<Rightarrow> string \<Rightarrow> LeaseRecord option" and chg_p chg_n :: "'b \<Rightarrow> 'b \<Rightarrow> bool" +
  assumes frame_p: "inv_n n b \<Longrightarrow> chg_p b b' \<Longrightarrow> inv_p m b' \<Longrightarrow> m \<le> n \<Longrightarrow>
      inv_n m b' \<and> items_n b' = items_n b \<and> events_n b' = events_n b \<and> lease_n b' = lease_n b"
    and frame_n: "inv_p n b \<Longrightarrow> chg_n b b' \<Longrightarrow> inv_n m b' \<Longrightarrow> m \<le> n \<Longrightarrow>
      inv_p m b' \<and> items_p b' = items_p b \<and> events_p b' = events_p b \<and> lease_p b' = lease_p b"

context mailbox_pair
begin

lemma scoped_parts:
  assumes "scoped_inv inv_p inv_n items_p items_n n b"
  shows "inv_p n b" "inv_n n b" "items_p b i = None \<or> items_n b i = None"
    "items_n b i = None \<Longrightarrow> events_n b i = [] \<and> lease_n b q i = None"
    "items_p b i = None \<Longrightarrow> events_p b i = [] \<and> lease_p b q i = None"
proof -
  show inv: "inv_p n b" "inv_n n b" and "items_p b i = None \<or> items_n b i = None" using assms by (simp_all add: scoped_inv_def)
  show "items_n b i = None \<Longrightarrow> events_n b i = [] \<and> lease_n b q i = None"
    using N.wf_events [OF inv(2)] N.wf_lease [OF inv(2), of q i] by (cases "lease_n b q i") auto
  show "items_p b i = None \<Longrightarrow> events_p b i = [] \<and> lease_p b q i = None"
    using P.wf_events [OF inv(1)] P.wf_lease [OF inv(1), of q i] by (cases "lease_p b q i") auto
qed

lemma scoped_iff:
  assumes "scoped_inv inv_p inv_n items_p items_n n b"
  shows "scoped_items items_p items_n b i = Some it \<longleftrightarrow> items_p b i = Some it \<or> items_n b i = Some it"
    "scoped_lease items_n lease_p lease_n b q i = Some l \<longleftrightarrow> lease_p b q i = Some l \<or> lease_n b q i = Some l"
  using scoped_parts(3-5) [OF assms, of i] by (auto simp: scoped_items_def scoped_lease_def split: option.splits)

text \<open>Nothing that either backend stands for has changed.\<close>

definition same_views :: "'b \<Rightarrow> 'b \<Rightarrow> bool" where
  "same_views b b' \<longleftrightarrow> items_p b' = items_p b \<and> events_p b' = events_p b \<and> lease_p b' = lease_p b \<and>
     items_n b' = items_n b \<and> events_n b' = events_n b \<and> lease_n b' = lease_n b"

lemma owner:
  assumes "scoped_inv inv_p inv_n items_p items_n n b" "scoped_env_ok env_ok at es"
  obtains b1 where "backendForItem priv network es i b = (b1, if scoped_items items_p items_n b i = None then Inl (ItemNotFound i)
      else Inr (if items_n b i = None then priv else network))"
    "scoped_inv inv_p inv_n items_p items_n n b1" "same_views b b1"
proof -
  note inv = scoped_parts(1,2) [OF assms(1)]
  have ok: "env_ok (es k)" for k using assms(2) by (simp add: scoped_env_ok_def)
  obtain b1 r1 where c1: "be_ContainsItem network (es 0) i b = (b1, r1)" by fastforce
  note l1 = N.contains_law [OF inv(2) ok c1]
  have v1: "inv_n n b1" "chg_n b b1" using l1 by simp_all
  note f1 = frame_n [OF inv(1) v1(2,1) order.refl]
  obtain b2 r2 where c2: "be_ContainsItem priv (es 1) i b1 = (b2, r2)" by fastforce
  have w1: "inv_p n b1" using f1 by simp
  note l2 = P.contains_law [OF w1 ok c2]
  have v2: "inv_p n b2" "chg_p b1 b2" using l2 by simp_all
  note f2 = frame_p [OF v1(1) v2(2,1) order.refl]
  show ?thesis
  proof (cases "items_n b i = None")
    case True
    then have "backendForItem priv network es i b = (b2, if items_p b i = None then Inl (ItemNotFound i) else Inr priv)"
      using l1 l2 f1 c1 c2 by (auto simp: backendForItem_def)
    then show ?thesis using that [of b2] True l1 l2 f1 f2 assms(1) by (simp add: same_views_def scoped_inv_def scoped_items_def)
  next
    case False
    then have "backendForItem priv network es i b = (b1, Inr network)"
      using l1 c1 by (simp add: backendForItem_def)
    then show ?thesis using that [of b1] False l1 f1 assms(1) by (simp add: same_views_def scoped_inv_def scoped_items_def)
  qed
qed

lemma scoped_load:
  assumes "scoped_inv inv_p inv_n items_p items_n n b" "scoped_env_ok env_ok at es" "scoped_Load priv network es b = (b', ld)"
  shows "scoped_inv inv_p inv_n items_p items_n n b' \<and> same_views b b' \<and>
    (\<exists>sp. ld = Inr sp \<and> (\<forall>it. it \<in> set (sp_Items sp) \<longleftrightarrow> (\<exists>i. scoped_items items_p items_n b i = Some it)) \<and>
      (\<forall>i. fmlookup (sp_Events sp) i = (if scoped_events items_n events_p events_n b i = [] then None
         else Some (scoped_events items_n events_p events_n b i))) \<and>
      (\<forall>c\<in>set (sp_Claims sp). \<exists>q i l. scoped_lease items_n lease_p lease_n b q i = Some l \<and> c = claimFromLease q i l) \<and>
      (\<forall>q i l. live_lease (at (es 2)) (scoped_lease items_n lease_p lease_n b q i) = Some l \<longrightarrow> claimFromLease q i l \<in> set (sp_Claims sp)))"
proof -
  note inv = scoped_parts(1,2) [OF assms(1)]
  have ok: "env_ok (es k)" "at (es k) \<le> at (es (Suc k))" for k using assms(2) by (simp_all add: scoped_env_ok_def)
  have t: "at (es 0) \<le> at (es 2)" "at (es 1) \<le> at (es 2)" using ok(2) [of 0] ok(2) [of 1] by (simp_all add: numeral_2_eq_2)
  obtain b1 l1 where p: "be_Load priv (es 0) b = (b1, l1)" by fastforce
  note lp = P.load_law [OF inv(1) ok(1) p]
  have v1: "inv_p n b1" "chg_p b b1" using lp P.chg_load [OF inv(1) ok(1), of 0] p by simp_all
  note f1 = frame_p [OF inv(2) v1(2,1) order.refl]
  have w1: "inv_n n b1" using f1 by simp
  obtain b2 l2 where nn: "be_Load network (es 1) b1 = (b2, l2)" by fastforce
  note ln = N.load_law [OF w1 ok(1) nn]
  have v2: "inv_n n b2" "chg_n b1 b2" using ln N.chg_load [OF w1 ok(1), of 1] nn by simp_all
  note f2 = frame_n [OF v1(1) v2(2,1) order.refl]
  obtain sp where sp: "l1 = Inr sp" "\<And>it. it \<in> set (sp_Items sp) \<longleftrightarrow> (\<exists>i. items_p b i = Some it)"
    "\<And>i. fmlookup (sp_Events sp) i = (if events_p b i = [] then None else Some (events_p b i))"
    "\<And>c. c \<in> set (sp_Claims sp) \<Longrightarrow> \<exists>q i l. lease_p b q i = Some l \<and> c = claimFromLease q i l"
    "\<And>q i l. live_lease (at (es 0)) (lease_p b q i) = Some l \<Longrightarrow> claimFromLease q i l \<in> set (sp_Claims sp)" using lp by blast
  obtain sn where sn: "l2 = Inr sn" "\<And>it. it \<in> set (sp_Items sn) \<longleftrightarrow> (\<exists>i. items_n b i = Some it)"
    "\<And>i. fmlookup (sp_Events sn) i = (if events_n b i = [] then None else Some (events_n b i))"
    "\<And>c. c \<in> set (sp_Claims sn) \<Longrightarrow> \<exists>q i l. lease_n b q i = Some l \<and> c = claimFromLease q i l"
    "\<And>q i l. live_lease (at (es 1)) (lease_n b q i) = Some l \<Longrightarrow> claimFromLease q i l \<in> set (sp_Claims sn)" using ln f1 by auto
  note own = scoped_parts(3-5) [OF assms(1)]
  have disj: "fmlookup (sp_Events sp) i = None \<or> fmlookup (sp_Events sn) i = None" for i
    using own [of i] by (auto simp: sp(3) sn(3))
  note m = mergeSnapshots_two [OF disj]
  have earlier: "live_lease u x = Some l" if "live_lease t x = Some l" "u \<le> t" for t u :: int and x l
    using that by (auto simp: live_lease_def Expired_def split: option.splits if_splits)
  have "it \<in> set (sp_Items (mergeSnapshots [sp, sn])) \<longleftrightarrow> (\<exists>i. scoped_items items_p items_n b i = Some it)" for it
    by (auto simp: m sp(2) sn(2) scoped_iff(1) [OF assms(1)])
  moreover have "fmlookup (sp_Events (mergeSnapshots [sp, sn])) i = (if scoped_events items_n events_p events_n b i = [] then None
      else Some (scoped_events items_n events_p events_n b i))" for i
    using own [of i] by (auto simp: m(3) sp(3) sn(3) scoped_events_def)
  moreover have "\<exists>q i l. scoped_lease items_n lease_p lease_n b q i = Some l \<and> c = claimFromLease q i l"
    if "c \<in> set (sp_Claims (mergeSnapshots [sp, sn]))" for c
    using that sp(4) [of c] sn(4) [of c] unfolding m(2) set_append scoped_iff(2) [OF assms(1)] by blast
  moreover have "claimFromLease q i l \<in> set (sp_Claims (mergeSnapshots [sp, sn]))"
    if "live_lease (at (es 2)) (scoped_lease items_n lease_p lease_n b q i) = Some l" for q i l
    using earlier [OF that t(1)] earlier [OF that t(2)] sp(5) sn(5)
    by (auto simp: m(2) scoped_lease_def split: if_splits)
  moreover have "b' = b2" "ld = Inr (mergeSnapshots [sp, sn])" using assms(3) p nn sp(1) sn(1) by (simp_all add: scoped_Load_def)
  moreover have "scoped_inv inv_p inv_n items_p items_n n b2" "same_views b b2"
    using lp ln f1 f2 assms(1) by (simp_all add: same_views_def scoped_inv_def)
  ultimately show ?thesis by blast
qed

lemma scoped_create:
  assumes "scoped_inv inv_p inv_n items_p items_n (n + 4) b" "scoped_env_ok env_ok at es" "item_ok it" "it_ID it \<noteq> []"
    and "scoped_items items_p items_n b (it_ID it) = None"
    and "be_CreateItem (backendForScope priv network (item_Scope it)) (es 2) it b = (b', err)"
  shows "scoped_inv inv_p inv_n items_p items_n n b' \<and>
    scoped_events items_n events_p events_n b' = scoped_events items_n events_p events_n b \<and>
    scoped_lease items_n lease_p lease_n b' = scoped_lease items_n lease_p lease_n b \<and>
    (scoped_items items_p items_n b' = (scoped_items items_p items_n b)(it_ID it \<mapsto> it) \<or>
     (err \<noteq> None \<and> scoped_items items_p items_n b' = scoped_items items_p items_n b))"
proof -
  note inv = scoped_parts(1,2) [OF assms(1)] and own = scoped_parts(3-5) [OF assms(1)]
  have ok: "env_ok (es 2)" using assms(2) by (simp add: scoped_env_ok_def)
  have none: "items_p b (it_ID it) = None" "items_n b (it_ID it) = None"
    using assms(5) by (auto simp: scoped_items_def split: if_splits)
  have disj: "items_p b i = None \<or> items_n b i = None" for i by (rule own(1))
  show ?thesis
  proof (cases "item_Scope it = ScopeSky10Network")
    case True
    then have call: "be_CreateItem network (es 2) it b = (b', err)" using assms(6) by (simp add: backendForScope_def)
    note law = N.create_law [OF inv(2) ok assms(3,4) none(2) call]
    have "inv_n n b'" "chg_n b b'" using law N.chg_create [OF inv(2) ok assms(3,4) none(2)] call by simp_all
    note fr = frame_n [OF inv(1) this(2,1) le_add1]
    from law consider (new) "items_n b' = (items_n b)(it_ID it \<mapsto> it)" | (old) "err \<noteq> None" "items_n b' = items_n b" by blast
    then show ?thesis
    proof cases
      case new
      have "scoped_items items_p items_n b' = (scoped_items items_p items_n b)(it_ID it \<mapsto> it)"
        "scoped_events items_n events_p events_n b' = scoped_events items_n events_p events_n b"
        "scoped_lease items_n lease_p lease_n b' = scoped_lease items_n lease_p lease_n b"
        using own(2,3) [of "it_ID it"] none law by (intro ext; auto simp: scoped_defs fr new)+
      then show ?thesis using law fr new none disj by (simp add: scoped_inv_def)
    next
      case old
      have "scoped_items items_p items_n b' = scoped_items items_p items_n b"
        "scoped_events items_n events_p events_n b' = scoped_events items_n events_p events_n b"
        "scoped_lease items_n lease_p lease_n b' = scoped_lease items_n lease_p lease_n b"
        using law by (intro scoped_cong; simp add: fr old)+
      then show ?thesis using law fr old disj by (simp add: scoped_inv_def)
    qed
  next
    case False
    then have call: "be_CreateItem priv (es 2) it b = (b', err)" using assms(6) by (simp add: backendForScope_def)
    note law = P.create_law [OF inv(1) ok assms(3,4) none(1) call]
    have "inv_p n b'" "chg_p b b'" using law P.chg_create [OF inv(1) ok assms(3,4) none(1)] call by simp_all
    note fr = frame_p [OF inv(2) this(2,1) le_add1]
    from law consider (new) "items_p b' = (items_p b)(it_ID it \<mapsto> it)" | (old) "err \<noteq> None" "items_p b' = items_p b" by blast
    then show ?thesis
    proof cases
      case new
      have "scoped_items items_p items_n b' = (scoped_items items_p items_n b)(it_ID it \<mapsto> it)"
        "scoped_events items_n events_p events_n b' = scoped_events items_n events_p events_n b"
        "scoped_lease items_n lease_p lease_n b' = scoped_lease items_n lease_p lease_n b"
        using own(2,3) [of "it_ID it"] none law by (intro ext; auto simp: scoped_defs fr new)+
      then show ?thesis using law fr new none disj by (simp add: scoped_inv_def)
    next
      case old
      have "scoped_items items_p items_n b' = scoped_items items_p items_n b"
        "scoped_events items_n events_p events_n b' = scoped_events items_n events_p events_n b"
        "scoped_lease items_n lease_p lease_n b' = scoped_lease items_n lease_p lease_n b"
        using law by (intro scoped_cong; simp add: fr old)+
      then show ?thesis using law fr old disj by (simp add: scoped_inv_def)
    qed
  qed
qed

lemma scoped_append:
  assumes "scoped_inv inv_p inv_n items_p items_n (Suc n) b" "scoped_env_ok env_ok at es" "event_ok ev"
    and "scoped_items items_p items_n b (ev_ItemID ev) \<noteq> None"
    and "\<And>x. x \<in> set (scoped_events items_n events_p events_n b (ev_ItemID ev)) \<Longrightarrow> ev_Timestamp x < at (es 2)"
    and "on_owner priv network es (ev_ItemID ev) (\<lambda>be e. be_AppendEvent be e ev) b = (b', ap)"
  shows "scoped_inv inv_p inv_n items_p items_n n b' \<and> scoped_items items_p items_n b' = scoped_items items_p items_n b \<and>
    scoped_lease items_n lease_p lease_n b' = scoped_lease items_n lease_p lease_n b \<and>
    (case ap of Inl _ \<Rightarrow> scoped_events items_n events_p events_n b' = scoped_events items_n events_p events_n b
     | Inr st \<Rightarrow> (\<exists>eid. st = ev\<lparr>ev_EventID := eid, ev_Timestamp := at (es 2)\<rparr>) \<and>
         scoped_events items_n events_p events_n b' = (scoped_events items_n events_p events_n b)
           (ev_ItemID ev := scoped_events items_n events_p events_n b (ev_ItemID ev) @ [st]))"
proof -
  let ?i = "ev_ItemID ev"
  obtain b1 where o: "backendForItem priv network es ?i b = (b1, if scoped_items items_p items_n b ?i = None then Inl (ItemNotFound ?i)
      else Inr (if items_n b ?i = None then priv else network))"
    "scoped_inv inv_p inv_n items_p items_n (Suc n) b1" "same_views b b1" using owner [OF assms(1,2)] .
  have v: "items_p b1 = items_p b" "events_p b1 = events_p b" "lease_p b1 = lease_p b" "items_n b1 = items_n b"
    "events_n b1 = events_n b" "lease_n b1 = lease_n b" using o(3) by (simp_all add: same_views_def)
  note inv = scoped_parts(1,2) [OF o(2)]
  have ok: "env_ok (es 2)" using assms(2) by (simp add: scoped_env_ok_def)
  have disj: "items_p b i = None \<or> items_n b i = None" for i by (rule scoped_parts(3) [OF assms(1)])
  show ?thesis
  proof (cases "items_n b ?i")
    case (Some it)
    then have call: "be_AppendEvent network (es 2) ev b1 = (b', ap)" using assms(4,6) o(1) by (auto simp: on_owner_def)
    have pre: "items_n b1 ?i \<noteq> None" "\<And>x. x \<in> set (events_n b1 ?i) \<Longrightarrow> ev_Timestamp x < at (es 2)"
      using Some assms(5) by (simp_all add: v scoped_events_def)
    note law = N.append_law [OF inv(2) ok assms(3) pre call]
    have "inv_n n b'" "chg_n b1 b'" using law N.chg_append [OF inv(2) ok assms(3) pre] call by simp_all
    note fr = frame_n [OF inv(1) this(2,1)]
    have "scoped_events items_n events_p events_n b ?i = events_n b ?i" using Some by (simp add: scoped_events_def)
    then show ?thesis using law fr Some disj
      by (cases ap) (auto simp: scoped_inv_def v intro!: scoped_cong scoped_change(2))
  next
    case None
    then have call: "be_AppendEvent priv (es 2) ev b1 = (b', ap)" using assms(4,6) o(1) by (auto simp: on_owner_def)
    have pre: "items_p b1 ?i \<noteq> None" "\<And>x. x \<in> set (events_p b1 ?i) \<Longrightarrow> ev_Timestamp x < at (es 2)"
      using None assms(4,5) by (simp_all add: v scoped_events_def scoped_items_def)
    note law = P.append_law [OF inv(1) ok assms(3) pre call]
    have "inv_p n b'" "chg_p b1 b'" using law P.chg_append [OF inv(1) ok assms(3) pre] call by simp_all
    note fr = frame_p [OF inv(2) this(2,1)]
    have "scoped_events items_n events_p events_n b ?i = events_p b ?i" using None by (simp add: scoped_events_def)
    then show ?thesis using law fr None disj
      by (cases ap) (auto simp: scoped_inv_def v intro!: scoped_cong scoped_change(1))
  qed
qed

text \<open>Claims, renewals and releases change one lease of the backend that has the item.\<close>

lemma scoped_lease_op:
  assumes "scoped_inv inv_p inv_n items_p items_n (Suc n) b" "scoped_env_ok env_ok at es" "scoped_items items_p items_n b i = Some it"
    and p: "\<And>b1 b'. inv_p (Suc n) b1 \<Longrightarrow> items_p b1 i = Some it \<Longrightarrow> call priv (es 2) b1 = (b', r) \<Longrightarrow>
      inv_p n b' \<and> chg_p b1 b' \<and> items_p b' = items_p b1 \<and> events_p b' = events_p b1 \<and>
      (\<exists>x. lease_p b' = (lease_p b1)(q := (lease_p b1 q)(i := x)) \<and> R x (lease_p b1 q i))"
    and nn: "\<And>b1 b'. inv_n (Suc n) b1 \<Longrightarrow> items_n b1 i = Some it \<Longrightarrow> call network (es 2) b1 = (b', r) \<Longrightarrow>
      inv_n n b' \<and> chg_n b1 b' \<and> items_n b' = items_n b1 \<and> events_n b' = events_n b1 \<and>
      (\<exists>x. lease_n b' = (lease_n b1)(q := (lease_n b1 q)(i := x)) \<and> R x (lease_n b1 q i))"
    and "on_owner priv network es i call b = (b', r)"
  shows "scoped_inv inv_p inv_n items_p items_n n b' \<and> scoped_items items_p items_n b' = scoped_items items_p items_n b \<and>
    scoped_events items_n events_p events_n b' = scoped_events items_n events_p events_n b \<and>
    (\<exists>x. scoped_lease items_n lease_p lease_n b' = (scoped_lease items_n lease_p lease_n b)
         (q := (scoped_lease items_n lease_p lease_n b q)(i := x)) \<and> R x (scoped_lease items_n lease_p lease_n b q i))"
proof -
  obtain b1 where o: "backendForItem priv network es i b = (b1, if scoped_items items_p items_n b i = None then Inl (ItemNotFound i)
      else Inr (if items_n b i = None then priv else network))"
    "scoped_inv inv_p inv_n items_p items_n (Suc n) b1" "same_views b b1" using owner [OF assms(1,2)] .
  have v: "items_p b1 = items_p b" "events_p b1 = events_p b" "lease_p b1 = lease_p b" "items_n b1 = items_n b"
    "events_n b1 = events_n b" "lease_n b1 = lease_n b" using o(3) by (simp_all add: same_views_def)
  note inv = scoped_parts(1,2) [OF o(2)]
  have disj: "items_p b i = None \<or> items_n b i = None" for i by (rule scoped_parts(3) [OF assms(1)])
  show ?thesis
  proof (cases "items_n b i")
    case (Some it')
    then have mine: "items_n b1 i = Some it" "scoped_lease items_n lease_p lease_n b q i = lease_n b q i"
      using assms(3) by (simp_all add: v scoped_items_def scoped_lease_def)
    have run: "call network (es 2) b1 = (b', r)" using assms(3,6) o(1) Some by (simp add: on_owner_def)
    note law = nn [OF inv(2) mine(1) run]
    then have "inv_n n b'" "chg_n b1 b'" by simp_all
    note fr = frame_n [OF inv(1) this(2,1)]
    obtain x where x: "lease_n b' = (lease_n b)(q := (lease_n b q)(i := x))" "R x (lease_n b q i)" using law unfolding v by blast
    show ?thesis using law fr Some disj x unfolding mine(2)
      by (intro conjI exI [of _ x]) (auto simp: scoped_inv_def v intro!: scoped_cong scoped_change(4))
  next
    case None
    then have mine: "items_p b1 i = Some it" "scoped_lease items_n lease_p lease_n b q i = lease_p b q i"
      using assms(3) by (simp_all add: v scoped_items_def scoped_lease_def)
    have run: "call priv (es 2) b1 = (b', r)" using assms(3,6) o(1) None by (simp add: on_owner_def)
    note law = p [OF inv(1) mine(1) run]
    then have "inv_p n b'" "chg_p b1 b'" by simp_all
    note fr = frame_p [OF inv(2) this(2,1)]
    obtain x where x: "lease_p b' = (lease_p b)(q := (lease_p b q)(i := x))" "R x (lease_p b q i)" using law unfolding v by blast
    show ?thesis using law fr None disj x unfolding mine(2)
      by (intro conjI exI [of _ x]) (auto simp: scoped_inv_def v intro!: scoped_cong scoped_change(3))
  qed
qed

lemma scoped_delete:
  assumes "scoped_inv inv_p inv_n items_p items_n (n + 5 + length (scoped_events items_n events_p events_n b i)) b" "scoped_env_ok env_ok at es"
    and "be_DeleteItem (ScopedKVBackend priv network) es i b = (b', None)"
  shows "scoped_inv inv_p inv_n items_p items_n n b' \<and> scoped_items items_p items_n b' = (scoped_items items_p items_n b)(i := None) \<and>
    scoped_events items_n events_p events_n b' = (scoped_events items_n events_p events_n b)(i := []) \<and>
    scoped_lease items_n lease_p lease_n b' = (\<lambda>q. (scoped_lease items_n lease_p lease_n b q)(i := None))"
proof -
  let ?m = "n + 5 + length (scoped_events items_n events_p events_n b i)"
  obtain b1 where o: "backendForItem priv network es i b = (b1, if scoped_items items_p items_n b i = None then Inl (ItemNotFound i)
      else Inr (if items_n b i = None then priv else network))"
    "scoped_inv inv_p inv_n items_p items_n ?m b1" "same_views b b1" using owner [OF assms(1,2)] .
  have v: "items_p b1 = items_p b" "events_p b1 = events_p b" "lease_p b1 = lease_p b" "items_n b1 = items_n b"
    "events_n b1 = events_n b" "lease_n b1 = lease_n b" using o(3) by (simp_all add: same_views_def)
  note inv = scoped_parts(1,2) [OF o(2)] and own = scoped_parts(3-5) [OF assms(1)]
  have ok: "env_ok (es 2)" using assms(2) by (simp add: scoped_env_ok_def)
  have some: "scoped_items items_p items_n b i \<noteq> None" using assms(3) o(1) by (auto simp: ScopedKVBackend_def split: if_splits)
  show ?thesis
  proof (cases "items_n b i")
    case (Some it)
    have call: "be_DeleteItem network (es 2) i b1 = (b', None)" using assms(3) o(1) some Some by (simp add: ScopedKVBackend_def)
    have "inv_n (n + 5 + length (events_n b1 i)) b1" using inv(2) Some by (simp add: scoped_events_def v)
    note law = N.delete_law [OF this ok call] and chg = N.chg_delete [OF this ok call]
    have m: "n \<le> ?m" by simp
    note fr = frame_n [OF inv(1) chg conjunct1 [OF law] m]
    have "items_p b i = None" using own(1) [of i] Some by simp
    then show ?thesis using own(1) own(3) [of i] Some law
      by (intro conjI ext) (auto simp: scoped_defs fr v)
  next
    case None
    have call: "be_DeleteItem priv (es 2) i b1 = (b', None)" using assms(3) o(1) some None by (simp add: ScopedKVBackend_def)
    have "inv_p (n + 5 + length (events_p b1 i)) b1" using inv(1) None by (simp add: scoped_events_def v)
    note law = P.delete_law [OF this ok call] and chg = P.chg_delete [OF this ok call]
    have m: "n \<le> ?m" by simp
    note fr = frame_p [OF inv(2) chg conjunct1 [OF law] m]
    show ?thesis using own(1) own(2) [of i] None law
      by (intro conjI ext) (auto simp: scoped_defs fr v)
  qed
qed

end

sublocale mailbox_pair \<subseteq> mailbox_backend "ScopedKVBackend priv network" "scoped_inv inv_p inv_n items_p items_n"
  "scoped_env_ok env_ok at" "\<lambda>es. start (es 2)" "\<lambda>es. at (es 2)" item_ok event_ok "scoped_items items_p items_n"
  "scoped_events items_n events_p events_n" "scoped_lease items_n lease_p lease_n"
proof (unfold_locales, goal_cases)
  case (1 n b m)
  then show ?case using P.inv_mono N.inv_mono by (auto simp: scoped_inv_def)
next
  case (2 n b i it)
  then show ?case using P.wf_item N.wf_item by (fastforce simp: scoped_inv_def scoped_items_def split: if_splits)
next
  case (3 n b i)
  then show ?case using P.wf_events N.wf_events by (fastforce simp: scoped_inv_def scoped_items_def scoped_events_def split: if_splits)
next
  case (4 n b i)
  then show ?case using P.wf_sorted N.wf_sorted by (fastforce simp: scoped_inv_def scoped_events_def)
next
  case (5 n b q i l)
  then show ?case
    using P.wf_lease [OF scoped_parts(1)] N.wf_lease [OF scoped_parts(2)] scoped_parts(3) [of n b i]
    by (fastforce simp: scoped_items_def scoped_lease_def split: if_splits)
next
  case (6 n b es b' ld)
  then have "scoped_Load priv network es b = (b', ld)" by (simp add: ScopedKVBackend_def)
  from scoped_load [OF 6(1,2) this] show ?case
    by (elim conjE exE) (intro conjI exI, auto simp: same_views_def intro!: scoped_cong)
next
  case (7 n b es it b' err)
  then show ?case using scoped_create [OF 7(1-5)] by (simp add: ScopedKVBackend_def)
next
  case (8 n b es ev b' ap)
  then have "on_owner priv network es (ev_ItemID ev) (\<lambda>be e. be_AppendEvent be e ev) b = (b', ap)" by (simp add: ScopedKVBackend_def)
  from scoped_append [OF 8(1-5) this] show ?case by simp
next
  case (9 n b es i it holder ttl b' cr)
  have ok: "env_ok (es 2)" using 9(2) by (simp add: scoped_env_ok_def)
  have call: "on_owner priv network es i (\<lambda>be e. be_Claim be e (QueueName it) i holder ttl) b = (b', cr)"
    using 9(6) by (simp add: ScopedKVBackend_def)
  let ?R = "\<lambda>x old. case cr of
      Inr (c, True) \<Rightarrow> (\<exists>l. x = Some l \<and> c = claimFromLease (QueueName it) i l \<and> le_Holder l = holder \<and> utf8_valid (le_Token l)) \<and>
        live_lease (at (es 2)) old = None
    | _ \<Rightarrow> live_lease (at (es 2)) x = live_lease (at (es 2)) old"
  show ?case
    apply (rule scoped_lease_op [OF 9(1-3) _ _ call, where R = ?R])
    subgoal premises a for b1 b2
      using P.claim_law [OF a(1) ok a(2) 9(4,5) a(3)] P.chg_claim [OF a(1) ok a(2) 9(4,5), of ttl] a(3) by simp
    subgoal premises a for b1 b2
      using N.claim_law [OF a(1) ok a(2) 9(4,5) a(3)] N.chg_claim [OF a(1) ok a(2) 9(4,5), of ttl] a(3) by simp
    done
next
  case (10 n b es i it ttl holder token b' cr)
  have ok: "env_ok (es 2)" using 10(2) by (simp add: scoped_env_ok_def)
  have call: "on_owner priv network es i (\<lambda>be e. be_Renew be e (QueueName it) i holder token ttl) b = (b', cr)"
    using 10(6) by (simp add: ScopedKVBackend_def)
  let ?R = "\<lambda>x old. case cr of
      Inr (c, True) \<Rightarrow> \<exists>l. x = Some l \<and> c = claimFromLease (QueueName it) i l \<and> le_Holder l = holder \<and> le_Token l = token
    | _ \<Rightarrow> x = old"
  show ?case
    apply (rule scoped_lease_op [OF 10(1-3) _ _ call, where R = ?R])
    subgoal premises a for b1 b2
      using P.renew_law [OF a(1) ok a(2) 10(4,5) a(3)] P.chg_renew [OF a(1) ok a(2) 10(4,5), of holder token] a(3) by simp
    subgoal premises a for b1 b2
      using N.renew_law [OF a(1) ok a(2) 10(4,5) a(3)] N.chg_renew [OF a(1) ok a(2) 10(4,5), of holder token] a(3) by simp
    done
next
  case (11 n b es i it holder token b' rr)
  have ok: "env_ok (es 2)" using 11(2) by (simp add: scoped_env_ok_def)
  have call: "on_owner priv network es i (\<lambda>be e. be_Release be e (QueueName it) i holder token) b = (b', rr)"
    using 11(5) by (simp add: ScopedKVBackend_def)
  let ?R = "\<lambda>x old. x = (if rr = Inr True then None else old)"
  have upd: "f(q := (f q)(i := f q i)) = f" for f :: "string \<Rightarrow> string \<Rightarrow> LeaseRecord option" and q by simp
  note law = scoped_lease_op [OF 11(1-3) _ _ call, where R = ?R and q = "QueueName it"]
  show ?case
    apply (rule rev_mp [OF law])
    subgoal premises a for b1 b2
      using P.release_law [OF a(1) ok a(2) 11(4) a(3)] P.chg_release [OF a(1) ok a(2) 11(4), of holder token] a(3) by (simp add: upd)
    subgoal premises a for b1 b2
      using N.release_law [OF a(1) ok a(2) 11(4) a(3)] N.chg_release [OF a(1) ok a(2) 11(4), of holder token] a(3) by (simp add: upd)
    by (auto simp: upd)
next
  case (12 n b i es b')
  from scoped_delete [OF this] show ?case by simp
qed

section \<open>On the store model\<close>

definition NewPrivateKVBackend ::
  "('k \<Rightarrow> string \<Rightarrow> bytes \<Rightarrow> 's \<Rightarrow> 's \<times> 'err option) \<Rightarrow> ('k \<Rightarrow> string \<Rightarrow> 's \<Rightarrow> 's \<times> bytes option)
    \<Rightarrow> ('k \<Rightarrow> string \<Rightarrow> 's \<Rightarrow> 's \<times> 'err option) \<Rightarrow> ('k \<Rightarrow> string \<Rightarrow> 's \<Rightarrow> 's \<times> string list)
    \<Rightarrow> (json \<Rightarrow> bytes option) \<Rightarrow> (bytes \<Rightarrow> json option) \<Rightarrow> string \<Rightarrow> ('k mail_env, 's, 'err) Backend" where
  "NewPrivateKVBackend set_op get_op del_op list_op txt prs root0 =
     (let root = TrimSuffix (TrimSpace root0) ''/'' in
      PrivateKVBackend set_op get_op del_op list_op txt prs (if root = [] then ''mailbox'' else root))"

definition NewScopedKVBackend ::
  "('k \<Rightarrow> string \<Rightarrow> bytes \<Rightarrow> 's \<Rightarrow> 's \<times> 'err option) \<Rightarrow> ('k \<Rightarrow> string \<Rightarrow> 's \<Rightarrow> 's \<times> bytes option)
    \<Rightarrow> ('k \<Rightarrow> string \<Rightarrow> 's \<Rightarrow> 's \<times> 'err option) \<Rightarrow> ('k \<Rightarrow> string \<Rightarrow> 's \<Rightarrow> 's \<times> string list)
    \<Rightarrow> (json \<Rightarrow> bytes option) \<Rightarrow> (bytes \<Rightarrow> json option) \<Rightarrow> string \<Rightarrow> ('k mail_env calls, 's, 'err) Backend" where
  "NewScopedKVBackend set_op get_op del_op list_op txt prs root0 =
     (let root1 = TrimSuffix (TrimSpace root0) ''/''; root = (if root1 = [] then ''_sys/mailbox'' else root1) in
      ScopedKVBackend (NewPrivateKVBackend set_op get_op del_op list_op txt prs (root @ ''/private''))
        (NewPrivateKVBackend set_op get_op del_op list_op txt prs (root @ ''/sky10'')))"

text \<open>The two roots of the daemon's mailbox, and its backend.\<close>

abbreviation private_root :: string where "private_root \<equiv> ''_sys/mailbox/private''"
abbreviation sky10_root :: string where "sky10_root \<equiv> ''_sys/mailbox/sky10''"

definition store_mailbox :: "(json \<Rightarrow> bytes option) \<Rightarrow> (bytes \<Rightarrow> json option) \<Rightarrow> (kv_env mail_env calls, Store, store_error) Backend" where
  "store_mailbox txt prs = NewScopedKVBackend Set_kv Get_kv Delete_kv List_kv txt prs ''_sys/mailbox''"

lemma store_mailbox_eq:
  "store_mailbox txt prs = ScopedKVBackend (PrivateKVBackend Set_kv Get_kv Delete_kv List_kv txt prs private_root)
     (PrivateKVBackend Set_kv Get_kv Delete_kv List_kv txt prs sky10_root)"
  by (simp add: store_mailbox_def NewScopedKVBackend_def NewPrivateKVBackend_def TrimSpace_def TrimSuffix_def HasSuffix_def
      is_space_def Let_def)

text \<open>A printer that fails on a document its parser would not give back.\<close>

definition checked :: "(json \<Rightarrow> bytes option) \<Rightarrow> (bytes \<Rightarrow> json option) \<Rightarrow> json \<Rightarrow> bytes option" where
  "checked txt prs j = (case txt j of None \<Rightarrow> None | Some d \<Rightarrow> if doc_ok j \<longrightarrow> prs d = Some j then Some d else None)"

lemma checked_same: "(\<And>j d. doc_ok j \<Longrightarrow> txt j = Some d \<Longrightarrow> prs d = Some j) \<Longrightarrow> checked txt prs = txt"
  by (auto simp: checked_def fun_eq_iff split: option.splits)

lemma checked_law: "doc_ok j \<Longrightarrow> checked txt prs j = Some d \<Longrightarrow> prs d = Some j"
  by (auto simp: checked_def split: option.splits if_splits)

lemma store_inv_less: "store_inv n s \<Longrightarrow> m \<le> n \<Longrightarrow> store_inv m s"
  by (auto simp: store_inv_def log_inv_def seq_room_def)

interpretation private_kv: mailbox_kv store_inv store_view env_ok Set_kv Get_kv Delete_kv List_kv "checked pr prs" prs private_root
  for pr prs
  by unfold_locales (simp_all add: store_inv_less checked_law byte_in_def)

interpretation sky10_kv: mailbox_kv store_inv store_view env_ok Set_kv Get_kv Delete_kv List_kv "checked pr prs" prs sky10_root
  for pr prs
  by unfold_locales (simp_all add: store_inv_less checked_law byte_in_def)

lemma other_root:
  assumes "outside r V V'" "\<And>k. prefix (r @ ''/'') k \<Longrightarrow> \<not> prefix (q @ ''/'') k"
  shows "same_mail q V V'"
  using assms keys_inside(6) unfolding outside_def same_mail_def by metis

lemma other_frame:
  assumes "mail_inv store_inv store_view prs q n b" "outside r (store_view b) (store_view b')" "mail_inv store_inv store_view prs r m b'"
    and "\<And>k. prefix (r @ ''/'') k \<Longrightarrow> \<not> prefix (q @ ''/'') k"
  shows "mail_inv store_inv store_view prs q m b' \<and> kv_item prs q (store_view b') = kv_item prs q (store_view b) \<and>
    kv_events prs q (store_view b') = kv_events prs q (store_view b) \<and> kv_lease prs q (store_view b') = kv_lease prs q (store_view b)"
proof -
  have same: "same_mail q (store_view b) (store_view b')" by (rule other_root [OF assms(2,4)])
  show ?thesis using same_mail_views [OF same, of prs] same_mail_wf [OF same] assms(1,3) by (simp add: mail_inv_def)
qed

interpretation mailbox: mailbox_pair
  "PrivateKVBackend Set_kv Get_kv Delete_kv List_kv (checked pr prs) prs private_root"
  "PrivateKVBackend Set_kv Get_kv Delete_kv List_kv (checked pr prs) prs sky10_root"
  "mail_inv store_inv store_view prs private_root" "mail_inv store_inv store_view prs sky10_root" "mail_env_ok env_ok" mv_t2 mv_t3
  item_wire_ok event_wire_ok
  "\<lambda>s. kv_item prs private_root (store_view s)" "\<lambda>s. kv_item prs sky10_root (store_view s)"
  "\<lambda>s. kv_events prs private_root (store_view s)" "\<lambda>s. kv_events prs sky10_root (store_view s)"
  "\<lambda>s. kv_lease prs private_root (store_view s)" "\<lambda>s. kv_lease prs sky10_root (store_view s)"
  "\<lambda>s s'. outside private_root (store_view s) (store_view s')" "\<lambda>s s'. outside sky10_root (store_view s) (store_view s')"
  for pr prs
proof unfold_locales
  have apart: "prefix (private_root @ ''/'') k \<Longrightarrow> \<not> prefix (sky10_root @ ''/'') k" for k by (auto simp: prefix_def)
  fix n m b b'
  show "mail_inv store_inv store_view prs sky10_root m b' \<and>
      kv_item prs sky10_root (store_view b') = kv_item prs sky10_root (store_view b) \<and>
      kv_events prs sky10_root (store_view b') = kv_events prs sky10_root (store_view b) \<and>
      kv_lease prs sky10_root (store_view b') = kv_lease prs sky10_root (store_view b)"
    if "mail_inv store_inv store_view prs sky10_root n b" "outside private_root (store_view b) (store_view b')"
      "mail_inv store_inv store_view prs private_root m b'"
    using other_frame [OF that] apart by blast
  show "mail_inv store_inv store_view prs private_root m b' \<and>
      kv_item prs private_root (store_view b') = kv_item prs private_root (store_view b) \<and>
      kv_events prs private_root (store_view b') = kv_events prs private_root (store_view b) \<and>
      kv_lease prs private_root (store_view b') = kv_lease prs private_root (store_view b)"
    if "mail_inv store_inv store_view prs private_root n b" "outside sky10_root (store_view b) (store_view b')"
      "mail_inv store_inv store_view prs sky10_root m b'"
    using other_frame [OF that] apart by blast
qed

end
