(* ===== verification/Mailbox_Runs.thy ===== *)
theory Mailbox_Runs
  imports Mailbox_Scoped
begin

text \<open>
  Sequences of mailbox operations as a step relation, and what holds after any of them: the backend
  stays well formed, every record shown is durable, a live claim excludes others. The lemmas are proved
  for any backend with the contract and apply to the daemon's mailbox on the store model.
\<close>

section \<open>Runs\<close>

text \<open>
  A configuration has the number of key-value writes there is still room for, the time of the last
  backend call and the store. A step may fail at any of its backend calls, except that a compaction is
  one that went through.
\<close>

type_synonym 'b mail_config = "nat \<times> int \<times> 'b MailStore"

inductive mail_run ::
  "('e, 'b, 'err) Backend \<Rightarrow> ('e \<Rightarrow> bool) \<Rightarrow> ('e \<Rightarrow> int) \<Rightarrow> ('e \<Rightarrow> int) \<Rightarrow> (Item \<Rightarrow> bool) \<Rightarrow> (Event \<Rightarrow> bool)
    \<Rightarrow> ('b \<Rightarrow> string \<Rightarrow> Item option) \<Rightarrow> ('b \<Rightarrow> string \<Rightarrow> Event list) \<Rightarrow> 'b mail_config \<Rightarrow> 'b mail_config \<Rightarrow> bool"
  for B ok start clk item_ok event_ok items events c
where
  stop: "mail_run B ok start clk item_ok event_ok items events c c"
| append: "mail_run B ok start clk item_ok event_ok items events c (Suc n, t, s) \<Longrightarrow> ok e \<Longrightarrow> event_ok ev \<Longrightarrow> t < clk e \<Longrightarrow>
    mail_AppendEvent B e ev s = (s', ar) \<Longrightarrow> mail_run B ok start clk item_ok event_ok items events c (n, clk e, s')"
| create: "mail_run B ok start clk item_ok event_ok items events c (n + 5, t, s) \<Longrightarrow> calls_ok ok clk t es \<Longrightarrow>
    it = created_item now newID item \<Longrightarrow> item_ok it \<Longrightarrow> it_ID it \<noteq> [] \<Longrightarrow> items (ms_backend s) (it_ID it) = None \<Longrightarrow>
    event_ok (new_Event (it_ID it) EventTypeCreated (it_From it) [] [] None) \<Longrightarrow>
    mail_Create B es now newID item s = (s', cr) \<Longrightarrow> mail_run B ok start clk item_ok event_ok items events c (n, clk (es 2), s')"
| claim: "mail_run B ok start clk item_ok event_ok items events c (Suc (Suc n), t, s) \<Longrightarrow> calls_ok ok clk t es \<Longrightarrow>
    utf8_valid (pn_ID actor) \<Longrightarrow>
    (\<And>tok it. utf8_valid tok \<Longrightarrow> items (ms_backend s) i = Some it \<Longrightarrow>
      event_ok (new_Event i EventTypeClaimed actor tok [] (Some (fmupd ''queue'' (QueueName it) fmempty)))) \<Longrightarrow>
    mail_Claim B es i actor ttl s = (s', cl) \<Longrightarrow> mail_run B ok start clk item_ok event_ok items events c (n, clk (es 2), s')"
| release: "mail_run B ok start clk item_ok event_ok items events c (Suc n, t, s) \<Longrightarrow> ok e \<Longrightarrow> t \<le> clk e \<Longrightarrow>
    mail_Release B e i holder token s = (s', rl) \<Longrightarrow> mail_run B ok start clk item_ok event_ok items events c (n, clk e, s')"
| renew: "mail_run B ok start clk item_ok event_ok items events c (Suc n, t, s) \<Longrightarrow> ok e \<Longrightarrow> t \<le> clk e \<Longrightarrow> clk e < start e + ttl \<Longrightarrow>
    mail_Renew B e i holder token ttl s = (s', rn) \<Longrightarrow> mail_run B ok start clk item_ok event_ok items events c (n, clk e, s')"
| reload: "mail_run B ok start clk item_ok event_ok items events c (n, t, s) \<Longrightarrow> ok e \<Longrightarrow> t \<le> clk e \<Longrightarrow>
    Reload B e s = (s', er) \<Longrightarrow> mail_run B ok start clk item_ok event_ok items events c (n, clk e, s')"
| compact: "mail_run B ok start clk item_ok event_ok items events c (n + 5 + length (events (ms_backend s) (it_ID (rd_Item r))), t, s) \<Longrightarrow>
    ok e \<Longrightarrow> t \<le> clk e \<Longrightarrow>
    compactRecord B e r s = (s', None) \<Longrightarrow> mail_run B ok start clk item_ok event_ok items events c (n, clk e, s')"

context mailbox_backend
begin

lemma NewStore_agree:
  assumes "inv n b" "env_ok e" "mail_NewStore B e b = r" "\<forall>i. \<forall>x\<in>set (events b i). ev_Timestamp x \<le> at e"
  shows "\<exists>s. r = Inr s \<and> inv n (ms_backend s) \<and> agree items events lease (at e) s \<and> items (ms_backend s) = items b \<and>
    (\<forall>i it. items b i = Some it \<longrightarrow> (\<exists>c. state_at (ms_index s) i = \<lparr>rs_item = it, rs_events = events b i, rs_claim = c\<rparr> \<and>
        loaded_claim (at e) (QueueName it) i (lease b (QueueName it) i) c))"
proof -
  let ?s = "\<lparr>ms_backend = b, ms_index = fmempty\<rparr>"
  obtain s' x where re: "Reload B e ?s = (s', x)" by fastforce
  have "agree items events lease (at e) ?s" using assms(4) by (simp add: agree_def)
  from Reload_agree [OF _ assms(2) this _ re] assms(1,3) re show ?thesis by (auto simp: mail_NewStore_def)
qed

lemma run_agree:
  assumes "mail_run B env_ok start at item_ok event_ok items events c c'"
    and "inv (fst c) (ms_backend (snd (snd c)))" "agree items events lease (fst (snd c)) (snd (snd c))"
  shows "inv (fst c') (ms_backend (snd (snd c'))) \<and> agree items events lease (fst (snd c')) (snd (snd c'))"
  using assms(1)
proof (induction rule: mail_run.induct)
  case stop
  then show ?case using assms(2,3) by simp
next
  case (append n t s e ev s' ar)
  then show ?case using AppendEvent_agree [of n s e ev t s' ar] by simp
next
  case (create n t s es it now newID item s' cr)
  then show ?case using Create_agree [of n s t es now newID item s' cr] by simp
next
  case (claim n t s es actor i ttl s' cl)
  then show ?case using Claim_agree [of n s t es actor i ttl s' cl] by simp
next
  case (release n t s e i holder token s' rl)
  then show ?case using Release_agree [of n s e t i holder token s' rl] by simp
next
  case (renew n t s e ttl i holder token s' rn)
  then show ?case using Renew_agree [of n s e t ttl i holder token s' rn] by simp
next
  case (reload n t s e s' er)
  then show ?case using Reload_agree [of n s e t s' er] by simp
next
  case (compact n s r t e s')
  then show ?case using compact_agree [of n s r e t s'] by simp
qed

text \<open>What is shown now is what a restart shows.\<close>

lemma restart_shows:
  assumes "inv n (ms_backend s)" "agree items events lease t s" "env_ok e" "t \<le> at e"
  shows "\<exists>s'. mail_NewStore B e (ms_backend s) = Inr s' \<and>
    (\<forall>i r. mail_Get s i = Some r \<longrightarrow> (\<exists>r'. mail_Get s' i = Some r' \<and> rd_Item r' = rd_Item r \<and>
       (rd_Events r' = rd_Events r \<or> (\<exists>ev. ev_Type ev = EventTypeCreated \<and> rd_Events r' = ev # rd_Events r)) \<and>
       live_claim (at e) (rd_Claim r') = live_claim (at e) (rd_Claim r)))"
proof -
  have "\<forall>i. \<forall>x\<in>set (events (ms_backend s) i). ev_Timestamp x \<le> at e"
    using agree_times [OF assms(2)] assms(4) by fastforce
  from NewStore_agree [OF assms(1,3) refl this] obtain s' where s': "mail_NewStore B e (ms_backend s) = Inr s'"
    "\<And>i it. items (ms_backend s) i = Some it \<Longrightarrow> \<exists>c. state_at (ms_index s') i = \<lparr>rs_item = it, rs_events = events (ms_backend s) i, rs_claim = c\<rparr> \<and>
        loaded_claim (at e) (QueueName it) i (lease (ms_backend s) (QueueName it) i) c" by blast
  have "\<exists>r'. mail_Get s' i = Some r' \<and> rd_Item r' = rd_Item r \<and>
       (rd_Events r' = rd_Events r \<or> (\<exists>ev. ev_Type ev = EventTypeCreated \<and> rd_Events r' = ev # rd_Events r)) \<and>
       live_claim (at e) (rd_Claim r') = live_claim (at e) (rd_Claim r)" if "mail_Get s i = Some r" for i r
  proof -
    note r = agree_state [OF agree_later [OF assms(2,4)] that]
    then have it: "items (ms_backend s) i = Some (rd_Item r)" by (simp add: durable_def)
    from s'(2) [OF it] obtain c where "state_at (ms_index s') i = \<lparr>rs_item = rd_Item r, rs_events = events (ms_backend s) i, rs_claim = c\<rparr>"
      "loaded_claim (at e) (QueueName (rd_Item r)) i (lease (ms_backend s) (QueueName (rd_Item r)) i) c" by blast
    then show ?thesis using r by (auto simp: mail_Get_def index_get_state durable_def loaded_claim_def)
  qed
  then show ?thesis using s'(1) by blast
qed

text \<open>A claim that another holds excludes this one; a claim that succeeds is shown.\<close>

lemma claim_excluded:
  assumes "inv (Suc (Suc n)) (ms_backend s)" "calls_ok env_ok at t es" "agree items events lease t s" "utf8_valid (pn_ID actor)"
    and "mail_Get s i = Some r" "live_claim (at (es 0)) (rd_Claim r) \<noteq> None" "mail_Claim B es i actor ttl s = (s', res)"
  shows "\<nexists>r'. res = Inr (r', True)"
proof
  assume "\<exists>r'. res = Inr (r', True)"
  then obtain r' where res: "res = Inr (r', True)" ..
  obtain q where q: "(claim_queue s i :: 'err mail_error + string) = Inr q" using assms(7) res by (auto simp: mail_Claim_def split: sum.splits)
  then have q': "q = QueueName (rd_Item r)" "QueueName (rd_Item r) \<noteq> []" using assms(5) by (auto simp: claim_queue_Inr)
  obtain b cr where cr: "be_Claim B (es 0) (QueueName (rd_Item r)) i (pn_ID actor) ttl (ms_backend s) = (b, cr)" by fastforce
  obtain c where c: "cr = Inr (c, True)"
    using assms(7) res q q' cr by (auto simp: mail_Claim_def Let_def split: sum.splits prod.splits bool.splits option.splits)
  have ok: "env_ok (es 0)" "t \<le> at (es 0)" using assms(2) by (auto simp: calls_ok_def)
  from Claim_step(3) [OF assms(1) ok(1) assms(3) ok(2) assms(5) q'(2) assms(4) cr c] assms(6) show False by simp
qed

lemma claim_shown:
  assumes "inv (Suc (Suc n)) (ms_backend s)" "calls_ok env_ok at t es" "agree items events lease t s" "utf8_valid (pn_ID actor)"
    and ev: "\<And>tok it. utf8_valid tok \<Longrightarrow> items (ms_backend s) i = Some it \<Longrightarrow>
      event_ok (new_Event i EventTypeClaimed actor tok [] (Some (fmupd ''queue'' (QueueName it) fmempty)))"
    and "mail_Claim B es i actor ttl s = (s', Inr (r', True))"
  shows "mail_Get s' i = Some r' \<and> rd_State r' = StateClaimed \<and> (\<exists>c. rd_Claim r' = Some c \<and> cl_Holder c = pn_ID actor)"
proof -
  obtain q where q: "(claim_queue s i :: 'err mail_error + string) = Inr q" using assms(6) by (auto simp: mail_Claim_def split: sum.splits)
  then obtain r where r: "mail_Get s i = Some r" "q = QueueName (rd_Item r)" "QueueName (rd_Item r) \<noteq> []" by (auto simp: claim_queue_Inr)
  obtain b cr where cr: "be_Claim B (es 0) (QueueName (rd_Item r)) i (pn_ID actor) ttl (ms_backend s) = (b, cr)" by fastforce
  obtain c where c: "cr = Inr (c, True)"
    using assms(6) q r cr by (auto simp: mail_Claim_def Let_def split: sum.splits prod.splits bool.splits option.splits)
  have ok: "env_ok (es k)" "t \<le> at (es 0)" "at (es 0) < at (es 1)" for k using assms(2) by (auto simp: calls_ok_def)
  note step = Claim_step [OF assms(1) ok(1) assms(3) ok(2) r(1,3) assms(4) cr]
  define s1 where "s1 = s\<lparr>ms_backend := b, ms_index := setClaim c (ms_index s)\<rparr>"
  let ?ev = "new_Event i EventTypeClaimed actor (cl_Token c) [] (Some (fmupd ''queue'' q fmempty))"
  have app: "mail_AppendEvent B (es 1) ?ev s1 = (s', Inr r')"
    using assms(6) q r(2) cr c by (auto simp: mail_Claim_def Let_def s1_def split: option.splits sum.splits prod.splits)
  obtain s2 x where x: "store_appendEvent B (es 1) ?ev s1 = (s2, x)" by fastforce
  have one: "inv (Suc n) (ms_backend s1)" "agree items events lease (at (es 0)) s1" using step(1) step(3) [OF c] by (simp_all add: s1_def)
  have it: "items (ms_backend s) i = Some (rd_Item r)" using agree_state [OF assms(3) r(1)] by (simp add: durable_def)
  have "event_ok ?ev" "items (ms_backend s1) (ev_ItemID ?ev) \<noteq> None"
    using ev [of "cl_Token c" "rd_Item r"] step(2) step(3) [OF c] it r(2) by (simp_all add: s1_def new_Event_def)
  note st = stored_event [OF one(1) ok(1) this one(2) ok(3) x]
  obtain e' where e': "x = Inr e'" "ev_ItemID e' = i" "ev_Type e' = EventTypeClaimed"
    and s2: "ms_index s2 = ms_index s1"
    using app x st by (cases x) (auto simp: mail_AppendEvent_def new_Event_def Let_def split: if_splits option.splits)
  have res: "s' = s2\<lparr>ms_index := index_appendEvent i e' (ms_index s2)\<rparr>" "r' = got s' i"
    using app x e' by (auto simp: mail_AppendEvent_def new_Event_def Let_def split: if_splits option.splits)
  have "cl_ItemID c = i" "cl_Holder c = pn_ID actor" using step(3) [OF c] by simp_all
  then show ?thesis
    using res s2 agree_state(3) [OF assms(3) r(1)] agree_state(2) [OF assms(3) r(1)] e'(3)
    by (simp add: got_def mail_Get_def index_get_state s1_def buildRecord_def deriveState_def stateForEvent_def)
qed

end

section \<open>The daemon's mailbox\<close>

text \<open>The items, timelines and leases below the two roots, and the well-formed states.\<close>

definition mbx_items :: "(bytes \<Rightarrow> json option) \<Rightarrow> Store \<Rightarrow> string \<Rightarrow> Item option" where
  "mbx_items prs = scoped_items (\<lambda>s. kv_item prs private_root (store_view s)) (\<lambda>s. kv_item prs sky10_root (store_view s))"

definition mbx_events :: "(bytes \<Rightarrow> json option) \<Rightarrow> Store \<Rightarrow> string \<Rightarrow> Event list" where
  "mbx_events prs = scoped_events (\<lambda>s. kv_item prs sky10_root (store_view s))
     (\<lambda>s. kv_events prs private_root (store_view s)) (\<lambda>s. kv_events prs sky10_root (store_view s))"

definition mbx_lease :: "(bytes \<Rightarrow> json option) \<Rightarrow> Store \<Rightarrow> string \<Rightarrow> string \<Rightarrow> LeaseRecord option" where
  "mbx_lease prs = scoped_lease (\<lambda>s. kv_item prs sky10_root (store_view s))
     (\<lambda>s. kv_lease prs private_root (store_view s)) (\<lambda>s. kv_lease prs sky10_root (store_view s))"

definition mbx_inv :: "(bytes \<Rightarrow> json option) \<Rightarrow> nat \<Rightarrow> Store \<Rightarrow> bool" where
  "mbx_inv prs = scoped_inv (mail_inv store_inv store_view prs private_root) (mail_inv store_inv store_view prs sky10_root)
     (\<lambda>s. kv_item prs private_root (store_view s)) (\<lambda>s. kv_item prs sky10_root (store_view s))"

definition mbx_env_ok :: "kv_env mail_env calls \<Rightarrow> bool" where
  "mbx_env_ok = scoped_env_ok (mail_env_ok env_ok) mv_t3"

definition mbx_clock :: "kv_env mail_env calls \<Rightarrow> int" where
  "mbx_clock es = mv_t3 (es 2)"

definition mbx_run ::
  "(json \<Rightarrow> bytes option) \<Rightarrow> (bytes \<Rightarrow> json option) \<Rightarrow> Store mail_config \<Rightarrow> Store mail_config \<Rightarrow> bool" where
  "mbx_run txt prs = mail_run (store_mailbox txt prs) mbx_env_ok (\<lambda>es. mv_t2 (es 2)) mbx_clock item_wire_ok event_wire_ok
     (mbx_items prs) (mbx_events prs)"

text \<open>A run of a mailbox that has just been opened.\<close>

definition mbx_opened ::
  "(json \<Rightarrow> bytes option) \<Rightarrow> (bytes \<Rightarrow> json option) \<Rightarrow> nat \<Rightarrow> kv_env mail_env calls \<Rightarrow> Store \<Rightarrow> Store MailStore \<Rightarrow> bool" where
  "mbx_opened txt prs n e b s \<longleftrightarrow> mbx_inv prs n b \<and> mbx_env_ok e \<and>
     (\<forall>i. \<forall>x\<in>set (mbx_events prs b i). ev_Timestamp x \<le> mbx_clock e) \<and> mail_NewStore (store_mailbox txt prs) e b = Inr s"

lemmas mbx_defs = mbx_items_def mbx_events_def mbx_lease_def mbx_inv_def mbx_env_ok_def mbx_clock_def

interpretation mbx: mailbox_backend "store_mailbox (checked pr prs) prs" "mbx_inv prs" mbx_env_ok "\<lambda>es. mv_t2 (es 2)" mbx_clock
  item_wire_ok event_wire_ok "mbx_items prs" "mbx_events prs" "mbx_lease prs"
  for pr prs
  using mailbox.mailbox_backend_axioms [of pr prs]
  by (simp add: store_mailbox_eq mbx_items_def mbx_events_def mbx_lease_def mbx_inv_def [abs_def] mbx_env_ok_def [abs_def] mbx_clock_def [abs_def])

lemma mbx_run_agree:
  assumes "\<And>j d. doc_ok j \<Longrightarrow> pr j = Some d \<Longrightarrow> prs d = Some j" "mbx_opened pr prs n e b s" "mbx_run pr prs (n, mbx_clock e, s) (m, u, s')"
  shows "mbx_inv prs m (ms_backend s') \<and> agree (mbx_items prs) (mbx_events prs) (mbx_lease prs) u s'"
proof -
  have same: "checked pr prs = pr" by (rule checked_same [OF assms(1)])
  have o: "mbx_inv prs n b" "mbx_env_ok e" "\<forall>i. \<forall>x\<in>set (mbx_events prs b i). ev_Timestamp x \<le> mbx_clock e"
    "mail_NewStore (store_mailbox (checked pr prs) prs) e b = Inr s" using assms(2) by (auto simp: mbx_opened_def same)
  from mbx.NewStore_agree [OF o(1,2,4,3)]
  have "mbx_inv prs n (ms_backend s)" "agree (mbx_items prs) (mbx_events prs) (mbx_lease prs) (mbx_clock e) s" by auto
  with mbx.run_agree [of pr prs "(n, mbx_clock e, s)" "(m, u, s')"] assms(3) show ?thesis
    by (simp add: mbx_run_def same)
qed

section \<open>Examples\<close>

text \<open>An item in the mailbox of an empty store, with a printer for the documents written.\<close>

definition example_item :: Item where
  "example_item = zero_Item\<lparr>it_Kind := ItemKindTaskRequest, it_From := zero_Principal\<lparr>pn_ID := ''a''\<rparr>,
     it_TargetSkill := ''sum'', it_ExpiresAt := 20\<rparr>"

definition example_actor :: Principal where
  "example_actor = zero_Principal\<lparr>pn_ID := ''w''\<rparr>"

definition example_doc :: "nat \<Rightarrow> json" where
  "example_doc k = [
     JObj [(''id'', JString ''i''), (''kind'', JString ItemKindTaskRequest),
       (''from'', JObj [(''id'', JString ''a''), (''kind'', JString []), (''scope'', JString [])]),
       (''target_skill'', JString ''sum''), (''expires_at'', JTime 20), (''created_at'', JTime 5)],
     JObj [(''type'', JString EventTypeCreated),
       (''actor'', JObj [(''id'', JString ''a''), (''kind'', JString []), (''scope'', JString [])])],
     JObj [(''type'', JString EventTypeExpired),
       (''actor'', JObj [(''id'', JString ''system:mailbox''), (''kind'', JString PrincipalKindLocalAgent),
         (''scope'', JString ScopePrivateNetwork)])],
     JObj [(''type'', JString EventTypeApproved),
       (''actor'', JObj [(''id'', JString ''w''), (''kind'', JString []), (''scope'', JString [])]),
       (''meta'', JObj [(''decision_id'', JString ''d'')])],
     JObj [(''name'', JString ''aQ''), (''holder'', JString ''w''), (''token'', JString ''k''),
       (''acquired_at'', JTime 8), (''expires_at'', JTime 18)],
     JObj [(''type'', JString EventTypeClaimed),
       (''actor'', JObj [(''id'', JString ''w''), (''kind'', JString []), (''scope'', JString [])]),
       (''lease_id'', JString ''k''), (''meta'', JObj [(''queue'', JString ''skill:sum'')])]] ! k"

definition example_print :: "json \<Rightarrow> bytes option" where
  "example_print j = map_option (\<lambda>k. [k]) (find (\<lambda>k. j = example_doc (unat k)) [0, 1, 2, 3, 4, 5])"

definition example_parse :: "bytes \<Rightarrow> json option" where
  "example_parse d = (case d of [k] \<Rightarrow> if k < 6 then Some (example_doc (unat k)) else None | _ \<Rightarrow> None)"

definition example_call :: "int \<Rightarrow> kv_env mail_env calls" where
  "example_call t = (\<lambda>_. \<lparr>mv_kv = example_env, mv_t1 = t, mv_t2 = t, mv_t3 = t, mv_uuid = ''u'', mv_token = ''k''\<rparr>)"

definition example_calls :: "int \<Rightarrow> kv_env mail_env calls calls" where
  "example_calls t = (\<lambda>k. example_call (t + int (min k 9)))"

definition example_open :: "Store MailStore" where
  "example_open = (case mail_NewStore (store_mailbox example_print example_parse) (example_call 4) example_store of Inr s \<Rightarrow> s)"

definition example_created :: "Store MailStore" where
  "example_created = fst (mail_Create (store_mailbox example_print example_parse) (example_calls 5) 5 ''i'' example_item example_open)"

lemma example_text: "example_print j = Some d \<Longrightarrow> example_parse d = Some j"
  by (auto simp: example_print_def example_parse_def split: if_splits)

lemma example_record:
  "map_option (\<lambda>r. (rd_Item r, rd_Events r)) (mail_Get example_created ''i'') = Some (created_item 5 ''i'' example_item, [])"
  by code_simp

lemma example_shown: "map_option rd_Item (mail_Get example_created ''i'') = Some (created_item 5 ''i'' example_item)"
  using example_record by auto

lemma example_claim:
  "case snd (mail_Claim (store_mailbox example_print example_parse) (example_calls 8) ''i'' example_actor 10 example_created) of
     Inr (r, True) \<Rightarrow> True | _ \<Rightarrow> False"
  by code_simp

lemma example_env_ok: "0 \<le> t \<Longrightarrow> t < 2 ^ 63 \<Longrightarrow> mbx_env_ok (example_call t)" "mbx_clock (example_call t) = t"
  using example_store_inv(2) by (simp_all add: mbx_env_ok_def mbx_clock_def scoped_env_ok_def mail_env_ok_def example_call_def byte_in_def)

lemma example_store_empty: "store_view example_store k = None"
proof -
  have "snd (List_kv example_env [] example_store) = []" by code_simp
  then show ?thesis
    using List_law [OF example_store_inv, of "[]"] by (metis (mono_tags, lifting) empty_iff empty_set
        mem_Collect_eq prefix_bot.bot_least prod.collapse)
qed

lemma empty_wf: "(\<And>k. V k = None) \<Longrightarrow> wf_mail prs root V \<and> kv_item prs root V i = None \<and> kv_events prs root V i = []"
  by (simp add: wf_mail_def items_wf_def log_wf_def leases_wf_def kv_item_def kv_events_def kv_timeline_def log_keys_def Let_def)

lemma example_opened: "mbx_opened example_print example_parse 9 (example_call 4) example_store example_open"
proof -
  note empty = empty_wf [of "store_view example_store", OF example_store_empty, of example_parse]
  have inv: "mbx_inv example_parse 9 example_store" and evs: "mbx_events example_parse example_store i = []" for i
    using empty example_store_inv(1) by (simp_all add: mbx_inv_def scoped_inv_def mail_inv_def mbx_events_def scoped_events_def)
  have same: "checked example_print example_parse = example_print" by (rule checked_same [OF example_text])
  from mbx.NewStore_agree [OF inv example_env_ok(1) refl, of 4 example_print] evs
  obtain s where "mail_NewStore (store_mailbox example_print example_parse) (example_call 4) example_store = Inr s"
    by (auto simp: same)
  then show ?thesis using inv evs example_env_ok(1) [of 4] by (simp add: mbx_opened_def example_open_def)
qed

lemma example_calls_ok:
  assumes "0 \<le> t" "t < u" "u < 100"
  shows "calls_ok mbx_env_ok mbx_clock t (example_calls u)"
proof -
  have "mbx_env_ok (example_call (u + int (min k 9)))" for k using assms by (intro example_env_ok(1)) auto
  then show ?thesis using assms by (simp add: calls_ok_def example_calls_def example_env_ok(2))
qed

lemma example_open_empty: "mbx_items example_parse (ms_backend example_open) i = None"
proof -
  have o: "mbx_inv example_parse 9 example_store" "mbx_env_ok (example_call 4)"
    "mail_NewStore (store_mailbox (checked example_print example_parse) example_parse) (example_call 4) example_store = Inr example_open"
    "\<forall>i. \<forall>x\<in>set (mbx_events example_parse example_store i). ev_Timestamp x \<le> mbx_clock (example_call 4)"
    using example_opened by (auto simp: mbx_opened_def checked_same [OF example_text])
  have "mbx_items example_parse example_store i = None"
    using empty_wf [of "store_view example_store", OF example_store_empty] by (simp add: mbx_items_def scoped_items_def)
  then show ?thesis using mbx.NewStore_agree [OF o] by auto
qed

lemma example_run: "mbx_run example_print example_parse (9, 4, example_open) (4, 7, example_created)"
proof -
  let ?it = "created_item 5 ''i'' example_item"
  have ok: "item_wire_ok ?it" "it_ID ?it = ''i''" "event_wire_ok (new_Event ''i'' EventTypeCreated (it_From ?it) [] [] None)"
    by code_simp+
  have clock: "mbx_clock (example_calls 5 2) = 7" by (simp add: example_calls_def example_env_ok(2))
  obtain cr where "mail_Create (store_mailbox example_print example_parse) (example_calls 5) 5 ''i'' example_item example_open = (example_created, cr)"
    unfolding example_created_def by (metis prod.collapse)
  note call = this
  have "mail_run (store_mailbox example_print example_parse) mbx_env_ok (\<lambda>es. mv_t2 (es 2)) mbx_clock item_wire_ok event_wire_ok
      (mbx_items example_parse) (mbx_events example_parse) (9, 4, example_open) (4, mbx_clock (example_calls 5 2), example_created)"
    by (rule mail_run.create [where t = 4 and n = 4 and s = example_open and es = "example_calls 5" and it = ?it and now = 5 and
          newID = "''i''" and item = example_item])
       (use ok example_open_empty example_calls_ok [of 4 5] call in \<open>auto intro: mail_run.stop\<close>)
  then show ?thesis by (simp add: mbx_run_def clock)
qed

section \<open>What any run keeps\<close>





text \<open>
  C31. Claims exclude each other: after any sequence of operations, claiming an item on which an
  unexpired claim is shown does not succeed, and a claim that succeeds is shown afterwards as held by
  its actor, the item being \<open>claimed\<close> (even if it was in a terminal state before).
\<close>
theorem mailbox_claim_exclusive:
  assumes "\<And>j d. doc_ok j \<Longrightarrow> pr j = Some d \<Longrightarrow> prs d = Some j"
    and "mbx_opened pr prs n e b s" "mbx_run pr prs (n, mbx_clock e, s) (m + 2, u, s')"
    and "calls_ok mbx_env_ok mbx_clock u es" "utf8_valid (pn_ID actor)"
    and "\<And>tok it. utf8_valid tok \<Longrightarrow> mbx_items prs (ms_backend s') i = Some it \<Longrightarrow>
      event_wire_ok (new_Event i EventTypeClaimed actor tok [] (Some (fmupd ''queue'' (QueueName it) fmempty)))"
    and "mail_Claim (store_mailbox pr prs) es i actor ttl s' = (s2, res)"
  shows "(\<forall>r. mail_Get s' i = Some r \<and> live_claim (mbx_clock (es 0)) (rd_Claim r) \<noteq> None \<longrightarrow> (\<nexists>r'. res = Inr (r', True))) \<and>
    (\<forall>r'. res = Inr (r', True) \<longrightarrow> mail_Get s2 i = Some r' \<and> rd_State r' = StateClaimed \<and>
       (\<exists>c. rd_Claim r' = Some c \<and> cl_Holder c = pn_ID actor))"
proof -
  have same: "checked pr prs = pr" by (rule checked_same [OF assms(1)])
  have run: "mbx_inv prs (Suc (Suc m)) (ms_backend s')" "agree (mbx_items prs) (mbx_events prs) (mbx_lease prs) u s'"
    using mbx_run_agree [OF assms(1-3)] by simp_all
  have call: "mail_Claim (store_mailbox (checked pr prs) prs) es i actor ttl s' = (s2, res)" using assms(7) by (simp add: same)
  show ?thesis
    using mbx.claim_excluded [OF run(1) assms(4) run(2) assms(5) _ _ call]
      mbx.claim_shown [OF run(1) assms(4) run(2) assms(5,6)] call by blast
qed

theorem mailbox_claim_exclusive_witness:
  "let claimed = mail_Claim (store_mailbox example_print example_parse) (example_calls 8) ''i'' example_actor 10 example_created in
   \<exists>r. snd claimed = Inr (r, True) \<and> mail_Get (fst claimed) ''i'' = Some r \<and> rd_State r = StateClaimed"
proof -
  let ?claimed = "mail_Claim (store_mailbox example_print example_parse) (example_calls 8) ''i'' example_actor 10 example_created"
  have "agree (mbx_items example_parse) (mbx_events example_parse) (mbx_lease example_parse) 7 example_created"
    using mbx_run_agree [OF example_text example_opened] example_run by (simp add: example_env_ok(2))
  moreover obtain r where r: "mail_Get example_created ''i'' = Some r" "rd_Item r = created_item 5 ''i'' example_item" using example_shown by auto
  ultimately have it: "mbx_items example_parse (ms_backend example_created) ''i'' = Some (created_item 5 ''i'' example_item)"
    using agree_state(1,2) by (fastforce simp: durable_def)
  have "utf8_valid (pn_ID example_actor)" "principal_ok example_actor" "utf8_valid (QueueName (created_item 5 ''i'' example_item))"
    "utf8_valid EventTypeClaimed" "utf8_valid ''queue''"
    by code_simp+
  then have ev: "event_wire_ok (new_Event ''i'' EventTypeClaimed example_actor tok [] (Some (fmupd ''queue'' (QueueName it) fmempty)))"
    if "utf8_valid tok" "mbx_items example_parse (ms_backend example_created) ''i'' = Some it" for tok it
    using that it by (auto simp: event_wire_ok_def new_Event_def keys_utf8_iff list_all_iff set_fm_items split: if_splits)
  have run: "mbx_run example_print example_parse (9, mbx_clock (example_call 4), example_open) (2 + 2, 7, example_created)"
    using example_run by (simp add: example_env_ok(2))
  have "calls_ok mbx_env_ok mbx_clock 7 (example_calls 8)" by (rule example_calls_ok) simp_all
  from mailbox_claim_exclusive [OF example_text example_opened run this \<open>utf8_valid (pn_ID example_actor)\<close> ev prod.collapse [symmetric], of 10]
  show ?thesis using example_claim by (auto simp: Let_def split: sum.splits prod.splits bool.splits)
qed

end
