(* ===== verification/Mailbox_Sweep.thy ===== *)
theory Mailbox_Sweep
  imports Mailbox_Runs "HOL-Library.Multiset"
begin

text \<open>
  What a sweep of the mailbox (\<open>Sweep\<close> in \<open>pkg/agent/mailbox/lifecycle.go\<close>) leaves behind. The lemmas need
  only that a backend stamps the events it stores without changing them (the locale \<open>mailbox_stamps\<close>,
  interpreted on the daemon's backend) and that the index has every record below its own identifier.
\<close>

definition keyed :: "'b MailStore \<Rightarrow> bool" where
  "keyed s \<longleftrightarrow> (\<forall>i. it_ID (rs_item (state_at (ms_index s) i)) \<in> {[], i})"

text \<open>Nothing is left to do for a record at a time.\<close>

definition past_keeping :: "int \<Rightarrow> Record \<Rightarrow> bool" where
  "past_keeping now r \<longleftrightarrow> (let p = DefaultLifecyclePolicy (it_Kind (rd_Item r)) in
     shouldCompactDeliveredRecord now r p \<or> retention_over now r p)"

definition settled :: "int \<Rightarrow> Record \<Rightarrow> bool" where
  "settled now r \<longleftrightarrow> \<not> past_keeping now r \<and> (due now r \<longrightarrow> Terminal r \<or> hasRecordEvent r EventTypeExpired [] []) \<and>
     (rd_State r = StateFailed \<and> retries_exhausted r \<longrightarrow>
        hasRecordEvent r EventTypeDeadLettered ''reason'' ''retry_budget_exhausted'') \<and>
     (case rd_Claim r of None \<Rightarrow> True
      | Some c \<Rightarrow> now < cl_ExpiresAt c \<or> hasRecordEvent r EventTypeLeaseExpired ''lease_id'' (cl_Token c))"

text \<open>A later version of a record: the same item, a timeline that has grown.\<close>

definition extends :: "Record \<Rightarrow> Record \<Rightarrow> bool" where
  "extends r r' \<longleftrightarrow> rd_Item r' = rd_Item r \<and> prefix (rd_Events r) (rd_Events r')"

lemma extends_refl [simp]: "extends r r"
  by (simp add: extends_def)

lemma extends_trans: "extends r r' \<Longrightarrow> extends r' r'' \<Longrightarrow> extends r r''"
  by (auto simp: extends_def)

lemma extends_event: "extends r r' \<Longrightarrow> hasRecordEvent r t k v \<Longrightarrow> hasRecordEvent r' t k v"
  by (auto simp: extends_def hasRecordEvent_def prefix_def)

lemma extends_due: "extends r r' \<Longrightarrow> due now r' = due now r"
  by (simp add: extends_def due_def)

section \<open>The stages of a sweep\<close>

text \<open>Only the record of one item changes, and its item stays.\<close>

definition only :: "string \<Rightarrow> 'b MailStore \<Rightarrow> 'b MailStore \<Rightarrow> bool" where
  "only i s s' \<longleftrightarrow> (\<forall>j. j \<noteq> i \<longrightarrow> state_at (ms_index s') j = state_at (ms_index s) j)"

lemma only_refl [simp]: "only i s s" and only_backend [simp]: "only i s (s'\<lparr>ms_backend := b\<rparr>) = only i s s'"
  by (simp_all add: only_def)

lemma only_trans: "only i s s' \<Longrightarrow> only i s' s'' \<Longrightarrow> only i s s''"
  by (simp add: only_def)

lemma only_get: "only i s s' \<Longrightarrow> j \<noteq> i \<Longrightarrow> mail_Get s' j = mail_Get s j"
  by (simp add: only_def mail_Get_def index_get_state)

lemma keyed_only:
  assumes "keyed s" "only i s s'" "\<And>r. mail_Get s' i = Some r \<Longrightarrow> it_ID (rd_Item r) = i"
  shows "keyed s'"
proof -
  have "it_ID (rs_item (state_at (ms_index s') i)) \<in> {[], i}"
    using assms(3) [of "buildRecord (state_at (ms_index s') i)"]
    by (cases "it_ID (rs_item (state_at (ms_index s') i)) = []") (simp_all add: mail_Get_def index_get_state)
  with assms(1,2) show ?thesis by (metis keyed_def only_def)
qed

lemma keyed_get: "keyed s \<Longrightarrow> mail_Get s i = Some r \<Longrightarrow> it_ID (rd_Item r) = i \<and> i \<noteq> []"
  by (auto simp: keyed_def mail_Get_def index_get_state split: if_splits)

locale mailbox_stamps =
  fixes B :: "('e, 'b, 'err) Backend"
  assumes stamps: "be_AppendEvent B e ev b = (b', Inr st) \<Longrightarrow>
    ev_ItemID st = ev_ItemID ev \<and> ev_Type st = ev_Type ev \<and> ev_Meta st = ev_Meta ev"
begin

text \<open>An event appended to a record that is shown.\<close>

lemma AppendEvent_shows:
  assumes "mail_Get s (ev_ItemID ev) = Some r" "mail_AppendEvent B e ev s = (s', x)"
  shows "only (ev_ItemID ev) s s' \<and> (\<forall>r'. x = Inr r' \<longrightarrow> mail_Get s' (ev_ItemID ev) = Some r' \<and>
    (\<exists>st. ev_Type st = ev_Type ev \<and> ev_Meta st = ev_Meta ev \<and> r' = r\<lparr>rd_Events := rd_Events r @ [st],
      rd_State := deriveState (rd_Events r @ [st]) (rd_Claim r)\<rparr>))"
proof -
  obtain s1 y where y: "store_appendEvent B e ev s = (s1, y)" by fastforce
  have s1: "ms_index s1 = ms_index s"
    using y by (auto simp: store_appendEvent_def split: option.splits prod.splits)
  show ?thesis
  proof (cases y)
    case (Inl err)
    then show ?thesis using assms s1 y by (auto simp: mail_AppendEvent_def only_def split: if_splits)
  next
    case (Inr st)
    then have st: "ev_ItemID st = ev_ItemID ev" "ev_Type st = ev_Type ev" "ev_Meta st = ev_Meta ev"
      using y stamps by (fastforce simp: store_appendEvent_def split: option.splits prod.splits)+
    show ?thesis
      using assms s1 y Inr st
      by (auto simp: mail_AppendEvent_def only_def got_def mail_Get_def index_get_state buildRecord_def Let_def split: if_splits)
  qed
qed

lemma Release_shows:
  assumes "mail_Get s i = Some r" "mail_Release B e i holder token s = (s', x)"
  shows "only i s s' \<and> (\<exists>c \<in> {rd_Claim r, None}. mail_Get s' i = Some (r\<lparr>rd_Claim := c, rd_State := deriveState (rd_Events r) c\<rparr>))"
proof -
  have r: "rd_State r = deriveState (rd_Events r) (rd_Claim r)" "r = buildRecord (state_at (ms_index s) i)"
    "it_ID (rs_item (state_at (ms_index s) i)) \<noteq> []"
    using assms(1) by (auto simp: mail_Get_def index_get_state buildRecord_def split: if_splits)
  have "ms_index s' \<in> {ms_index s, clearClaim i (ms_index s)}"
    using assms(2) by (auto simp: mail_Release_def Let_def split: sum.splits prod.splits bool.splits)
  then show ?thesis using r by (auto simp: only_def mail_Get_def index_get_state buildRecord_def)
qed

lemma compact_shows:
  assumes "compactRecord B e r s = (s', x)"
  shows "only (it_ID (rd_Item r)) s s' \<and> (x = None \<longrightarrow> mail_Get s' (it_ID (rd_Item r)) = None)"
  using assms by (auto simp: compactRecord_def only_def mail_Get_def index_get_state index_delete_def split: prod.splits option.splits)

text \<open>
  The stages of \<open>sweepRecord\<close> read the record back, so that they hand on what is shown; each adds to the
  timeline the event that its check then finds.
\<close>

lemma shown_state: "mail_Get s i = Some r \<Longrightarrow> rd_State r = deriveState (rd_Events r) (rd_Claim r)"
  by (auto simp: mail_Get_def index_get_state buildRecord_def split: if_splits)

lemma shown_again: "mail_Get s i = Some r \<Longrightarrow> it_ID (rd_Item r) = i \<Longrightarrow> refreshed s r = r"
  by (simp add: refreshed_def)

lemma sweep_lease_shows:
  assumes "mail_Get s i = Some r" "it_ID (rd_Item r) = i" "sweep_lease B es now r res s = (s', res', Inr r')"
  shows "only i s s' \<and> mail_Get s' i = Some r' \<and> extends r r' \<and>
    (case rd_Claim r' of None \<Rightarrow> True
     | Some c \<Rightarrow> now < cl_ExpiresAt c \<or> hasRecordEvent r' EventTypeLeaseExpired ''lease_id'' (cl_Token c))"
proof (cases "\<exists>c. rd_Claim r = Some c \<and> \<not> now < cl_ExpiresAt c")
  case False
  then have "s' = s" "r' = r" using assms(3) by (auto simp: sweep_lease_def split: option.splits if_splits)
  then show ?thesis using False assms(1) by (auto split: option.split)
next
  case True
  then obtain c where c: "rd_Claim r = Some c" "\<not> now < cl_ExpiresAt c" by blast
  let ?ev = "new_Event i EventTypeLeaseExpired (lifecycleActor (item_Scope (rd_Item r))) (cl_Token c) []
    (Some (fmap_of_list [(''lease_id'', cl_Token c), (''queue'', QueueName (rd_Item r))]))"
  let ?has = "\<lambda>r. hasRecordEvent r EventTypeLeaseExpired ''lease_id'' (cl_Token c)"
  have "\<exists>s1 r1. only i s s1 \<and> mail_Get s1 i = Some r1 \<and> extends r r1 \<and> rd_Claim r1 = Some c \<and> ?has r1 \<and>
    (\<exists>x. mail_Release B (es 1) i (cl_Holder c) (cl_Token c) s1 = (s', Inr x)) \<and> r' = refreshed s' r"
  proof (cases "?has r")
    case True
    then show ?thesis using assms c
      by (intro exI [of _ s] exI [of _ r]) (auto simp: sweep_lease_def split: prod.splits sum.splits)
  next
    case False
    obtain s1 x where x: "mail_AppendEvent B (es 0) ?ev s = (s1, x)" by fastforce
    then obtain r1 where r1: "x = Inr r1"
      using assms(2,3) c False by (cases x) (auto simp: sweep_lease_def)
    from AppendEvent_shows [of s ?ev r, OF _ x] r1 assms(1) obtain st where
      one: "only i s s1" "mail_Get s1 i = Some r1" "ev_Type st = EventTypeLeaseExpired"
        "ev_Meta st = Some (fmap_of_list [(''lease_id'', cl_Token c), (''queue'', QueueName (rd_Item r))])"
        "r1 = r\<lparr>rd_Events := rd_Events r @ [st], rd_State := deriveState (rd_Events r @ [st]) (rd_Claim r)\<rparr>"
      by (auto simp: new_Event_def)
    then have "extends r r1" "rd_Claim r1 = Some c" "?has r1"
      using c by (simp_all add: extends_def hasRecordEvent_def meta_is_def fmap_of_list.rep_eq)
    with one(1,2) show ?thesis using assms(2,3) c False x r1
      by (intro exI [of _ s1] exI [of _ r1]) (auto simp: sweep_lease_def split: prod.splits sum.splits)
  qed
  then obtain s1 r1 x where s1: "only i s s1" "mail_Get s1 i = Some r1" "extends r r1" "rd_Claim r1 = Some c" "?has r1"
    "mail_Release B (es 1) i (cl_Holder c) (cl_Token c) s1 = (s', Inr x)" "r' = refreshed s' r" by blast
  from Release_shows [OF s1(2,6)] obtain d where d: "only i s1 s'" "d \<in> {rd_Claim r1, None}"
    "mail_Get s' i = Some (r1\<lparr>rd_Claim := d, rd_State := deriveState (rd_Events r1) d\<rparr>)" by blast
  then have r': "r' = r1\<lparr>rd_Claim := d, rd_State := deriveState (rd_Events r1) d\<rparr>"
    using s1(3,7) assms(2) by (simp add: refreshed_def)
  moreover have "extends r1 r'" by (simp add: r' extends_def)
  ultimately show ?thesis
    using d s1 only_trans [OF s1(1) d(1)] extends_trans [OF s1(3)] by (auto simp: hasRecordEvent_def split: option.split)
qed

lemma sweep_expiry_shows:
  assumes "mail_Get s i = Some r" "it_ID (rd_Item r) = i" "sweep_expiry B e now r res s = (s', res', Inr r')"
  shows "only i s s' \<and> mail_Get s' i = Some r' \<and> extends r r' \<and> rd_Claim r' = rd_Claim r \<and>
    (r' = r \<or> rd_State r' = StateExpired) \<and> (due now r' \<longrightarrow> Terminal r' \<or> hasRecordEvent r' EventTypeExpired [] [])"
proof (cases "Terminal r \<or> \<not> due now r \<or> hasRecordEvent r EventTypeExpired [] []")
  case True
  then have "s' = s" "r' = r" using assms by (auto simp: sweep_expiry_def refreshed_def split: if_splits)
  then show ?thesis using True assms(1) by auto
next
  case False
  let ?ev = "new_Event i EventTypeExpired (lifecycleActor (item_Scope (rd_Item r))) [] [] None"
  obtain s1 x where x: "mail_AppendEvent B e ?ev s = (s1, x)" by fastforce
  then obtain r1 where r1: "x = Inr r1" using assms(2,3) False by (cases x) (auto simp: sweep_expiry_def)
  from AppendEvent_shows [of s ?ev r, OF _ x] r1 assms(1) obtain st where
    one: "only i s s1" "mail_Get s1 i = Some r1" "ev_Type st = EventTypeExpired"
      "r1 = r\<lparr>rd_Events := rd_Events r @ [st], rd_State := deriveState (rd_Events r @ [st]) (rd_Claim r)\<rparr>"
    by (auto simp: new_Event_def)
  have "s' = s1" "r' = r1" using assms(2,3) False x r1 one(2) by (auto simp: sweep_expiry_def refreshed_def)
  then show ?thesis using one
    by (simp add: extends_def Terminal_def deriveState_def stateForEvent_def stateTerminal_def)
qed

lemma sweep_deadletter_shows:
  assumes "mail_Get s i = Some r" "it_ID (rd_Item r) = i" "sweep_deadletter B e r res s = (s', res', Inr r')"
  shows "only i s s' \<and> mail_Get s' i = Some r' \<and> extends r r' \<and> rd_Claim r' = rd_Claim r \<and>
    (r' = r \<or> rd_State r = StateFailed \<and> rd_State r' = StateDeadLettered) \<and>
    (rd_State r' = StateFailed \<and> retries_exhausted r' \<longrightarrow>
       hasRecordEvent r' EventTypeDeadLettered ''reason'' ''retry_budget_exhausted'')"
proof (cases "rd_State r \<noteq> StateFailed \<or> \<not> retries_exhausted r \<or>
    hasRecordEvent r EventTypeDeadLettered ''reason'' ''retry_budget_exhausted''")
  case True
  then have "s' = s" "r' = r" using assms by (auto simp: sweep_deadletter_def refreshed_def split: if_splits)
  then show ?thesis using True assms(1) by auto
next
  case False
  let ?ev = "new_Event i EventTypeDeadLettered (lifecycleActor (item_Scope (rd_Item r))) [] (latestFailureError r)
    (Some (fmap_of_list [(''reason'', ''retry_budget_exhausted''), (''attempts'', show_nat (deliveryFailureCount r))]))"
  obtain s1 x where x: "mail_AppendEvent B e ?ev s = (s1, x)" by fastforce
  then obtain r1 where r1: "x = Inr r1" using assms(2,3) False by (cases x) (auto simp: sweep_deadletter_def)
  from AppendEvent_shows [of s ?ev r, OF _ x] r1 assms(1) obtain st where
    one: "only i s s1" "mail_Get s1 i = Some r1" "ev_Type st = EventTypeDeadLettered"
      "r1 = r\<lparr>rd_Events := rd_Events r @ [st], rd_State := deriveState (rd_Events r @ [st]) (rd_Claim r)\<rparr>"
    by (auto simp: new_Event_def)
  have "s' = s1" "r' = r1" using assms(2,3) False x r1 one(2) by (auto simp: sweep_deadletter_def refreshed_def)
  then show ?thesis using one False
    by (simp add: extends_def deriveState_def stateForEvent_def stateTerminal_def)
qed

text \<open>What one record has become.\<close>

lemma sweepRecord_shows:
  assumes "mail_Get s i = Some r" "it_ID (rd_Item r) = i" "sweepRecord B es now r res s = (s', res', None)"
  shows "only i s s' \<and> (case mail_Get s' i of
      None \<Rightarrow> \<exists>r'. extends r r' \<and> past_keeping now r'
    | Some r' \<Rightarrow> extends r r' \<and> settled now r')"
proof -
  obtain s1 res1 x1 where x1: "sweep_lease B es now r res s = (s1, res1, x1)" by (metis prod_cases3)
  then obtain r1 where r1: "x1 = Inr r1" using assms(3) by (cases x1) (auto simp: sweepRecord_def)
  note one = sweep_lease_shows [OF assms(1,2) x1 [unfolded r1]]
  then have i1: "it_ID (rd_Item r1) = i" "rd_Item r1 = rd_Item r" using assms(2) by (simp_all add: extends_def)
  define p where "p = DefaultLifecyclePolicy (it_Kind (rd_Item r1))"
  show ?thesis
  proof (cases "shouldCompactDeliveredRecord now r1 p")
    case True
    then have "\<exists>e. compactRecord B e r1 s1 = (s', None)"
      using assms(3) x1 r1 by (auto simp: sweepRecord_def sweep_compact_def p_def split: prod.splits option.splits)
    then obtain e where "compactRecord B e r1 s1 = (s', None)" ..
    from compact_shows [OF this] one i1 True show ?thesis
      by (auto simp: past_keeping_def p_def intro: only_trans)
  next
    case False
    obtain s2 res2 x2 where x2: "sweep_expiry B (es 3) now r1 res1 s1 = (s2, res2, x2)" by (metis prod_cases3)
    then obtain r2 where r2: "x2 = Inr r2" using assms(3) x1 r1 False by (cases x2) (auto simp: sweepRecord_def p_def)
    note two = sweep_expiry_shows [OF _ i1(1) x2 [unfolded r2]]
    have "mail_Get s1 i = Some r1" using one by simp
    note two = two [OF this]
    then have i2: "it_ID (rd_Item r2) = i" "rd_Item r2 = rd_Item r" using i1 by (simp_all add: extends_def)
    obtain s3 res3 x3 where x3: "sweep_deadletter B (es 4) r2 res2 s2 = (s3, res3, x3)" by (metis prod_cases3)
    then obtain r3 where r3: "x3 = Inr r3" using assms(3) x1 r1 False x2 r2 by (cases x3) (auto simp: sweepRecord_def p_def)
    have "mail_Get s2 i = Some r2" using two by simp
    note three = sweep_deadletter_shows [OF this i2(1) x3 [unfolded r3]]
    then have i3: "it_ID (rd_Item r3) = i" "rd_Item r3 = rd_Item r" using i2 by (simp_all add: extends_def)
    have ext: "extends r r3" "extends r1 r3" "extends r2 r3" and on: "only i s s3"
      using one two three extends_trans only_trans by metis+
    have same: "r3 = r1 \<or> rd_State r3 = StateExpired \<or> rd_State r3 = StateDeadLettered"
      using two three by auto
    show ?thesis
    proof (cases "retention_over now r3 p")
      case True
      then have "compactRecord B (es 5) r3 s3 = (s', None)"
        using assms(3) x1 r1 False x2 r2 x3 r3 by (auto simp: sweepRecord_def sweep_compact_def p_def split: prod.splits option.splits)
      from compact_shows [OF this] on i3 ext(1) True i1(2) show ?thesis
        by (auto simp: past_keeping_def p_def intro: only_trans)
    next
      case keep: False
      then have s': "s' = s3" using assms(3) x1 r1 False x2 r2 x3 r3 by (simp add: sweepRecord_def p_def)
      have "\<not> shouldCompactDeliveredRecord now r3 p" using same False by (auto simp: shouldCompactDeliveredRecord_def)
      then have "\<not> past_keeping now r3" using keep i1(2) i3(2) by (simp add: past_keeping_def p_def)
      moreover have "due now r3 \<longrightarrow> Terminal r3 \<or> hasRecordEvent r3 EventTypeExpired [] []"
        using two three extends_event [OF ext(3)] extends_due [OF ext(3)]
        by (auto simp: Terminal_def stateTerminal_def)
      moreover have "case rd_Claim r3 of None \<Rightarrow> True
        | Some c \<Rightarrow> now < cl_ExpiresAt c \<or> hasRecordEvent r3 EventTypeLeaseExpired ''lease_id'' (cl_Token c)"
        using one two three extends_event [OF ext(2)] by (auto split: option.splits)
      ultimately have "settled now r3" using three by (simp add: settled_def)
      then show ?thesis using on ext(1) three s' by simp
    qed
  qed
qed

lemma sweep_records_show:
  assumes "sweep_records B ess now rs res s = (s', res', None)" "length ess = length rs" "keyed s"
    and "\<And>r. r \<in> set rs \<Longrightarrow> mail_Get s (it_ID (rd_Item r)) = Some r" "distinct (map (\<lambda>r. it_ID (rd_Item r)) rs)"
  shows "keyed s' \<and> (\<forall>i. i \<notin> (\<lambda>r. it_ID (rd_Item r)) ` set rs \<longrightarrow> mail_Get s' i = mail_Get s i) \<and>
    (\<forall>r\<in>set rs. case mail_Get s' (it_ID (rd_Item r)) of
       None \<Rightarrow> \<exists>r'. extends r r' \<and> past_keeping now r'
     | Some r' \<Rightarrow> extends r r' \<and> settled now r')"
  using assms
proof (induction ess rs arbitrary: s res rule: list_induct2')
  case (4 es ess r rs)
  let ?i = "it_ID (rd_Item r)"
  obtain s1 res1 where s1: "sweepRecord B es now r res s = (s1, res1, None)"
    and rest: "sweep_records B ess now rs res1 s1 = (s', res', None)"
    using "4.prems"(1) by (auto split: prod.splits option.splits)
  have "mail_Get s ?i = Some r" using "4.prems"(4) by simp
  note one = sweepRecord_shows [OF this refl s1]
  have k: "keyed s1"
    using one by (intro keyed_only [OF "4.prems"(3)]) (auto simp: extends_def split: option.splits)
  have "mail_Get s1 (it_ID (rd_Item r')) = Some r'" if "r' \<in> set rs" for r'
  proof -
    have "it_ID (rd_Item r') \<noteq> ?i" using that "4.prems"(5) by (auto simp: image_iff)
    with only_get [OF conjunct1 [OF one]] "4.prems"(4) [of r'] that show ?thesis by simp
  qed
  then have ih: "keyed s' \<and> (\<forall>i. i \<notin> (\<lambda>r. it_ID (rd_Item r)) ` set rs \<longrightarrow> mail_Get s' i = mail_Get s1 i) \<and>
    (\<forall>r\<in>set rs. case mail_Get s' (it_ID (rd_Item r)) of
       None \<Rightarrow> \<exists>r'. extends r r' \<and> past_keeping now r'
     | Some r' \<Rightarrow> extends r r' \<and> settled now r')"
    using "4.IH" [OF rest _ k] "4.prems"(2,5) by simp
  then have "mail_Get s' ?i = mail_Get s1 ?i" using "4.prems"(5) by simp
  with ih one only_get [OF conjunct1 [OF one]] show ?case by simp
qed simp_all

text \<open>The records of the index, each once.\<close>

lemma keyed_records: "keyed s \<Longrightarrow> distinct (map (\<lambda>r. it_ID (rd_Item r)) (index_records (ms_index s)))"
proof -
  assume k: "keyed s"
  let ?items = "filter (\<lambda>(_, s). it_ID (rs_item s) \<noteq> []) (fm_items (ms_index s))"
  have "it_ID (rs_item x) = i" if "(i, x) \<in> set ?items" for i x
  proof -
    have "state_at (ms_index s) i = x" "it_ID (rs_item x) \<noteq> []" using that by (auto simp: set_fm_items state_at_def)
    then show ?thesis using k by (auto simp: keyed_def)
  qed
  then have "map (\<lambda>r. it_ID (rd_Item r)) (index_records (ms_index s)) = map fst ?items"
    by (auto simp: index_records_def)
  then show ?thesis using fm_items_distinct [of "ms_index s"] by (simp add: distinct_map_filter)
qed

lemma listed_records:
  assumes "keyed s"
  shows "r \<in> set (listMatching (\<lambda>_. True) s) \<longleftrightarrow> mail_Get s (it_ID (rd_Item r)) = Some r"
    "distinct (map (\<lambda>r. it_ID (rd_Item r)) (listMatching (\<lambda>_. True) s))"
proof -
  have "r \<in> set (listMatching (\<lambda>_. True) s) \<longleftrightarrow> (\<exists>i. mail_Get s i = Some r)"
    by (simp add: listMatching_def index_list_def index_records_set mail_Get_def)
  then show "r \<in> set (listMatching (\<lambda>_. True) s) \<longleftrightarrow> mail_Get s (it_ID (rd_Item r)) = Some r"
    using keyed_get [OF assms] by auto
  have "mset (map (\<lambda>r. it_ID (rd_Item r)) (listMatching (\<lambda>_. True) s)) = mset (map (\<lambda>r. it_ID (rd_Item r)) (index_records (ms_index s)))"
    by (simp add: listMatching_def index_list_def)
  then show "distinct (map (\<lambda>r. it_ID (rd_Item r)) (listMatching (\<lambda>_. True) s))"
    using keyed_records [OF assms] mset_eq_imp_distinct_iff by blast
qed

lemma Sweep_shows:
  assumes "keyed s" "Sweep B ess now s = (s', res, None)"
  shows "keyed s' \<and> (case mail_Get s i of
      None \<Rightarrow> mail_Get s' i = None
    | Some r \<Rightarrow> (case mail_Get s' i of
        None \<Rightarrow> \<exists>r'. extends r r' \<and> past_keeping now r'
      | Some r' \<Rightarrow> extends r r' \<and> settled now r'))"
proof -
  let ?rs = "listMatching (\<lambda>_. True) s"
  have "sweep_records B (map ess [0..<length ?rs]) now ?rs
      \<lparr>sw_Expired = 0, sw_LeaseExpired = 0, sw_DeadLettered = 0, sw_Compacted = 0\<rparr> s = (s', res, None)"
    using assms(2) by (simp add: Sweep_def Let_def)
  from sweep_records_show [OF this _ assms(1) _ listed_records(2) [OF assms(1)]]
  have res: "keyed s'" "\<And>i. i \<notin> (\<lambda>r. it_ID (rd_Item r)) ` set ?rs \<Longrightarrow> mail_Get s' i = mail_Get s i"
    "\<And>r. r \<in> set ?rs \<Longrightarrow> case mail_Get s' (it_ID (rd_Item r)) of
       None \<Rightarrow> \<exists>r'. extends r r' \<and> past_keeping now r' | Some r' \<Rightarrow> extends r r' \<and> settled now r'"
    using listed_records(1) [OF assms(1)] by auto
  show ?thesis
  proof (cases "mail_Get s i")
    case None
    then have "i \<notin> (\<lambda>r. it_ID (rd_Item r)) ` set ?rs" using listed_records(1) [OF assms(1)] by auto
    then show ?thesis using None res(1,2) by simp
  next
    case (Some r)
    then have "r \<in> set ?rs" "it_ID (rd_Item r) = i" using keyed_get [OF assms(1)] listed_records(1) [OF assms(1)] by auto
    then show ?thesis using Some res(1) res(3) [of r] by simp
  qed
qed

text \<open>A sweep with nothing to do does nothing.\<close>

lemma idle_record:
  assumes "mail_Get s (it_ID (rd_Item r)) = Some r" "settled now r" "live_claim now (rd_Claim r) = rd_Claim r"
  shows "sweepRecord B es now r res s = (s, res, None)"
proof -
  have "sweep_lease B es now r res s = (s, res, Inr r)"
    using assms(3) by (auto simp: sweep_lease_def live_claim_def split: option.splits if_splits)
  moreover have "sweep_expiry B e now r res s = (s, res, Inr r)" "sweep_deadletter B e r res s = (s, res, Inr r)" for e
    using assms(1,2) by (auto simp: sweep_expiry_def sweep_deadletter_def settled_def refreshed_def)
  ultimately show ?thesis
    using assms(2) by (simp add: sweepRecord_def settled_def past_keeping_def Let_def)
qed

lemma idle_records:
  "(\<And>r. r \<in> set rs \<Longrightarrow> mail_Get s (it_ID (rd_Item r)) = Some r \<and> settled now r \<and> live_claim now (rd_Claim r) = rd_Claim r) \<Longrightarrow>
   sweep_records B ess now rs res s = (s, res, None)"
  by (induction ess rs rule: list_induct2') (simp_all add: idle_record)

end

section \<open>The daemon's mailbox\<close>

interpretation swept: mailbox_stamps "store_mailbox pr prs" for pr prs
  by unfold_locales
     (auto simp: store_mailbox_def NewScopedKVBackend_def NewPrivateKVBackend_def ScopedKVBackend_def on_owner_def backendForItem_def
        PrivateKVBackend_def kv_AppendEvent_def Let_def split: prod.splits sum.splits option.splits bool.splits if_splits)

text \<open>Loading gives an index by identifier, and every operation keeps it.\<close>

lemma keyed_index: "ms_index s' = ms_index s \<Longrightarrow> keyed s' = keyed s"
  by (simp add: keyed_def)

lemma keyed_loaded: "keyed \<lparr>ms_backend = b, ms_index = newRecordIndex sp\<rparr>"
proof -
  have "it_ID (last (filter (\<lambda>it. it_ID it = i) xs)) = i" if "\<exists>it\<in>set xs. it_ID it = i" for i xs
    using last_in_set [of "filter (\<lambda>it. it_ID it = i) xs"] that by (auto simp: filter_empty_conv)
  then show ?thesis by (auto simp: keyed_def state_at_loaded state_at_items fresh_state_def zero_Item_def Let_def)
qed

lemma keyed_Reload: "keyed s \<Longrightarrow> keyed (fst (Reload B e s))"
  using keyed_loaded by (auto simp: Reload_def keyed_def split: prod.splits sum.splits)

lemma keyed_NewStore: "mail_NewStore B e b = Inr s \<Longrightarrow> keyed s"
  using keyed_Reload [of "\<lparr>ms_backend = b, ms_index = fmempty\<rparr>" B e]
  by (auto simp: mail_NewStore_def keyed_def fresh_state_def zero_Item_def split: prod.splits option.splits)

lemma keyed_setters [simp]:
  assumes "keyed s"
  shows "keyed (s\<lparr>ms_backend := b\<rparr>)" "keyed (s\<lparr>ms_backend := b, ms_index := index_appendEvent i ev (ms_index s)\<rparr>)"
    "keyed (s\<lparr>ms_index := index_appendEvent i ev (ms_index s)\<rparr>)"
    "keyed (s\<lparr>ms_backend := b, ms_index := setClaim c (ms_index s)\<rparr>)"
    "keyed (s\<lparr>ms_backend := b, ms_index := clearClaim i (ms_index s)\<rparr>)"
    "keyed (s\<lparr>ms_backend := b, ms_index := upsertItem it (ms_index s)\<rparr>)"
    "keyed (s\<lparr>ms_backend := b, ms_index := index_delete i (ms_index s)\<rparr>)"
  using assms by (auto simp: keyed_def index_delete_def fresh_state_def zero_Item_def)

lemma keyed_store_appendEvent: "keyed s \<Longrightarrow> keyed (fst (store_appendEvent B e ev s))"
  by (auto simp: store_appendEvent_def split: option.splits prod.splits)

lemma keyed_AppendEvent: "keyed s \<Longrightarrow> keyed (fst (mail_AppendEvent B e ev s))"
  using keyed_store_appendEvent [of s B e ev]
  by (auto simp: mail_AppendEvent_def Let_def split: option.splits prod.splits sum.splits)

lemma keyed_Create: "keyed s \<Longrightarrow> keyed (fst (mail_Create B es now newID item s))"
proof -
  assume k: "keyed s"
  let ?it = "created_item now newID item"
  let ?ev = "new_Event (it_ID ?it) EventTypeCreated (it_From ?it) [] [] None"
  obtain b x where x: "be_CreateItem B (es 0) ?it (ms_backend s) = (b, x)" by fastforce
  define s1 where "s1 = s\<lparr>ms_backend := b, ms_index := upsertItem ?it (ms_index s)\<rparr>"
  obtain s2 y where y: "store_appendEvent B (es 1) ?ev s1 = (s2, y)" by fastforce
  have "keyed s2" using keyed_store_appendEvent [of s1 B "es 1" ?ev] k y by (simp add: s1_def)
  then show ?thesis using k keyed_Reload [of s2 B "es 2"] x y
    by (auto simp: mail_Create_def Let_def s1_def [symmetric] split: option.splits sum.splits)
qed

lemma keyed_Claim: "keyed s \<Longrightarrow> keyed (fst (mail_Claim B es i actor ttl s))"
proof -
  assume k: "keyed s"
  have "keyed (fst (mail_AppendEvent B e ev (s\<lparr>ms_backend := b, ms_index := setClaim c (ms_index s)\<rparr>)))" for b c e ev
    using k by (intro keyed_AppendEvent) simp
  then have app: "keyed s2" if "mail_AppendEvent B e ev (s\<lparr>ms_backend := b, ms_index := setClaim c (ms_index s)\<rparr>) = (s2, y)" for b c e ev s2 y
    by (metis that fst_conv)
  show ?thesis using k
    by (auto simp: mail_Claim_def Let_def split: option.splits prod.splits sum.splits bool.splits dest!: app intro: keyed_Reload)
qed

lemma keyed_lease_ops:
  "keyed s \<Longrightarrow> keyed (fst (mail_Release B e i holder token s))" "keyed s \<Longrightarrow> keyed (fst (mail_Renew B e i holder token ttl s))"
  "keyed s \<Longrightarrow> keyed (fst (compactRecord B e r s))"
  by (auto simp: mail_Release_def mail_Renew_def compactRecord_def Let_def split: option.splits prod.splits sum.splits bool.splits)

lemma keyed_run:
  assumes "mail_run B ok start clk item_ok event_ok items events c c'" "keyed (snd (snd c))"
  shows "keyed (snd (snd c'))"
  using assms
proof (induction rule: mail_run.induct)
  case (append n t s e ev s' ar)
  then show ?case using keyed_AppendEvent [of s B e ev] by simp
next
  case (create n t s es it now newID item s' cr)
  then show ?case using keyed_Create [of s B es now newID item] by simp
next
  case (claim n t s es actor i ttl s' cl)
  then show ?case using keyed_Claim [of s B es i actor ttl] by simp
next
  case (release n t s e i holder token s' rl)
  then show ?case using keyed_lease_ops(1) [of s B e i holder token] by simp
next
  case (renew n t s e ttl i holder token s' rn)
  then show ?case using keyed_lease_ops(2) [of s B e i holder token ttl] by simp
next
  case (reload n t s e s' er)
  then show ?case using keyed_Reload [of s B e] by simp
next
  case (compact n s r t e s')
  then show ?case using keyed_lease_ops(3) [of s B e r] by simp
qed simp


lemma example_sweep:
  "case Sweep (store_mailbox example_print example_parse) (\<lambda>_. example_calls 21) 20 example_created of
     (_, res, err) \<Rightarrow> sw_Expired res = 1 \<and> err = None"
  by code_simp


end
