(* ===== verification/Mailbox_Workflow.thy ===== *)
theory Mailbox_Workflow
  imports Mailbox_Sweep
begin

text \<open>
  Workflows on mailbox items (\<open>pkg/agent/mailbox/workflow.go\<close>): task and approval requests with
  idempotency keys, decisions, and the payment flow of quote, proof, result and receipt. Payloads are
  records with the JSON form of their struct; \<open>json.RawMessage\<close> fields hold documents. The checks of an
  operation that read the store only are one definition that returns the item to create; the calls that
  change it are in the operation itself.
\<close>

section \<open>Payloads\<close>

text \<open>The first of some fields that is blank.\<close>

fun first_blank :: "(string \<times> string) list \<Rightarrow> 'err mail_error option" where
  "first_blank [] = None"
| "first_blank ((f, v) # fs) = (if TrimSpace v = [] then Some (PayloadInvalid f) else first_blank fs)"

record TaskRequestPayload =
  tp_Method :: string
  tp_Params :: "json option"
  tp_Summary :: string

definition Task_Validate :: "TaskRequestPayload \<Rightarrow> 'err mail_error option" where
  "Task_Validate p = first_blank [(''method'', tp_Method p)]"

definition task_to_json :: "TaskRequestPayload \<Rightarrow> json" where
  "task_to_json p = JObj ([(''method'', jstr (tp_Method p))] @ omit_ptr ''params'' id (tp_Params p) @ omit_string ''summary'' (tp_Summary p))"

record ApprovalRequestPayload =
  ap_Action :: string
  ap_Summary :: string
  ap_Details :: "json option"

definition Approval_Validate :: "ApprovalRequestPayload \<Rightarrow> 'err mail_error option" where
  "Approval_Validate p = first_blank [(''action'', ap_Action p), (''summary'', ap_Summary p)]"

definition approval_to_json :: "ApprovalRequestPayload \<Rightarrow> json" where
  "approval_to_json p = JObj ([(''action'', jstr (ap_Action p)), (''summary'', jstr (ap_Summary p))]
     @ omit_ptr ''details'' id (ap_Details p))"

record PaymentRequiredPayload =
  pq_Method :: string
  pq_Amount :: string
  pq_Asset :: string
  pq_Chain :: string
  pq_Address :: string
  pq_Nonce :: string

definition Required_Validate :: "PaymentRequiredPayload \<Rightarrow> 'err mail_error option" where
  "Required_Validate p = first_blank [(''method'', pq_Method p), (''amount'', pq_Amount p), (''asset'', pq_Asset p),
     (''chain'', pq_Chain p), (''address'', pq_Address p), (''nonce'', pq_Nonce p)]"

definition required_to_json :: "PaymentRequiredPayload \<Rightarrow> json" where
  "required_to_json p = JObj [(''method'', jstr (pq_Method p)), (''amount'', jstr (pq_Amount p)), (''asset'', jstr (pq_Asset p)),
     (''chain'', jstr (pq_Chain p)), (''address'', jstr (pq_Address p)), (''nonce'', jstr (pq_Nonce p))]"

definition required_of_fields :: "(string \<times> json) list \<Rightarrow> PaymentRequiredPayload option" where
  "required_of_fields obj = do {
     m \<leftarrow> dec_string (jget obj ''method'');
     a \<leftarrow> dec_string (jget obj ''amount'');
     as \<leftarrow> dec_string (jget obj ''asset'');
     c \<leftarrow> dec_string (jget obj ''chain'');
     ad \<leftarrow> dec_string (jget obj ''address'');
     n \<leftarrow> dec_string (jget obj ''nonce'');
     Some \<lparr>pq_Method = m, pq_Amount = a, pq_Asset = as, pq_Chain = c, pq_Address = ad, pq_Nonce = n\<rparr> }"

record PaymentProofPayload =
  pp_SignedTx :: string
  pp_Chain :: string
  pp_Amount :: string
  pp_Nonce :: string

definition Proof_Validate :: "PaymentProofPayload \<Rightarrow> 'err mail_error option" where
  "Proof_Validate p = first_blank [(''signed_tx'', pp_SignedTx p), (''chain'', pp_Chain p), (''amount'', pp_Amount p),
     (''nonce'', pp_Nonce p)]"

definition proof_to_json :: "PaymentProofPayload \<Rightarrow> json" where
  "proof_to_json p = JObj [(''signed_tx'', jstr (pp_SignedTx p)), (''chain'', jstr (pp_Chain p)), (''amount'', jstr (pp_Amount p)),
     (''nonce'', jstr (pp_Nonce p))]"

definition proof_of_fields :: "(string \<times> json) list \<Rightarrow> PaymentProofPayload option" where
  "proof_of_fields obj = do {
     t \<leftarrow> dec_string (jget obj ''signed_tx'');
     c \<leftarrow> dec_string (jget obj ''chain'');
     a \<leftarrow> dec_string (jget obj ''amount'');
     n \<leftarrow> dec_string (jget obj ''nonce'');
     Some \<lparr>pp_SignedTx = t, pp_Chain = c, pp_Amount = a, pp_Nonce = n\<rparr> }"

record ReceiptPayload =
  rc_TxHash :: string
  rc_Caller :: string
  rc_Provider :: string
  rc_Method :: string
  rc_Amount :: string
  rc_Chain :: string
  rc_Nonce :: string
  rc_CallerRating :: int
  rc_ProviderRating :: int
  rc_CallerSignature :: string
  rc_ProviderSignature :: string

definition Receipt_Validate :: "ReceiptPayload \<Rightarrow> 'err mail_error option" where
  "Receipt_Validate p = first_blank [(''caller'', rc_Caller p), (''provider'', rc_Provider p), (''method'', rc_Method p),
     (''amount'', rc_Amount p), (''chain'', rc_Chain p), (''nonce'', rc_Nonce p)]"

definition receipt_to_json :: "ReceiptPayload \<Rightarrow> json" where
  "receipt_to_json p = JObj (omit_string ''tx_hash'' (rc_TxHash p)
     @ [(''caller'', jstr (rc_Caller p)), (''provider'', jstr (rc_Provider p)), (''method'', jstr (rc_Method p)),
        (''amount'', jstr (rc_Amount p)), (''chain'', jstr (rc_Chain p)), (''nonce'', jstr (rc_Nonce p))]
     @ omit_int ''caller_rating'' (rc_CallerRating p) @ omit_int ''provider_rating'' (rc_ProviderRating p)
     @ omit_string ''caller_signature'' (rc_CallerSignature p) @ omit_string ''provider_signature'' (rc_ProviderSignature p))"

definition receipt_of_fields :: "(string \<times> json) list \<Rightarrow> ReceiptPayload option" where
  "receipt_of_fields obj = do {
     h \<leftarrow> dec_string (jget obj ''tx_hash'');
     ca \<leftarrow> dec_string (jget obj ''caller'');
     pv \<leftarrow> dec_string (jget obj ''provider'');
     m \<leftarrow> dec_string (jget obj ''method'');
     a \<leftarrow> dec_string (jget obj ''amount'');
     c \<leftarrow> dec_string (jget obj ''chain'');
     n \<leftarrow> dec_string (jget obj ''nonce'');
     cr \<leftarrow> dec_int (jget obj ''caller_rating'');
     pr \<leftarrow> dec_int (jget obj ''provider_rating'');
     cs \<leftarrow> dec_string (jget obj ''caller_signature'');
     ps \<leftarrow> dec_string (jget obj ''provider_signature'');
     Some \<lparr>rc_TxHash = h, rc_Caller = ca, rc_Provider = pv, rc_Method = m, rc_Amount = a, rc_Chain = c, rc_Nonce = n,
       rc_CallerRating = cr, rc_ProviderRating = pr, rc_CallerSignature = cs, rc_ProviderSignature = ps\<rparr> }"

record ResultPayload =
  rp_Data :: "json option"
  rp_Receipt :: ReceiptPayload

definition Result_Validate :: "ResultPayload \<Rightarrow> 'err mail_error option" where
  "Result_Validate p = (case Receipt_Validate (rp_Receipt p) of
      Some err \<Rightarrow> Some err
    | None \<Rightarrow> first_blank [(''provider_signature'', rc_ProviderSignature (rp_Receipt p))])"

definition result_to_json :: "ResultPayload \<Rightarrow> json" where
  "result_to_json p = JObj (omit_ptr ''data'' id (rp_Data p) @ [(''receipt'', receipt_to_json (rp_Receipt p))])"

definition result_of_fields :: "(string \<times> json) list \<Rightarrow> ResultPayload option" where
  "result_of_fields obj = do {
     r \<leftarrow> struct_of receipt_of_fields (jget obj ''receipt'');
     Some \<lparr>rp_Data = jget obj ''data'', rp_Receipt = r\<rparr> }"

text \<open>\<open>json.Unmarshal\<close> of an inline payload: nothing to read is an error.\<close>

definition unmarshal :: "((string \<times> json) list \<Rightarrow> 'p option) \<Rightarrow> json option \<Rightarrow> 'p option" where
  "unmarshal f payload = (case payload of None \<Rightarrow> None | Some j \<Rightarrow> struct_of f (Some j))"

section \<open>Creating workflow items\<close>

definition findDuplicateWorkflowItem :: "Item \<Rightarrow> 'b MailStore \<Rightarrow> Record option" where
  "findDuplicateWorkflowItem item s =
     (if TrimSpace (it_IdempotencyKey item) = [] then None
      else findFirstMatching (\<lambda>r. it_Kind (rd_Item r) = it_Kind item \<and> it_RequestID (rd_Item r) = it_RequestID item \<and>
        it_IdempotencyKey (rd_Item r) = it_IdempotencyKey item) s)"

definition workflowItemEquivalent :: "Item \<Rightarrow> Item \<Rightarrow> bool" where
  "workflowItemEquivalent existing candidate \<longleftrightarrow>
     it_Kind existing = it_Kind candidate \<and> it_RequestID existing = it_RequestID candidate \<and>
     it_ReplyTo existing = it_ReplyTo candidate \<and> it_IdempotencyKey existing = it_IdempotencyKey candidate \<and>
     pn_ID (it_From existing) = pn_ID (it_From candidate) \<and>
     map_option pn_ID (it_To existing) = map_option pn_ID (it_To candidate)"

definition createWorkflowItem ::
  "('e, 'b, 'err) Backend \<Rightarrow> 'e calls \<Rightarrow> int \<Rightarrow> string \<Rightarrow> Item \<Rightarrow> json \<Rightarrow> 'b MailStore \<Rightarrow> 'b MailStore \<times> ('err mail_error + Record)" where
  "createWorkflowItem B es now newID item0 payload s = (case Principal_Validate (it_From item0) of
      Some err \<Rightarrow> (s, Inl err)
    | None \<Rightarrow> (let item = item0\<lparr>it_PayloadInline := Some payload\<rparr> in
        case findDuplicateWorkflowItem item s of
          Some existing \<Rightarrow>
            if \<not> workflowItemEquivalent (rd_Item existing) item then (s, Inl KeyReused)
            else if it_PayloadInline (rd_Item existing) \<noteq> Some payload then (s, Inl KeyReused)
            else (s, Inr existing)
        | None \<Rightarrow> mail_Create B es now newID item s))"

text \<open>The checks of task, approval and payment requests, in the order of the code.\<close>

definition request_item :: "string \<Rightarrow> 'err mail_error option \<Rightarrow> Item \<Rightarrow> 'err mail_error + Item" where
  "request_item kind invalid item = (case invalid of
      Some err \<Rightarrow> Inl err
    | None \<Rightarrow>
        if TrimSpace (it_RequestID item) = [] then Inl RequestIDRequired
        else if TrimSpace (it_IdempotencyKey item) = [] then Inl IdempotencyKeyRequired
        else Inr (item\<lparr>it_Kind := kind\<rparr>))"

definition create_checked ::
  "('e, 'b, 'err) Backend \<Rightarrow> 'e calls \<Rightarrow> int \<Rightarrow> string \<Rightarrow> 'err mail_error + Item \<Rightarrow> json \<Rightarrow> 'b MailStore
    \<Rightarrow> 'b MailStore \<times> ('err mail_error + Record)" where
  "create_checked B es now newID checked_item payload s = (case checked_item of
      Inl err \<Rightarrow> (s, Inl err) | Inr item \<Rightarrow> createWorkflowItem B es now newID item payload s)"

definition CreateTaskRequest ::
  "('e, 'b, 'err) Backend \<Rightarrow> 'e calls \<Rightarrow> int \<Rightarrow> string \<Rightarrow> Item \<Rightarrow> TaskRequestPayload \<Rightarrow> 'b MailStore
    \<Rightarrow> 'b MailStore \<times> ('err mail_error + Record)" where
  "CreateTaskRequest B es now newID item payload =
     create_checked B es now newID (request_item ItemKindTaskRequest (Task_Validate payload) item) (task_to_json payload)"

definition CreateApprovalRequest ::
  "('e, 'b, 'err) Backend \<Rightarrow> 'e calls \<Rightarrow> int \<Rightarrow> string \<Rightarrow> Item \<Rightarrow> ApprovalRequestPayload \<Rightarrow> 'b MailStore
    \<Rightarrow> 'b MailStore \<times> ('err mail_error + Record)" where
  "CreateApprovalRequest B es now newID item payload =
     create_checked B es now newID (request_item ItemKindApprovalRequest (Approval_Validate payload) item) (approval_to_json payload)"

definition CreatePaymentRequired ::
  "('e, 'b, 'err) Backend \<Rightarrow> 'e calls \<Rightarrow> int \<Rightarrow> string \<Rightarrow> Item \<Rightarrow> PaymentRequiredPayload \<Rightarrow> 'b MailStore
    \<Rightarrow> 'b MailStore \<times> ('err mail_error + Record)" where
  "CreatePaymentRequired B es now newID item payload =
     create_checked B es now newID (request_item ItemKindPaymentRequired (Required_Validate payload) item) (required_to_json payload)"

section \<open>Decisions\<close>

definition applyTerminalEvent ::
  "('e, 'b, 'err) Backend \<Rightarrow> 'e \<Rightarrow> string \<Rightarrow> Principal \<Rightarrow> string \<Rightarrow> string \<Rightarrow> string \<Rightarrow> 'b MailStore
    \<Rightarrow> 'b MailStore \<times> ('err mail_error + Record)" where
  "applyTerminalEvent B e itemID actor token eventType conflicting s =
     (if TrimSpace token = [] then (s, Inl TokenRequired)
      else case mail_Get s itemID of
        None \<Rightarrow> (s, Inl (ItemNotFound itemID))
      | Some r \<Rightarrow> (case find (\<lambda>ev. ev_Type ev = eventType \<or> ev_Type ev = conflicting) (rd_Events r) of
          Some ev \<Rightarrow> if ev_Type ev = eventType then (s, Inr r) else (s, Inl (AlreadyDecided conflicting))
        | None \<Rightarrow> mail_AppendEvent B e (new_Event itemID eventType actor [] []
            (Some (fmupd ''decision_id'' token fmempty))) s))"

definition CompleteTaskRequest ::
  "('e, 'b, 'err) Backend \<Rightarrow> 'e \<Rightarrow> string \<Rightarrow> Principal \<Rightarrow> string \<Rightarrow> 'b MailStore \<Rightarrow> 'b MailStore \<times> ('err mail_error + Record)" where
  "CompleteTaskRequest B e itemID actor completionID =
     applyTerminalEvent B e itemID actor completionID EventTypeCompleted EventTypeCancelled"

definition mail_Approve ::
  "('e, 'b, 'err) Backend \<Rightarrow> 'e \<Rightarrow> string \<Rightarrow> Principal \<Rightarrow> string \<Rightarrow> 'b MailStore \<Rightarrow> 'b MailStore \<times> ('err mail_error + Record)" where
  "mail_Approve B e itemID actor decisionID = applyTerminalEvent B e itemID actor decisionID EventTypeApproved EventTypeRejected"

definition mail_Reject ::
  "('e, 'b, 'err) Backend \<Rightarrow> 'e \<Rightarrow> string \<Rightarrow> Principal \<Rightarrow> string \<Rightarrow> 'b MailStore \<Rightarrow> 'b MailStore \<times> ('err mail_error + Record)" where
  "mail_Reject B e itemID actor decisionID = applyTerminalEvent B e itemID actor decisionID EventTypeRejected EventTypeApproved"

definition markCompletedOnce ::
  "('e, 'b, 'err) Backend \<Rightarrow> 'e \<Rightarrow> string \<Rightarrow> Principal \<Rightarrow> string \<Rightarrow> 'b MailStore \<Rightarrow> 'b MailStore \<times> ('err mail_error + Record)" where
  "markCompletedOnce B e itemID actor completionID s = (case mail_Get s itemID of
      None \<Rightarrow> (s, Inl (ItemNotFound itemID))
    | Some r \<Rightarrow>
        if list_ex (\<lambda>ev. ev_Type ev = EventTypeCompleted) (rd_Events r) then (s, Inr r)
        else mail_AppendEvent B e (new_Event itemID EventTypeCompleted actor [] []
          (Some (fmupd ''completion_id'' completionID fmempty))) s)"

section \<open>The payment flow\<close>

text \<open>The item that an item replies to, of the kind expected, with its payload.\<close>

definition load_parent :: "string \<Rightarrow> ((string \<times> json) list \<Rightarrow> 'p option) \<Rightarrow> 'b MailStore \<Rightarrow> Item \<Rightarrow> 'err mail_error + Record \<times> 'p" where
  "load_parent kind f s item = (let replyTo = TrimSpace (it_ReplyTo item) in
     if replyTo = [] then Inl ReplyToRequired
     else case mail_Get s replyTo of
       None \<Rightarrow> Inl (ItemNotFound replyTo)
     | Some parent \<Rightarrow>
         if it_Kind (rd_Item parent) \<noteq> kind then Inl (WrongKind (it_Kind (rd_Item parent)))
         else case unmarshal f (it_PayloadInline (rd_Item parent)) of
           None \<Rightarrow> Inl BadPayload | Some payload \<Rightarrow> Inr (parent, payload))"

definition loadPaymentRequiredParent :: "'b MailStore \<Rightarrow> Item \<Rightarrow> 'err mail_error + Record \<times> PaymentRequiredPayload" where
  "loadPaymentRequiredParent = load_parent ItemKindPaymentRequired required_of_fields"

definition loadPaymentChainForResult ::
  "'b MailStore \<Rightarrow> Item \<Rightarrow> 'err mail_error + Record \<times> PaymentProofPayload \<times> Record \<times> PaymentRequiredPayload" where
  "loadPaymentChainForResult s item = (case load_parent ItemKindPaymentProof proof_of_fields s item of
      Inl err \<Rightarrow> Inl err
    | Inr (proofRecord, proofPayload) \<Rightarrow> (case loadPaymentRequiredParent s (rd_Item proofRecord) of
        Inl err \<Rightarrow> Inl err
      | Inr (requiredRecord, requiredPayload) \<Rightarrow> Inr (proofRecord, proofPayload, requiredRecord, requiredPayload)))"

definition loadPaymentChainForReceipt ::
  "'b MailStore \<Rightarrow> Item \<Rightarrow> 'err mail_error + Record \<times> ResultPayload \<times> Record \<times> Record \<times> PaymentRequiredPayload" where
  "loadPaymentChainForReceipt s item = (case load_parent ItemKindResult result_of_fields s item of
      Inl err \<Rightarrow> Inl err
    | Inr (resultRecord, resultPayload) \<Rightarrow> (case loadPaymentChainForResult s (rd_Item resultRecord) of
        Inl err \<Rightarrow> Inl err
      | Inr (proofRecord, _, requiredRecord, requiredPayload) \<Rightarrow>
          Inr (resultRecord, resultPayload, proofRecord, requiredRecord, requiredPayload)))"

definition validateReceiptAgainstRequired :: "ReceiptPayload \<Rightarrow> Record \<Rightarrow> PaymentRequiredPayload \<Rightarrow> 'err mail_error option" where
  "validateReceiptAgainstRequired receipt required quote =
     (if rc_Caller receipt \<noteq> RecipientID (rd_Item required) then Some (FlowMismatch ''caller'')
      else if rc_Provider receipt \<noteq> pn_ID (it_From (rd_Item required)) then Some (FlowMismatch ''provider'')
      else if rc_Method receipt \<noteq> pq_Method quote then Some (FlowMismatch ''method'')
      else if rc_Amount receipt \<noteq> pq_Amount quote then Some (FlowMismatch ''amount'')
      else if rc_Chain receipt \<noteq> pq_Chain quote then Some (FlowMismatch ''chain'')
      else if rc_Nonce receipt \<noteq> pq_Nonce quote then Some (FlowMismatch ''nonce'')
      else None)"

definition receiptMatchesDraft :: "ReceiptPayload \<Rightarrow> ReceiptPayload \<Rightarrow> bool" where
  "receiptMatchesDraft draft final \<longleftrightarrow>
     rc_TxHash draft = rc_TxHash final \<and> rc_Caller draft = rc_Caller final \<and> rc_Provider draft = rc_Provider final \<and>
     rc_Method draft = rc_Method final \<and> rc_Amount draft = rc_Amount final \<and> rc_Chain draft = rc_Chain final \<and>
     rc_Nonce draft = rc_Nonce final \<and> rc_ProviderRating draft = rc_ProviderRating final \<and>
     rc_ProviderSignature draft = rc_ProviderSignature final"

text \<open>The request identifier is taken from the parent where the item has none.\<close>

definition with_request :: "Item \<Rightarrow> Item \<Rightarrow> Item" where
  "with_request parent item = (if it_RequestID item = [] then item\<lparr>it_RequestID := it_RequestID parent\<rparr> else item)"

definition proof_item :: "'b MailStore \<Rightarrow> Item \<Rightarrow> PaymentProofPayload \<Rightarrow> 'err mail_error + Item" where
  "proof_item s item0 payload = (case Proof_Validate payload of
      Some err \<Rightarrow> Inl err
    | None \<Rightarrow> (case loadPaymentRequiredParent s item0 of
        Inl err \<Rightarrow> Inl err
      | Inr (parent, quote) \<Rightarrow>
          (let item = with_request (rd_Item parent) item0;
               to = (case it_To item of Some p \<Rightarrow> p | None \<Rightarrow> it_From (rd_Item parent)) in
           if it_RequestID item \<noteq> it_RequestID (rd_Item parent) then Inl (FlowMismatch ''request_id'')
           else if TrimSpace (it_IdempotencyKey item) = [] then Inl IdempotencyKeyRequired
           else if pn_ID to \<noteq> pn_ID (it_From (rd_Item parent)) then Inl (FlowMismatch ''recipient'')
           else if (case it_To (rd_Item parent) of None \<Rightarrow> False | Some caller \<Rightarrow> pn_ID (it_From item) \<noteq> pn_ID caller)
             then Inl (FlowMismatch ''sender'')
           else if pp_Amount payload \<noteq> pq_Amount quote \<or> pp_Chain payload \<noteq> pq_Chain quote \<or> pp_Nonce payload \<noteq> pq_Nonce quote
             then Inl (FlowMismatch ''amount/chain/nonce'')
           else Inr (item\<lparr>it_To := Some to, it_Kind := ItemKindPaymentProof\<rparr>))))"

definition CreatePaymentProof ::
  "('e, 'b, 'err) Backend \<Rightarrow> 'e calls \<Rightarrow> int \<Rightarrow> string \<Rightarrow> Item \<Rightarrow> PaymentProofPayload \<Rightarrow> 'b MailStore
    \<Rightarrow> 'b MailStore \<times> ('err mail_error + Record)" where
  "CreatePaymentProof B es now newID item payload s =
     create_checked B es now newID (proof_item s item payload) (proof_to_json payload) s"

definition result_item :: "'b MailStore \<Rightarrow> Item \<Rightarrow> ResultPayload \<Rightarrow> 'err mail_error + Item" where
  "result_item s item0 payload = (case Result_Validate payload of
      Some err \<Rightarrow> Inl err
    | None \<Rightarrow> (case loadPaymentChainForResult s item0 of
        Inl err \<Rightarrow> Inl err
      | Inr (proof, proofPayload, required, quote) \<Rightarrow>
          (let item1 = with_request (rd_Item proof) item0;
               item = (if it_To item1 = None then item1\<lparr>it_To := it_To (rd_Item required)\<rparr> else item1) in
           if it_RequestID item \<noteq> it_RequestID (rd_Item proof) then Inl (FlowMismatch ''request_id'')
           else if TrimSpace (it_IdempotencyKey item) = [] then Inl IdempotencyKeyRequired
           else if pn_ID (it_From item) \<noteq> pn_ID (it_From (rd_Item required)) then Inl (FlowMismatch ''sender'')
           else if (case it_To (rd_Item required) of None \<Rightarrow> False
               | Some caller \<Rightarrow> map_option pn_ID (it_To item) \<noteq> Some (pn_ID caller)) then Inl (FlowMismatch ''recipient'')
           else case validateReceiptAgainstRequired (rp_Receipt payload) required quote of
             Some err \<Rightarrow> Inl err
           | None \<Rightarrow>
               if rc_CallerSignature (rp_Receipt payload) \<noteq> [] then Inl (FlowMismatch ''caller_signature'')
               else if pp_Amount proofPayload \<noteq> pq_Amount quote \<or> pp_Chain proofPayload \<noteq> pq_Chain quote \<or>
                   pp_Nonce proofPayload \<noteq> pq_Nonce quote then Inl (FlowMismatch ''amount/chain/nonce'')
               else Inr (item\<lparr>it_Kind := ItemKindResult\<rparr>))))"

definition CreateResult ::
  "('e, 'b, 'err) Backend \<Rightarrow> 'e calls \<Rightarrow> int \<Rightarrow> string \<Rightarrow> Item \<Rightarrow> ResultPayload \<Rightarrow> 'b MailStore
    \<Rightarrow> 'b MailStore \<times> ('err mail_error + Record)" where
  "CreateResult B es now newID item payload s =
     create_checked B es now newID (result_item s item payload) (result_to_json payload) s"

text \<open>The receipt's item together with the records it closes.\<close>

definition receipt_item :: "'b MailStore \<Rightarrow> Item \<Rightarrow> ReceiptPayload \<Rightarrow> 'err mail_error + Item \<times> Record \<times> Record \<times> Record" where
  "receipt_item s item0 payload = (case Receipt_Validate payload of
      Some err \<Rightarrow> Inl err
    | None \<Rightarrow> (case loadPaymentChainForReceipt s item0 of
        Inl err \<Rightarrow> Inl err
      | Inr (result, resultPayload, proof, required, quote) \<Rightarrow>
          (let item = with_request (rd_Item result) item0;
               to = (case it_To item of Some p \<Rightarrow> p | None \<Rightarrow> it_From (rd_Item required)) in
           if it_RequestID item \<noteq> it_RequestID (rd_Item result) then Inl (FlowMismatch ''request_id'')
           else if TrimSpace (it_IdempotencyKey item) = [] then Inl IdempotencyKeyRequired
           else if (case it_To (rd_Item required) of None \<Rightarrow> False | Some caller \<Rightarrow> pn_ID (it_From item) \<noteq> pn_ID caller)
             then Inl (FlowMismatch ''sender'')
           else if pn_ID to \<noteq> pn_ID (it_From (rd_Item required)) then Inl (FlowMismatch ''recipient'')
           else case validateReceiptAgainstRequired payload required quote of
             Some err \<Rightarrow> Inl err
           | None \<Rightarrow>
               if rc_ProviderSignature payload = [] \<or> rc_CallerSignature payload = [] then Inl (FlowMismatch ''signatures'')
               else if \<not> receiptMatchesDraft (rp_Receipt resultPayload) payload then Inl (FlowMismatch ''draft'')
               else Inr (item\<lparr>it_To := Some to, it_Kind := ItemKindReceipt\<rparr>, result, proof, required))))"

definition CreateReceipt ::
  "('e, 'b, 'err) Backend \<Rightarrow> 'e calls \<Rightarrow> int \<Rightarrow> string \<Rightarrow> Item \<Rightarrow> ReceiptPayload \<Rightarrow> 'b MailStore
    \<Rightarrow> 'b MailStore \<times> ('err mail_error + Record)" where
  "CreateReceipt B es now newID item0 payload s = (case receipt_item s item0 payload of
      Inl err \<Rightarrow> (s, Inl err)
    | Inr (item, result, proof, required) \<Rightarrow>
        (let key = it_IdempotencyKey item; provider = it_From (rd_Item required); caller = it_From item in
         case createWorkflowItem B es now newID item (receipt_to_json payload) s of
           (s1, Inl err) \<Rightarrow> (s1, Inl err)
         | (s1, Inr r) \<Rightarrow> (case markCompletedOnce B (es 3) (it_ID (rd_Item proof)) provider key s1 of
             (s2, Inl err) \<Rightarrow> (s2, Inl err)
           | (s2, Inr _) \<Rightarrow> (case markCompletedOnce B (es 4) (it_ID (rd_Item required)) provider key s2 of
               (s3, Inl err) \<Rightarrow> (s3, Inl err)
             | (s3, Inr _) \<Rightarrow> (case markCompletedOnce B (es 5) (it_ID (rd_Item result)) caller key s3 of
                 (s4, Inl err) \<Rightarrow> (s4, Inl err)
               | (s4, Inr _) \<Rightarrow> markCompletedOnce B (es 6) (it_ID (rd_Item r)) caller key s4)))))"

section \<open>Requests are idempotent\<close>

lemma findFirst_None: "findFirstMatching fn s = None \<longleftrightarrow> (\<forall>i r. mail_Get s i = Some r \<longrightarrow> \<not> fn r)"
proof -
  have "set (listMatching fn s) = {r. \<exists>i. mail_Get s i = Some r \<and> fn r}"
    by (auto simp: listMatching_def index_list_def index_records_set mail_Get_def)
  moreover have "findFirstMatching fn s = None \<longleftrightarrow> set (listMatching fn s) = {}"
    by (auto simp: findFirstMatching_def split: list.splits)
  ultimately show ?thesis by auto
qed

lemma findFirst_Some: "findFirstMatching fn s = Some r \<Longrightarrow> fn r \<and> (\<exists>i. mail_Get s i = Some r)"
proof -
  assume "findFirstMatching fn s = Some r"
  then have "r \<in> set (listMatching fn s)" by (auto simp: findFirstMatching_def split: list.splits)
  then show ?thesis by (auto simp: listMatching_def index_list_def index_records_set mail_Get_def)
qed

lemma findFirst_unique:
  assumes "mail_Get s i = Some r" "fn r" "\<And>j r'. mail_Get s j = Some r' \<Longrightarrow> fn r' \<Longrightarrow> r' = r"
  shows "findFirstMatching fn s = Some r"
proof (cases "findFirstMatching fn s")
  case None
  then show ?thesis using assms(1,2) by (auto simp: findFirst_None)
next
  case (Some r')
  then show ?thesis using findFirst_Some assms(3) by blast
qed

text \<open>What a successful \<open>Create\<close> has done to the index.\<close>

lemma Create_shows:
  assumes "mail_Create B es now newID item s = (s', Inr r)"
  shows "mail_Get s' (it_ID (created_item now newID item)) = Some r \<and> rd_Item r = created_item now newID item \<and>
    only (it_ID (created_item now newID item)) s s'"
proof -
  let ?it = "created_item now newID item"
  let ?ev = "new_Event (it_ID ?it) EventTypeCreated (it_From ?it) [] [] None"
  obtain b where b: "be_CreateItem B (es 0) ?it (ms_backend s) = (b, None)"
    using assms by (auto simp: mail_Create_def Let_def split: option.splits prod.splits)
  define s1 where "s1 = s\<lparr>ms_backend := b, ms_index := upsertItem ?it (ms_index s)\<rparr>"
  obtain s2 y where y: "store_appendEvent B (es 1) ?ev s1 = (s2, y)" by fastforce
  have "ms_index s2 = ms_index s1" using y by (auto simp: store_appendEvent_def split: option.splits prod.splits)
  moreover have "s' = s2 \<and> mail_Get s2 (it_ID ?it) = Some r"
    using assms b y by (auto simp: mail_Create_def Let_def s1_def [symmetric] split: option.splits sum.splits)
  ultimately show ?thesis by (auto simp: s1_def only_def mail_Get_def index_get_state split: if_splits)
qed

lemma created_item_keeps [simp]:
  "it_Kind (created_item now newID item) = it_Kind item" "it_RequestID (created_item now newID item) = it_RequestID item"
  "it_ReplyTo (created_item now newID item) = it_ReplyTo item" "it_IdempotencyKey (created_item now newID item) = it_IdempotencyKey item"
  "it_From (created_item now newID item) = it_From item" "it_To (created_item now newID item) = it_To item"
  "it_PayloadInline (created_item now newID item) = it_PayloadInline item"
  by (simp_all add: created_item_def applyCreateDefaults_def Let_def)

lemma findDuplicate_payload [simp]:
  "findDuplicateWorkflowItem (item\<lparr>it_PayloadInline := p\<rparr>) s = findDuplicateWorkflowItem item s"
  "workflowItemEquivalent x (item\<lparr>it_PayloadInline := p\<rparr>) = workflowItemEquivalent x item"
  by (simp_all add: findDuplicateWorkflowItem_def workflowItemEquivalent_def)

text \<open>After a request has been accepted its record is what the duplicate check finds.\<close>

lemma accepted_is_found:
  fixes B :: "('e, 'b, 'err) Backend"
  assumes "createWorkflowItem B es now newID item payload s = (s1, Inr r)" "TrimSpace (it_IdempotencyKey item) \<noteq> []"
  shows "findDuplicateWorkflowItem item s1 = Some r \<and> workflowItemEquivalent (rd_Item r) item \<and>
    it_PayloadInline (rd_Item r) = Some payload \<and> (Principal_Validate (it_From item) :: 'err mail_error option) = None"
proof -
  let ?fn = "\<lambda>r. it_Kind (rd_Item r) = it_Kind item \<and> it_RequestID (rd_Item r) = it_RequestID item \<and>
    it_IdempotencyKey (rd_Item r) = it_IdempotencyKey item"
  have valid: "(Principal_Validate (it_From item) :: 'err mail_error option) = None"
    using assms(1) by (auto simp: createWorkflowItem_def Principal_Validate_def split: if_splits)
  have find: "findDuplicateWorkflowItem item t = findFirstMatching ?fn t" for t :: "'b MailStore"
    using assms(2) by (simp add: findDuplicateWorkflowItem_def)
  show ?thesis
  proof (cases "findDuplicateWorkflowItem item s")
    case (Some x)
    then have "s1 = s" "r = x" "workflowItemEquivalent (rd_Item x) item" "it_PayloadInline (rd_Item x) = Some payload"
      using assms(1) by (auto simp: createWorkflowItem_def Principal_Validate_def Let_def split: if_splits)
    then show ?thesis using Some valid by simp
  next
    case None
    let ?it = "created_item now newID (item\<lparr>it_PayloadInline := Some payload\<rparr>)"
    have "mail_Create B es now newID (item\<lparr>it_PayloadInline := Some payload\<rparr>) s = (s1, Inr r)"
      using assms(1) None by (auto simp: createWorkflowItem_def Principal_Validate_def Let_def split: if_splits)
    note made = Create_shows [OF this]
    have "findFirstMatching ?fn s1 = Some r"
    proof (rule findFirst_unique)
      show "mail_Get s1 (it_ID ?it) = Some r" "?fn r" using made by simp_all
    next
      fix j r'
      assume j: "mail_Get s1 j = Some r'" "?fn r'"
      show "r' = r"
      proof (cases "j = it_ID ?it")
        case False
        then have "mail_Get s j = Some r'" using made only_get j(1) by metis
        then show ?thesis using None j(2) by (auto simp: find findFirst_None)
      qed (use made j in simp)
    qed
    then show ?thesis using valid made by (simp add: find workflowItemEquivalent_def)
  qed
qed

text \<open>
  C35. Creating a workflow item is idempotent in its key: when a request with a key that is not blank has
  been accepted, repeating it (with other clocks and identifiers) returns the record that is there and
  changes nothing, and the same key with another payload is refused.
\<close>
theorem workflow_create_idempotent:
  assumes "createWorkflowItem B es now newID item payload s = (s1, Inr r)" "TrimSpace (it_IdempotencyKey item) \<noteq> []"
  shows "createWorkflowItem B es' now' newID' item payload s1 = (s1, Inr r) \<and>
    it_PayloadInline (rd_Item r) = Some payload \<and> workflowItemEquivalent (rd_Item r) item \<and>
    (\<forall>payload'. payload' \<noteq> payload \<longrightarrow> createWorkflowItem B es' now' newID' item payload' s1 = (s1, Inl KeyReused))"
  using accepted_is_found [OF assms] by (auto simp: createWorkflowItem_def Principal_Validate_def Let_def split: if_splits)

section \<open>Decisions are final\<close>

definition decided :: "string \<Rightarrow> string \<Rightarrow> Record \<Rightarrow> bool" where
  "decided ty conflicting r = (case find (\<lambda>ev. ev_Type ev = ty \<or> ev_Type ev = conflicting) (rd_Events r) of
     None \<Rightarrow> False | Some ev \<Rightarrow> ev_Type ev = ty)"

lemma find_append_case: "find P (xs @ ys) = (case find P xs of None \<Rightarrow> find P ys | Some x \<Rightarrow> Some x)"
  by (induction xs) simp_all

lemma decided_restarted:
  assumes "decided ty conflicting r" "EventTypeCreated \<notin> {ty, conflicting}"
    and "rd_Events r' = rd_Events r \<or> (\<exists>ev. ev_Type ev = EventTypeCreated \<and> rd_Events r' = ev # rd_Events r)"
  shows "decided ty conflicting r'"
  using assms by (auto simp: decided_def)

lemma decided_blocks:
  assumes "mail_Get s i = Some r" "decided ty conflicting r" "ty \<noteq> conflicting" "TrimSpace token \<noteq> []"
  shows "applyTerminalEvent B e i actor token conflicting ty s = (s, Inl (AlreadyDecided ty))"
    "applyTerminalEvent B e i actor token ty conflicting s = (s, Inr r)"
proof -
  obtain ev where ev: "find (\<lambda>ev. ev_Type ev = ty \<or> ev_Type ev = conflicting) (rd_Events r) = Some ev" "ev_Type ev = ty"
    using assms(2) by (auto simp: decided_def split: option.splits)
  then have "find (\<lambda>ev. ev_Type ev = conflicting \<or> ev_Type ev = ty) (rd_Events r) = Some ev" by (simp add: disj_commute)
  with ev show "applyTerminalEvent B e i actor token conflicting ty s = (s, Inl (AlreadyDecided ty))"
    "applyTerminalEvent B e i actor token ty conflicting s = (s, Inr r)"
    using assms(1,3,4) by (simp_all add: applyTerminalEvent_def)
qed

context mailbox_stamps
begin

lemma decision_shown:
  assumes "applyTerminalEvent B e i actor token ty conflicting s = (s', Inr r)"
  shows "mail_Get s' i = Some r \<and> decided ty conflicting r \<and>
    (s' = s \<or> mail_AppendEvent B e (new_Event i ty actor [] [] (Some (fmupd ''decision_id'' token fmempty))) s = (s', Inr r))"
proof -
  let ?ev = "new_Event i ty actor [] [] (Some (fmupd ''decision_id'' token fmempty))"
  let ?P = "\<lambda>ev. ev_Type ev = ty \<or> ev_Type ev = conflicting"
  obtain r0 where r0: "mail_Get s i = Some r0" "TrimSpace token \<noteq> []"
    using assms by (auto simp: applyTerminalEvent_def split: if_splits option.splits)
  show ?thesis
  proof (cases "find ?P (rd_Events r0)")
    case None
    then have app: "mail_AppendEvent B e ?ev s = (s', Inr r)" using assms r0 by (simp add: applyTerminalEvent_def)
    from AppendEvent_shows [of s ?ev r0, OF _ app] r0 None app show ?thesis
      by (auto simp: decided_def find_append_case new_Event_def)
  next
    case (Some ev)
    then show ?thesis using assms r0 by (auto simp: applyTerminalEvent_def decided_def split: if_splits)
  qed
qed

end

text \<open>
  C34. A decision on a request is final and survives a restart: after any run of the mailbox, when
  \<open>Approve\<close> (or \<open>Reject\<close>) has succeeded, the store can be opened again, and both before and after that the
  opposite decision is refused, the same decision is accepted again, and neither changes anything.
\<close>
theorem decision_is_final:
  assumes "\<And>j d. doc_ok j \<Longrightarrow> pr j = Some d \<Longrightarrow> prs d = Some j"
    and "mbx_opened pr prs n e b s" "mbx_run pr prs (n, mbx_clock e, s) (Suc m, u, s1)"
    and "(decide, oppose, ty) = (mail_Approve, mail_Reject, EventTypeApproved) \<or> (decide, oppose, ty) = (mail_Reject, mail_Approve, EventTypeRejected)"
    and "mbx_env_ok e1" "u < mbx_clock e1" "event_wire_ok (new_Event i ty actor [] [] (Some (fmupd ''decision_id'' token fmempty)))"
    and "decide (store_mailbox pr prs) e1 i actor token s1 = (s2, Inr r)"
    and "mbx_env_ok e2" "mbx_clock e1 \<le> mbx_clock e2" "TrimSpace token' \<noteq> []"
  shows "\<exists>s3. mail_NewStore (store_mailbox pr prs) e2 (ms_backend s2) = Inr s3 \<and>
    (\<forall>t \<in> {s2, s3}. oppose (store_mailbox pr prs) e' i actor' token' t = (t, Inl (AlreadyDecided ty)) \<and>
       (\<exists>r'. decide (store_mailbox pr prs) e' i actor' token' t = (t, Inr r')))"
proof -
  define other where "other = (if ty = EventTypeApproved then EventTypeRejected else EventTypeApproved)"
  have ops: "decide B x i a tok = applyTerminalEvent B x i a tok ty other" "oppose B x i a tok = applyTerminalEvent B x i a tok other ty"
    and ne: "ty \<noteq> other" "EventTypeCreated \<notin> {ty, other}" for B x i a tok
    using assms(4) by (auto simp: other_def mail_Approve_def mail_Reject_def)
  have same: "checked pr prs = pr" by (rule checked_same [OF assms(1)])
  note run = mbx_run_agree [OF assms(1-3)]
  note shown = swept.decision_shown [OF assms(8) [unfolded ops]]
  have two: "mbx_inv prs m (ms_backend s2) \<and> agree (mbx_items prs) (mbx_events prs) (mbx_lease prs) (mbx_clock e1) s2"
  proof (cases "s2 = s1")
    case True
    then show ?thesis using run mbx.inv_mono [of prs "Suc m" "ms_backend s1" m] agree_later [of _ _ _ u s1 "mbx_clock e1"] assms(6) by simp
  next
    case False
    with shown have app: "mail_AppendEvent (store_mailbox (checked pr prs) prs) e1
        (new_Event i ty actor [] [] (Some (fmupd ''decision_id'' token fmempty))) s1 = (s2, Inr r)" by (simp add: same)
    from mbx.AppendEvent_agree [OF conjunct1 [OF run] assms(5,7) conjunct2 [OF run] assms(6) app] show ?thesis by blast
  qed
  from mbx.restart_shows [OF conjunct1 [OF two] conjunct2 [OF two] assms(9,10), of pr]
  obtain s3 r3 where s3: "mail_NewStore (store_mailbox pr prs) e2 (ms_backend s2) = Inr s3" "mail_Get s3 i = Some r3"
    "rd_Events r3 = rd_Events r \<or> (\<exists>ev. ev_Type ev = EventTypeCreated \<and> rd_Events r3 = ev # rd_Events r)"
    unfolding same using conjunct1 [OF shown] by blast
  then have r3: "decided ty other r3" using decided_restarted [OF _ ne(2) s3(3)] shown by simp
  have "oppose (store_mailbox pr prs) e' i actor' token' t = (t, Inl (AlreadyDecided ty)) \<and>
      (\<exists>r'. decide (store_mailbox pr prs) e' i actor' token' t = (t, Inr r'))"
    if "mail_Get t i = Some rt" "decided ty other rt" for t rt
    unfolding ops using decided_blocks [OF that ne(1) assms(11), of "store_mailbox pr prs" e' actor'] by blast
  from this [OF s3(2) r3] this [of s2 r] shown s3(1) show ?thesis by blast
qed

lemma example_approve:
  "case snd (mail_AppendEvent (store_mailbox example_print example_parse) (example_call 9)
     (new_Event ''i'' EventTypeApproved example_actor [] [] (Some (fmupd ''decision_id'' ''d'' fmempty))) example_created) of
       Inr r \<Rightarrow> True | _ \<Rightarrow> False"
  by code_simp

theorem decision_is_final_witness:
  "let s = fst (mail_Approve (store_mailbox example_print example_parse) (example_call 9) ''i'' example_actor ''d'' example_created) in
   mail_Reject (store_mailbox example_print example_parse) (example_call 9) ''i'' example_actor ''x'' s =
     (s, Inl (AlreadyDecided EventTypeApproved))"
proof -
  let ?B = "store_mailbox example_print example_parse"
  obtain r0 where r0: "mail_Get example_created ''i'' = Some r0" "rd_Events r0 = []" using example_record by auto
  have "TrimSpace ''d'' \<noteq> []" "TrimSpace ''x'' \<noteq> []" by code_simp+
  note tok = this
  have "mail_Approve ?B (example_call 9) ''i'' example_actor ''d'' example_created =
      mail_AppendEvent ?B (example_call 9) (new_Event ''i'' EventTypeApproved example_actor [] []
        (Some (fmupd ''decision_id'' ''d'' fmempty))) example_created"
    using r0 tok by (simp add: mail_Approve_def applyTerminalEvent_def)
  then obtain s2 r where s2: "mail_Approve ?B (example_call 9) ''i'' example_actor ''d'' example_created = (s2, Inr r)"
    using example_approve by (auto split: sum.splits) (metis prod.collapse)
  have run: "mbx_run example_print example_parse (9, mbx_clock (example_call 4), example_open) (Suc 3, 7, example_created)"
    using example_run by (simp add: example_env_ok(2) numeral_eq_Suc)
  have ev: "event_wire_ok (new_Event ''i'' EventTypeApproved example_actor [] [] (Some (fmupd ''decision_id'' ''d'' fmempty)))" by code_simp
  from decision_is_final [OF example_text example_opened run disjI1 [OF refl] example_env_ok(1) [of 9] _ ev s2 example_env_ok(1) [of 9] _ tok(2),
      of "example_call 9" example_actor]
  show ?thesis using s2 by (auto simp: example_env_ok(2))
qed

section \<open>Receipts match their quote\<close>

text \<open>
  The chain of replies behind a receipt: it answers a result, which answers a proof, which answers a
  quote, with the payloads as they are stored.
\<close>

definition payment_chain :: "'b MailStore \<Rightarrow> Item \<Rightarrow> Record \<Rightarrow> ResultPayload \<Rightarrow> Record \<Rightarrow> Record \<Rightarrow> PaymentRequiredPayload \<Rightarrow> bool" where
  "payment_chain s item result draft proof required quote \<longleftrightarrow>
     mail_Get s (TrimSpace (it_ReplyTo item)) = Some result \<and> it_Kind (rd_Item result) = ItemKindResult \<and>
     unmarshal result_of_fields (it_PayloadInline (rd_Item result)) = Some draft \<and>
     mail_Get s (TrimSpace (it_ReplyTo (rd_Item result))) = Some proof \<and> it_Kind (rd_Item proof) = ItemKindPaymentProof \<and>
     mail_Get s (TrimSpace (it_ReplyTo (rd_Item proof))) = Some required \<and> it_Kind (rd_Item required) = ItemKindPaymentRequired \<and>
     unmarshal required_of_fields (it_PayloadInline (rd_Item required)) = Some quote"

lemma load_parent_Inr:
  "load_parent kind f s item = Inr (parent, payload) \<longleftrightarrow> TrimSpace (it_ReplyTo item) \<noteq> [] \<and>
     mail_Get s (TrimSpace (it_ReplyTo item)) = Some parent \<and> it_Kind (rd_Item parent) = kind \<and>
     unmarshal f (it_PayloadInline (rd_Item parent)) = Some payload"
  by (auto simp: load_parent_def Let_def split: option.splits if_splits)

lemma chain_loaded:
  "loadPaymentChainForReceipt s item = Inr (result, draft, proof, required, quote) \<Longrightarrow>
   payment_chain s item result draft proof required quote"
  by (auto simp: loadPaymentChainForReceipt_def loadPaymentChainForResult_def loadPaymentRequiredParent_def load_parent_Inr
      payment_chain_def split: sum.splits prod.splits)

lemma with_request_keeps [simp]:
  "it_ReplyTo (with_request parent item) = it_ReplyTo item" "it_From (with_request parent item) = it_From item"
  "it_To (with_request parent item) = it_To item" "it_IdempotencyKey (with_request parent item) = it_IdempotencyKey item"
  by (simp_all add: with_request_def)

lemma receipt_accepted:
  assumes "(receipt_item s item payload :: 'err mail_error + _) = Inr (it, result, proof, required)"
  shows "\<exists>draft quote. payment_chain s item result draft proof required quote \<and>
    rc_Caller payload = RecipientID (rd_Item required) \<and> rc_Provider payload = pn_ID (it_From (rd_Item required)) \<and>
    rc_Method payload = pq_Method quote \<and> rc_Amount payload = pq_Amount quote \<and> rc_Chain payload = pq_Chain quote \<and>
    rc_Nonce payload = pq_Nonce quote \<and> rc_CallerSignature payload \<noteq> [] \<and> rc_ProviderSignature payload \<noteq> [] \<and>
    rc_ProviderSignature payload = rc_ProviderSignature (rp_Receipt draft) \<and>
    (\<forall>caller. it_To (rd_Item required) = Some caller \<longrightarrow> pn_ID (it_From it) = pn_ID caller) \<and>
    map_option pn_ID (it_To it) = Some (pn_ID (it_From (rd_Item required))) \<and>
    it_RequestID it = it_RequestID (rd_Item result) \<and> it_Kind it = ItemKindReceipt"
proof -
  obtain draft quote where load: "(loadPaymentChainForReceipt s item :: 'err mail_error + _) = Inr (result, draft, proof, required, quote)"
    and valid: "(Receipt_Validate payload :: 'err mail_error option) = None"
    using assms by (cases "loadPaymentChainForReceipt s item :: 'err mail_error + _")
      (auto simp: receipt_item_def Let_def split: option.splits if_splits)
  note chain = chain_loaded [OF load]
  have "validateReceiptAgainstRequired payload required quote = (None :: 'err mail_error option)"
    using assms load by (auto simp: receipt_item_def Let_def split: option.splits if_splits)
  then have "rc_Caller payload = RecipientID (rd_Item required) \<and> rc_Provider payload = pn_ID (it_From (rd_Item required)) \<and>
    rc_Method payload = pq_Method quote \<and> rc_Amount payload = pq_Amount quote \<and> rc_Chain payload = pq_Chain quote \<and>
    rc_Nonce payload = pq_Nonce quote"
    by (auto simp: validateReceiptAgainstRequired_def split: if_splits)
  with chain show ?thesis
    using assms load
    by (intro exI [of _ draft] exI [of _ quote])
       (auto simp: receipt_item_def receiptMatchesDraft_def Let_def split: option.splits if_splits)
qed

definition is_completed :: "'b MailStore \<Rightarrow> string \<Rightarrow> bool" where
  "is_completed s i \<longleftrightarrow> (case mail_Get s i of None \<Rightarrow> False | Some r \<Rightarrow> hasRecordEvent r EventTypeCompleted [] [])"

context mailbox_stamps
begin

lemma mark_completes:
  assumes "markCompletedOnce B e i actor key s = (s', Inr r)"
  shows "is_completed s' i" "mail_Get s' i = Some r" "is_completed s j \<Longrightarrow> is_completed s' j"
proof -
  let ?ev = "new_Event i EventTypeCompleted actor [] [] (Some (fmupd ''completion_id'' key fmempty))"
  obtain r0 where r0: "mail_Get s i = Some r0" using assms by (auto simp: markCompletedOnce_def split: option.splits)
  have "is_completed s' i \<and> mail_Get s' i = Some r \<and> only i s s'"
  proof (cases "list_ex (\<lambda>ev. ev_Type ev = EventTypeCompleted) (rd_Events r0)")
    case True
    then show ?thesis using assms r0 by (auto simp: markCompletedOnce_def is_completed_def hasRecordEvent_def)
  next
    case False
    then have "mail_AppendEvent B e ?ev s = (s', Inr r)" using assms r0 by (simp add: markCompletedOnce_def)
    from AppendEvent_shows [of s ?ev r0, OF _ this] r0 show ?thesis
      by (auto simp: is_completed_def hasRecordEvent_def new_Event_def)
  qed
  then show "is_completed s' i" "mail_Get s' i = Some r" "is_completed s j \<Longrightarrow> is_completed s' j"
    using only_get [of i s s' j] by (auto simp: is_completed_def) (cases "j = i"; simp)
qed

lemma receipt_marks:
  assumes "CreateReceipt B es now newID item payload s = (s', Inr r)"
  shows "\<exists>it result proof required. (receipt_item s item payload :: 'err mail_error + _) = Inr (it, result, proof, required) \<and>
    is_completed s' (it_ID (rd_Item result)) \<and> is_completed s' (it_ID (rd_Item proof)) \<and>
    is_completed s' (it_ID (rd_Item required)) \<and> hasRecordEvent r EventTypeCompleted [] []"
proof -
  obtain it result pf required where item: "(receipt_item s item payload :: 'err mail_error + _) = Inr (it, result, pf, required)"
    using assms by (cases "receipt_item s item payload :: 'err mail_error + _") (auto simp: CreateReceipt_def)
  obtain s1 s2 r2 s3 r3 s4 r4 and r1 :: Record where
    m: "markCompletedOnce B (es 3) (it_ID (rd_Item pf)) (it_From (rd_Item required)) (it_IdempotencyKey it) s1 = (s2, Inr r2)"
      "markCompletedOnce B (es 4) (it_ID (rd_Item required)) (it_From (rd_Item required)) (it_IdempotencyKey it) s2 = (s3, Inr r3)"
      "markCompletedOnce B (es 5) (it_ID (rd_Item result)) (it_From it) (it_IdempotencyKey it) s3 = (s4, Inr r4)"
      "markCompletedOnce B (es 6) (it_ID (rd_Item r1)) (it_From it) (it_IdempotencyKey it) s4 = (s', Inr r)"
    using assms by (auto simp: CreateReceipt_def item Let_def split: prod.splits sum.splits)
  note d = mark_completes [OF m(1)] mark_completes [OF m(2)] mark_completes [OF m(3)] mark_completes [OF m(4)]
  have "is_completed s' (it_ID (rd_Item result))" "is_completed s' (it_ID (rd_Item pf))" "is_completed s' (it_ID (rd_Item required))"
    using d by blast+
  moreover have "hasRecordEvent r EventTypeCompleted [] []" using d(10,11) by (simp add: is_completed_def)
  ultimately show ?thesis using item by blast
qed

end

text \<open>
  C36. A receipt that is accepted closes its payment: with a backend that stamps events (the contract
  that the daemon's backend has been shown to meet), it answers a result, that a proof, that a quote; its
  caller, provider, method, amount, chain and nonce are those of the quote, it is sent by the caller of the
  quote, carries both signatures, the provider's being the one on the result; and afterwards the quote,
  the proof, the result and the receipt are marked completed.
\<close>
theorem receipt_closes_payment:
  fixes B :: "('e, 'b, 'err) Backend"
  assumes "mailbox_stamps B" "CreateReceipt B es now newID item payload s = (s', Inr r)"
  shows "\<exists>result draft proof required quote. payment_chain s item result draft proof required quote \<and>
    rc_Caller payload = RecipientID (rd_Item required) \<and> rc_Provider payload = pn_ID (it_From (rd_Item required)) \<and>
    rc_Method payload = pq_Method quote \<and> rc_Amount payload = pq_Amount quote \<and> rc_Chain payload = pq_Chain quote \<and>
    rc_Nonce payload = pq_Nonce quote \<and> rc_CallerSignature payload \<noteq> [] \<and> rc_ProviderSignature payload \<noteq> [] \<and>
    rc_ProviderSignature payload = rc_ProviderSignature (rp_Receipt draft) \<and>
    (\<forall>caller. it_To (rd_Item required) = Some caller \<longrightarrow> pn_ID (it_From item) = pn_ID caller) \<and>
    is_completed s' (it_ID (rd_Item result)) \<and> is_completed s' (it_ID (rd_Item proof)) \<and>
    is_completed s' (it_ID (rd_Item required)) \<and> hasRecordEvent r EventTypeCompleted [] []"
proof -
  from mailbox_stamps.receipt_marks [OF assms] obtain it result pf required where
    item: "(receipt_item s item payload :: 'err mail_error + _) = Inr (it, result, pf, required)"
    and marks: "is_completed s' (it_ID (rd_Item result))" "is_completed s' (it_ID (rd_Item pf))"
      "is_completed s' (it_ID (rd_Item required))" "hasRecordEvent r EventTypeCompleted [] []" by blast
  have "it_From it = it_From item"
    using item by (auto simp: receipt_item_def Let_def split: option.splits sum.splits prod.splits if_splits)
  with receipt_accepted [OF item] marks show ?thesis by metis
qed

text \<open>A payment between two agents on a backend that accepts everything.\<close>

definition volatile_backend :: "(unit, unit, unit) Backend" where
  "volatile_backend = \<lparr>be_Load = \<lambda>_ b. (b, Inr \<lparr>sp_Items = [], sp_Events = fmempty, sp_Claims = []\<rparr>),
     be_CreateItem = \<lambda>_ _ b. (b, None), be_AppendEvent = \<lambda>_ ev b. (b, Inr ev),
     be_Claim = \<lambda>_ _ _ _ _ b. (b, Inl MarshalFail), be_Renew = \<lambda>_ _ _ _ _ _ b. (b, Inl MarshalFail),
     be_Release = \<lambda>_ _ _ _ _ b. (b, Inr False), be_DeleteItem = \<lambda>_ _ b. (b, None), be_ContainsItem = \<lambda>_ _ b. (b, False)\<rparr>"

interpretation volatile: mailbox_stamps volatile_backend
  by unfold_locales (simp add: volatile_backend_def)

definition pay_item :: "string \<Rightarrow> string \<Rightarrow> string \<Rightarrow> string \<Rightarrow> string \<Rightarrow> json option \<Rightarrow> Item" where
  "pay_item i kind sender to reply payload = zero_Item\<lparr>it_ID := i, it_Kind := kind, it_From := zero_Principal\<lparr>pn_ID := sender\<rparr>,
     it_To := Some (zero_Principal\<lparr>pn_ID := to\<rparr>), it_RequestID := ''r'', it_ReplyTo := reply, it_IdempotencyKey := i,
     it_PayloadInline := payload\<rparr>"

definition pay_receipt :: "string \<Rightarrow> ReceiptPayload" where
  "pay_receipt sig = \<lparr>rc_TxHash = ''h'', rc_Caller = ''c'', rc_Provider = ''p'', rc_Method = ''sum'', rc_Amount = ''1'', rc_Chain = ''base'',
     rc_Nonce = ''n'', rc_CallerRating = 5, rc_ProviderRating = 0, rc_CallerSignature = sig, rc_ProviderSignature = ''sp''\<rparr>"

definition pay_store :: "unit MailStore" where
  "pay_store = \<lparr>ms_backend = (), ms_index = fold upsertItem
     [pay_item ''q'' ItemKindPaymentRequired ''p'' ''c'' [] (Some (required_to_json \<lparr>pq_Method = ''sum'', pq_Amount = ''1'',
        pq_Asset = ''usdc'', pq_Chain = ''base'', pq_Address = ''a'', pq_Nonce = ''n''\<rparr>)),
      pay_item ''f'' ItemKindPaymentProof ''c'' ''p'' ''q'' (Some (proof_to_json \<lparr>pp_SignedTx = ''t'', pp_Chain = ''base'',
        pp_Amount = ''1'', pp_Nonce = ''n''\<rparr>)),
      pay_item ''s'' ItemKindResult ''p'' ''c'' ''f'' (Some (result_to_json \<lparr>rp_Data = None, rp_Receipt = pay_receipt []\<rparr>))] fmempty\<rparr>"

lemma pay_receipt_created:
  "case snd (CreateReceipt volatile_backend (\<lambda>_. ()) 5 ''x'' (pay_item [] [] ''c'' ''p'' ''s'' None\<lparr>it_IdempotencyKey := ''k''\<rparr>)
     (pay_receipt ''sc'') pay_store) of Inr r \<Rightarrow> True | _ \<Rightarrow> False"
  by code_simp

theorem receipt_closes_payment_witness:
  "case CreateReceipt volatile_backend (\<lambda>_. ()) 5 ''x'' (pay_item [] [] ''c'' ''p'' ''s'' None\<lparr>it_IdempotencyKey := ''k''\<rparr>)
     (pay_receipt ''sc'') pay_store of
     (s, Inr r) \<Rightarrow> hasRecordEvent r EventTypeCompleted [] [] | _ \<Rightarrow> False"
proof -
  let ?c = "CreateReceipt volatile_backend (\<lambda>_. ()) 5 ''x'' (pay_item [] [] ''c'' ''p'' ''s'' None\<lparr>it_IdempotencyKey := ''k''\<rparr>)
     (pay_receipt ''sc'') pay_store"
  obtain r where r: "?c = (fst ?c, Inr r)"
    using pay_receipt_created by (cases ?c) (auto split: sum.splits)
  from receipt_closes_payment [OF volatile.mailbox_stamps_axioms r] r show ?thesis by (auto split: prod.splits sum.splits)
qed

theorem workflow_create_idempotent_witness:
  "case createWorkflowItem volatile_backend (\<lambda>_. ()) 5 ''x'' (pay_item [] ItemKindTaskRequest ''c'' ''p'' [] None\<lparr>it_IdempotencyKey := ''k''\<rparr>)
       (task_to_json \<lparr>tp_Method = ''sum'', tp_Params = None, tp_Summary = []\<rparr>) pay_store of
     (s, r) \<Rightarrow> createWorkflowItem volatile_backend (\<lambda>_. ()) 6 ''y'' (pay_item [] ItemKindTaskRequest ''c'' ''p'' [] None\<lparr>it_IdempotencyKey := ''k''\<rparr>)
       (task_to_json \<lparr>tp_Method = ''sum'', tp_Params = None, tp_Summary = []\<rparr>) s = (s, r)"
proof -
  let ?item = "pay_item [] ItemKindTaskRequest ''c'' ''p'' [] None\<lparr>it_IdempotencyKey := ''k''\<rparr>"
    and ?p = "task_to_json \<lparr>tp_Method = ''sum'', tp_Params = None, tp_Summary = []\<rparr>"
  let ?c = "createWorkflowItem volatile_backend (\<lambda>_. ()) 5 ''x'' ?item ?p pay_store"
  have "case snd ?c of Inr r \<Rightarrow> True | _ \<Rightarrow> False" by code_simp
  then obtain r where r: "?c = (fst ?c, Inr r)" by (cases ?c) (auto split: sum.splits)
  have "TrimSpace (it_IdempotencyKey ?item) \<noteq> []" by code_simp
  from workflow_create_idempotent [OF r this, of "\<lambda>_. ()" 6 "''y''"] r show ?thesis by (auto split: prod.splits)
qed

end
