(* ===== verification/Spec2Isabelle.thy ===== *)
theory Spec2Isabelle
  imports Kv_P2P Kv_Collections Fs_Compact Fs_S3_Props X402_Backend Mailbox_Workflow
begin

text \<open>
  Verification of sky10, a daemon (Go, under \<open>src/\<close>) that keeps the devices of one user in step and
  lets agents act for the user. Four parts that hold its state are modelled, in this order.

  \<^bold>\<open>1. The replicated key-value store\<close> (\<open>src/pkg/kv\<close>, \<open>src/pkg/kv/collections\<close>). A write becomes an entry
  of a JSONL log (\<open>local.go\<close>) with a causal version (\<open>causal.go\<close>) and a last-writer-wins clock; a
  replay of the log is a snapshot (\<open>snapshot.go\<close>). Devices exchange snapshots through object storage
  (\<open>poller.go\<close>) and over streams (\<open>p2p.go\<close>), and merge what they receive into their own log. The
  store (\<open>store.go\<close>) and the collections above it are the interface of other components.

    \<^item> \<open>Clocks\<close>: \<open>ClockTuple.Beats\<close>, shared with the file log. The locale \<open>lww_order\<close> is the contract of a
      last-writer-wins register: maxima do not depend on the order of writes. Interpreted on the clocks here
      and on the comparison of versions where it is total.
    \<^item> \<open>Kv_Causal\<close>: \<open>VersionVector\<close> and \<open>compareCausal\<close>; vectors are a join semilattice, the comparison
      is a strict order.
    \<^item> \<open>Kv_Snapshot\<close>, \<open>Kv_Convergence\<close>: \<open>Entry\<close>, \<open>Snapshot\<close>, \<open>buildSnapshot\<close> with one step \<open>apply_entry\<close> per
      iteration of its loop, and the reads. \<open>kv_reg\<close> abstracts a snapshot to one register per key; the replay
      refines that specification, in any order of the entries, and its vector covers what it holds. The
      theorem needs clocks that agree with causality; without them the order matters, as is also shown.
    \<^item> \<open>Kv_Log\<close>, \<open>Kv_Log_Props\<close>: \<open>LocalLog\<close> with its file, cache and counter. \<open>log_step\<close> is the state
      machine of appends, compactions, invalidations and restarts; in every state the snapshot is a replay
      of the file. Read-your-writes, compaction, the JSON form of an entry.
    \<^item> \<open>Kv_Wire\<close>, \<open>Kv_Merge\<close>: the wire form of a snapshot, message framing, \<open>diffAndMerge\<close> and
      \<open>syncDevice\<close>. A merge joins registers, and merging a delta is as good as merging everything.
    \<^item> \<open>Kv_Pattern\<close>, \<open>Kv_Store\<close>, \<open>Kv_Store_Props\<close>: the glob matcher (total; its measure is the distance to
      the last backtracking point) and \<open>Store\<close>. The locale \<open>kv_store\<close> is the store as a map with failures; it is
      interpreted on the model of \<open>store.go\<close>, and the collections rest on its laws.
    \<^item> \<open>Kv_P2P\<close>: the push scheduler as a state machine, namespace isolation, and the summary exchange
      of two devices, after which both hold the same registers.
    \<^item> \<open>Kv_Collections\<close>: append log, lease and payload reference over the store.

  \<^bold>\<open>2. The file operations log\<close> (\<open>src/pkg/fs/opslog\<close>). Files, directories and their tombstones, replayed
  from entries by \<open>buildSnapshot\<close> with its clock tables (\<open>opslog.go\<close>); a local log (\<open>local.go\<close>) and a
  shared, encrypted one in object storage.

    \<^item> \<open>Fs_Opslog\<close>, \<open>Fs_Opslog_Props\<close>: the data, one definition per case of the replay, and the invariant
      \<open>build_inv\<close> between the tree and the clock tables; nothing that survives is older than a tombstone
      above it; replaying on top of a snapshot equals replaying everything, where no deleted directory is
      created anew.
    \<^item> \<open>Fs_Local\<close>, \<open>Fs_Compact\<close>: \<open>LocalOpsLog\<close> and its state machine \<open>ops_step\<close>; the cache is a replay of
      the file, compaction keeps the tree.
    \<^item> \<open>Fs_Wire\<close>: the two JSON forms of a snapshot.
    \<^item> \<open>Fs_S3\<close>, \<open>Fs_S3_Props\<close>: the shared log over a storage backend that may fail: envelopes, reading
      in clock order, batches, snapshots and compaction.

  \<^bold>\<open>3. Paid service calls\<close> (\<open>src/pkg/x402\<close>). Agents call services that ask for payment; a registry holds
  the approved services with the manifest pinned at approval, a budget the caps.

    \<^item> \<open>X402_Amounts\<close>, \<open>X402_Budget\<close>: decimal amounts and micro-USDC; authorization and charging; the caps hold
      for calls that are charged at most their quote.
    \<^item> \<open>X402_Registry\<close>: catalog, approvals, pins, user settings; what a restart brings back.
    \<^item> \<open>X402_Backend\<close>: one call from its checks over the 402 exchange to the receipt; what it signs.

  \<^bold>\<open>4. The agent mailbox\<close> (\<open>src/pkg/agent/mailbox\<close>). Messages, tasks and approvals between agents are items
  with a timeline of events and, for queue items, a claim. The store (\<open>store.go\<close>) keeps them in an index
  (\<open>index.go\<close>) over a backend (\<open>backend.go\<close>); the daemon uses the one of \<open>scoped_kv.go\<close>, which puts items
  of the two network scopes below two roots of the key-value store (\<open>private_kv.go\<close>), with the append
  log and the lease of part 1.

    \<^item> \<open>Mailbox_Types\<close>, \<open>Mailbox_Index\<close>, \<open>Mailbox_Store\<close>: the data and its checks, retry and retention policies, the
      index with its views and statistics, and every operation of the store with the lifecycle sweep. Each
      backend call is one argument of a sequence of calls.
    \<^item> \<open>Mailbox_Backend\<close>: the locale \<open>mailbox_backend\<close> is the contract of a backend: what items, events and leases
      it holds after each call, failed ones included. In it: the index agrees with the backend after
      every operation, claims exclude each other, a restart shows the same records. \<open>mailbox_framed\<close>
      adds that a backend leaves keys outside its root alone.
    \<^item> \<open>Mailbox_KV\<close>, \<open>Mailbox_KV_Laws\<close>: key layout and JSON forms, the backend below one root; the locale \<open>mailbox_kv\<close>
      (the \<open>kv_store\<close> contract, a root and a JSON printer) gives \<open>mailbox_framed\<close>.
    \<^item> \<open>Mailbox_Scoped\<close>: two framed backends below different roots (\<open>mailbox_pair\<close>) are again a backend;
      interpreted on the store model with the daemon's roots.
    \<^item> \<open>Mailbox_Runs\<close>: \<open>mail_run\<close>, any sequence of operations on an opened mailbox, each of which may fail, and
      what holds after it.
    \<^item> \<open>Mailbox_Sweep\<close>: what the lifecycle sweep leaves behind, and that a second one finds nothing to do; the locale
      \<open>mailbox_stamps\<close> says that a backend stores events unchanged.
    \<^item> \<open>Mailbox_Workflow\<close>: \<open>workflow.go\<close>: requests with idempotency keys, decisions, the payment flow. Repeated requests
      change nothing, decisions are final, a receipt closes the payment whose quote it matches.

  \<^bold>\<open>Conventions.\<close> \<open>Sky10_Prelude\<close> and \<open>Go_Std\<close> hold the shared types, the lemmas on maps, words and
  lists, and the part of Go's library in use. A Go map is a finite map; \<open>fm_items\<close> lists it by key, and
  where the result of a \<open>range\<close> loop could depend on its order the definition takes the order as an argument
  and the theorem holds for every order. \<open>uint64\<close> counters are 64-bit words and wrap; an \<open>int64\<close> is the integer
  it denotes, with \<open>int64_wrap\<close> where the code computes. Strings are lists of bytes. A mutex-protected
  method is one step. Every error return is a value of a sum or an option, and failures of files, of
  the storage and of the network are arguments (\<open>io\<close>, \<open>en_read\<close>, a fault predicate), so that theorems say
  which of them they exclude. JSON documents are trees; their text, and Go's case-insensitive match of
  field names, are not modelled. Bytes above 127 are not spaces and have no lower case.
  No definition uses fuel: every loop is structural or has a measure.

  \<^bold>\<open>Parameters.\<close> Encryption (\<open>enc\<close>, \<open>dec\<close>), storage, clocks, random identifiers, URL parsing, SHA-256, the
  wallet's signers and the paid services are arguments, as are, for the mailbox, the printer and the parser
  of JSON text, with the hypothesis that parsing inverts printing on the documents in use. Theorems that need decryption to invert encryption
  say so, with a witness that instantiates it.

  \<^bold>\<open>What does not hold.\<close> Some theorems show, on a run of the model, that a property one would expect fails:
  the order of replay matters under clock skew; a device that restarts after a compaction loses a
  write; re-creating a directory brings a deleted file back, depending on the cache; compaction after
  a root deletion loses files; putting back the previous content of a file is ignored; a restart takes
  the pin of the second agent approved for a service; a call pays more than its maximum.

  \<^bold>\<open>Not modelled.\<close> The goroutines and tickers that drive the modelled steps, network streams and file
  descriptors; the disk side of file sync (\<open>src/pkg/fs\<close> outside \<open>opslog\<close>: scanning, chunking,
  reconciliation, peer transfer), mostly file-system calls; the agent router and the relay transports of
  the mailbox (\<open>public_queue.go\<close>, \<open>relay_dropbox.go\<close>, \<open>sealed_payload.go\<close>); the secrets store; cryptography and key encodings (\<open>src/pkg/key\<close>, \<open>src/pkg/id\<close>), libp2p
  (\<open>src/pkg/link\<close>), payment signatures and their wire codecs; sandboxes, messengers, wallets, commands
  and the web interface, which drive external programs.
\<close>

end
